(* ===== verification/Wisp_Prelude.thy ===== *)
theory Wisp_Prelude
  imports Main "HOL-Library.Word" "HOL-Library.Multiset"
begin

text \<open>
  Shared vocabulary of the development: the machine types of the Go program, its byte
  orders, its integer conversions, the error values of its fallible operations, and the
  list, map and word lemmas the component theories share.

  \<open>codec_simps\<close> collects the round-trip facts of the byte codecs, \<open>frame_simps\<close> the
  evaluation rules of the wire formats, \<open>inv_intros\<close> the introduction rules of the
  components' invariants, and \<open>go_eval\<close> the definitions that evaluate a closed call of the
  string and address functions with \<open>simp\<close>.
\<close>

unbundle bit_operations_syntax

named_theorems codec_simps
named_theorems frame_simps
named_theorems inv_intros
named_theorems go_eval

section \<open>Machine types\<close>

type_synonym byte = "8 word"
type_synonym u8 = "8 word"
type_synonym u16 = "16 word"
type_synonym u32 = "32 word"
type_synonym u64 = "64 word"
type_synonym bytes = "8 word list"

text \<open>
  Go's \<open>int\<close> and \<open>int64\<close> are 64 bits wide, \<open>int32\<close> is 32. A value of these types is an
  \<open>int\<close> here; a conversion or an addition that may overflow applies the wrap-around
  explicitly.
\<close>

definition go_int32 :: "int \<Rightarrow> int" where
  "go_int32 x = signed_take_bit 31 x"

definition go_int :: "int \<Rightarrow> int" where
  "go_int x = signed_take_bit 63 x"

lemma go_int32_id: "- (2 ^ 31) \<le> x \<Longrightarrow> x < 2 ^ 31 \<Longrightarrow> go_int32 x = x"
  by (simp add: go_int32_def signed_take_bit_int_eq_self)

lemma go_int_id: "- (2 ^ 63) \<le> x \<Longrightarrow> x < 2 ^ 63 \<Longrightarrow> go_int x = x"
  by (simp add: go_int_def signed_take_bit_int_eq_self)

lemma go_int32_small [simp]: "go_int32 0 = 0" "go_int32 1 = 1"
  by (simp_all add: go_int32_def)

text \<open>Go's strings are byte sequences; \<open>string(b)\<close> and \<open>[]byte(s)\<close> convert between the two.\<close>

definition string_of_bytes :: "bytes \<Rightarrow> string" where
  "string_of_bytes bs = map (\<lambda>b. char_of (unat b)) bs"

definition bytes_of_string :: "string \<Rightarrow> bytes" where
  "bytes_of_string s = map of_char s"

lemma of_char_char_of_unat [simp]: "(of_char (char_of (unat b) :: char) :: 8 word) = b"
proof -
  have "(of_char (char_of (unat b) :: char) :: 8 word)
      = of_nat (of_char (char_of (unat b) :: char))"
    by (rule of_nat_of_char [symmetric])
  also have "\<dots> = of_nat (unat b mod 256)"
    by (simp only: of_char_of)
  also have "\<dots> = b"
    using unsigned_less [of b, where ?'a = nat] by simp
  finally show ?thesis .
qed

lemma char_of_unat_of_char [simp]: "char_of (unat (of_char c :: 8 word)) = c"
proof -
  have "(of_char c :: 8 word) = of_nat (of_char c)"
    by (rule of_nat_of_char [symmetric])
  then have "unat (of_char c :: 8 word) = of_char c mod 256"
    by (simp add: unat_of_nat)
  also have "\<dots> = of_char c"
    by (metis char_of_mod_256 char_of_char of_char_of)
  finally show ?thesis by simp
qed

lemma bytes_of_string_of_bytes [simp]: "bytes_of_string (string_of_bytes bs) = bs"
  by (simp add: bytes_of_string_def string_of_bytes_def comp_def)

lemma string_of_bytes_of_string [simp]: "string_of_bytes (bytes_of_string s) = s"
  by (simp add: bytes_of_string_def string_of_bytes_def comp_def)

lemma length_string_of_bytes [simp]: "length (string_of_bytes bs) = length bs"
  by (simp add: string_of_bytes_def)

lemma length_bytes_of_string [simp]: "length (bytes_of_string s) = length s"
  by (simp add: bytes_of_string_def)

section \<open>Byte orders\<close>

text \<open>
  \<open>binary.LittleEndian\<close> and \<open>binary.BigEndian\<close>. The readers index the slice they are
  given and panic when it is too short; every call site of the program checks the length
  first, so the readers are total here and each use comes with its guard.
\<close>

definition le16_bytes :: "u16 \<Rightarrow> bytes" where
  "le16_bytes x = [ucast x, ucast (drop_bit 8 x)]"

definition le16_of :: "bytes \<Rightarrow> u16" where
  "le16_of b = ucast (b ! 0) OR push_bit 8 (ucast (b ! 1))"

definition le32_bytes :: "u32 \<Rightarrow> bytes" where
  "le32_bytes x = [ucast x, ucast (drop_bit 8 x), ucast (drop_bit 16 x), ucast (drop_bit 24 x)]"

definition le32_of :: "bytes \<Rightarrow> u32" where
  "le32_of b = ucast (b ! 0) OR push_bit 8 (ucast (b ! 1)) OR push_bit 16 (ucast (b ! 2))
     OR push_bit 24 (ucast (b ! 3))"

definition be16_bytes :: "u16 \<Rightarrow> bytes" where
  "be16_bytes x = [ucast (drop_bit 8 x), ucast x]"

definition be16_of :: "bytes \<Rightarrow> u16" where
  "be16_of b = push_bit 8 (ucast (b ! 0)) OR ucast (b ! 1)"

definition be64_bytes :: "u64 \<Rightarrow> bytes" where
  "be64_bytes x = [ucast (drop_bit 56 x), ucast (drop_bit 48 x), ucast (drop_bit 40 x),
     ucast (drop_bit 32 x), ucast (drop_bit 24 x), ucast (drop_bit 16 x), ucast (drop_bit 8 x),
     ucast x]"

definition be64_of :: "bytes \<Rightarrow> u64" where
  "be64_of b = push_bit 56 (ucast (b ! 0)) OR push_bit 48 (ucast (b ! 1))
     OR push_bit 40 (ucast (b ! 2)) OR push_bit 32 (ucast (b ! 3)) OR push_bit 24 (ucast (b ! 4))
     OR push_bit 16 (ucast (b ! 5)) OR push_bit 8 (ucast (b ! 6)) OR ucast (b ! 7)"

text \<open>The native byte order of the hosts the server runs on, for its eight-byte loads and stores.\<close>

definition le64_bytes :: "u64 \<Rightarrow> bytes" where
  "le64_bytes x = [ucast x, ucast (drop_bit 8 x), ucast (drop_bit 16 x), ucast (drop_bit 24 x),
     ucast (drop_bit 32 x), ucast (drop_bit 40 x), ucast (drop_bit 48 x), ucast (drop_bit 56 x)]"

definition le64_of :: "bytes \<Rightarrow> u64" where
  "le64_of b = ucast (b ! 0) OR push_bit 8 (ucast (b ! 1)) OR push_bit 16 (ucast (b ! 2))
     OR push_bit 24 (ucast (b ! 3)) OR push_bit 32 (ucast (b ! 4)) OR push_bit 40 (ucast (b ! 5))
     OR push_bit 48 (ucast (b ! 6)) OR push_bit 56 (ucast (b ! 7))"

text \<open>
  A property that every step of a transition system keeps, and so every run: the invariants of
  the components are its interpretations.
\<close>

locale step_invariant =
  fixes step :: "'s \<Rightarrow> 's \<Rightarrow> bool"
    and inv :: "'s \<Rightarrow> bool"
  assumes keeps: "step s t \<Longrightarrow> inv s \<Longrightarrow> inv t"
begin

lemma runs: "step\<^sup>*\<^sup>* s t \<Longrightarrow> inv s \<Longrightarrow> inv t"
  by (induction rule: rtranclp_induct) (auto intro: keeps)

end

text \<open>The contract every fixed-width field of the wire formats keeps.\<close>

locale fixed_codec =
  fixes enc :: "'a \<Rightarrow> bytes"
    and dec :: "bytes \<Rightarrow> 'a"
    and width :: nat
  assumes length_enc: "length (enc x) = width"
    and dec_enc: "dec (enc x @ rest) = x"
    and enc_dec: "length b = width \<Longrightarrow> enc (dec b) = b"
begin

lemma dec_enc_exact: "dec (enc x) = x"
  using dec_enc [of x "[]"] by simp

lemma enc_inject: "enc x = enc y \<longleftrightarrow> x = y"
  by (metis dec_enc_exact)

lemma take_enc: "take width (enc x @ rest) = enc x"
  by (simp add: length_enc)

lemma drop_enc: "drop width (enc x @ rest) = rest"
  by (simp add: length_enc)

lemma split_field: "width \<le> length b \<Longrightarrow> dec (take width b) = x \<Longrightarrow> b = enc x @ drop width b"
  using enc_dec [of "take width b"] by (metis append_take_drop_id length_take min.absorb2)

end

lemma bit_byte_of [simp]: "bit (ucast (w :: 'a::len word) :: 8 word) n \<longleftrightarrow> n < 8 \<and> bit w n"
  by (simp add: bit_simps)

lemma not_bit_byte [simp]: "8 \<le> n \<Longrightarrow> \<not> bit (b :: 8 word) n"
  using bit_imp_le_length [of b n] by auto

lemma list_of_length2: "length b = 2 \<Longrightarrow> b = [b ! 0, b ! 1]"
  by (auto intro!: nth_equalityI simp: less_Suc_eq numeral_eq_Suc)

lemma list_of_length4: "length b = 4 \<Longrightarrow> b = [b ! 0, b ! 1, b ! 2, b ! 3]"
  by (auto intro!: nth_equalityI simp: less_Suc_eq numeral_eq_Suc)

lemma list_of_length8:
  "length b = 8 \<Longrightarrow> b = [b ! 0, b ! 1, b ! 2, b ! 3, b ! 4, b ! 5, b ! 6, b ! 7]"
  by (auto intro!: nth_equalityI simp: less_Suc_eq numeral_eq_Suc)

lemma le16_dec_enc: "le16_of (le16_bytes x @ rest) = x"
proof (rule bit_word_eqI)
  fix n
  assume "n < LENGTH(16)"
  then consider "0 \<le> n \<and> n < 8" | "8 \<le> n \<and> n < 16"
    by simp linarith
  then show "bit (le16_of (le16_bytes x @ rest)) n = bit x n"
    by cases (simp_all add: le16_bytes_def le16_of_def bit_simps less_diff_conv2)
qed

lemma le16_enc_dec: "length b = 2 \<Longrightarrow> le16_bytes (le16_of b) = b"
proof -
  assume b: "length b = 2"
  have b0: "(ucast (le16_of b) :: 8 word) = b ! 0"
    by (rule bit_word_eqI) (simp add: le16_of_def bit_simps)
  have b1: "(ucast (drop_bit 8 (le16_of b)) :: 8 word) = b ! 1"
    by (rule bit_word_eqI) (simp add: le16_of_def bit_simps)
  show ?thesis
    unfolding le16_bytes_def
    by (subst (3) list_of_length2 [OF b]) (simp only: b0 b1)
qed

interpretation le16: fixed_codec le16_bytes le16_of 2
  by unfold_locales (simp_all only: le16_dec_enc le16_enc_dec, simp add: le16_bytes_def)

lemma be16_dec_enc: "be16_of (be16_bytes x @ rest) = x"
proof (rule bit_word_eqI)
  fix n
  assume "n < LENGTH(16)"
  then consider "0 \<le> n \<and> n < 8" | "8 \<le> n \<and> n < 16"
    by simp linarith
  then show "bit (be16_of (be16_bytes x @ rest)) n = bit x n"
    by cases (simp_all add: be16_bytes_def be16_of_def bit_simps less_diff_conv2)
qed

lemma be16_enc_dec: "length b = 2 \<Longrightarrow> be16_bytes (be16_of b) = b"
proof -
  assume b: "length b = 2"
  have b0: "(ucast (drop_bit 8 (be16_of b)) :: 8 word) = b ! 0"
    by (rule bit_word_eqI) (simp add: be16_of_def bit_simps)
  have b1: "(ucast (be16_of b) :: 8 word) = b ! 1"
    by (rule bit_word_eqI) (simp add: be16_of_def bit_simps)
  show ?thesis
    unfolding be16_bytes_def
    by (subst (3) list_of_length2 [OF b]) (simp only: b0 b1)
qed

interpretation be16: fixed_codec be16_bytes be16_of 2
  by unfold_locales (simp_all only: be16_dec_enc be16_enc_dec, simp add: be16_bytes_def)

lemma le32_dec_enc: "le32_of (le32_bytes x @ rest) = x"
proof (rule bit_word_eqI)
  fix n
  assume "n < LENGTH(32)"
  then consider "0 \<le> n \<and> n < 8" | "8 \<le> n \<and> n < 16" | "16 \<le> n \<and> n < 24" | "24 \<le> n \<and> n < 32"
    by simp linarith
  then show "bit (le32_of (le32_bytes x @ rest)) n = bit x n"
    by cases (simp_all add: le32_bytes_def le32_of_def bit_simps less_diff_conv2)
qed

lemma le32_enc_dec: "length b = 4 \<Longrightarrow> le32_bytes (le32_of b) = b"
proof -
  assume b: "length b = 4"
  have b0: "(ucast (le32_of b) :: 8 word) = b ! 0"
    by (rule bit_word_eqI) (simp add: le32_of_def bit_simps)
  have b1: "(ucast (drop_bit 8 (le32_of b)) :: 8 word) = b ! 1"
    by (rule bit_word_eqI) (simp add: le32_of_def bit_simps)
  have b2: "(ucast (drop_bit 16 (le32_of b)) :: 8 word) = b ! 2"
    by (rule bit_word_eqI) (simp add: le32_of_def bit_simps)
  have b3: "(ucast (drop_bit 24 (le32_of b)) :: 8 word) = b ! 3"
    by (rule bit_word_eqI) (simp add: le32_of_def bit_simps)
  show ?thesis
    unfolding le32_bytes_def
    by (subst (5) list_of_length4 [OF b]) (simp only: b0 b1 b2 b3)
qed

interpretation le32: fixed_codec le32_bytes le32_of 4
  by unfold_locales (simp_all only: le32_dec_enc le32_enc_dec, simp add: le32_bytes_def)

lemma be64_dec_enc: "be64_of (be64_bytes x @ rest) = x"
proof (rule bit_word_eqI)
  fix n
  assume "n < LENGTH(64)"
  then consider "0 \<le> n \<and> n < 8" | "8 \<le> n \<and> n < 16" | "16 \<le> n \<and> n < 24" | "24 \<le> n \<and> n < 32" | "32 \<le> n \<and> n < 40" | "40 \<le> n \<and> n < 48" | "48 \<le> n \<and> n < 56" | "56 \<le> n \<and> n < 64"
    by simp linarith
  then show "bit (be64_of (be64_bytes x @ rest)) n = bit x n"
    by cases (simp_all add: be64_bytes_def be64_of_def bit_simps less_diff_conv2)
qed

lemma be64_enc_dec: "length b = 8 \<Longrightarrow> be64_bytes (be64_of b) = b"
proof -
  assume b: "length b = 8"
  have b0: "(ucast (drop_bit 56 (be64_of b)) :: 8 word) = b ! 0"
    by (rule bit_word_eqI) (simp add: be64_of_def bit_simps)
  have b1: "(ucast (drop_bit 48 (be64_of b)) :: 8 word) = b ! 1"
    by (rule bit_word_eqI) (simp add: be64_of_def bit_simps)
  have b2: "(ucast (drop_bit 40 (be64_of b)) :: 8 word) = b ! 2"
    by (rule bit_word_eqI) (simp add: be64_of_def bit_simps)
  have b3: "(ucast (drop_bit 32 (be64_of b)) :: 8 word) = b ! 3"
    by (rule bit_word_eqI) (simp add: be64_of_def bit_simps)
  have b4: "(ucast (drop_bit 24 (be64_of b)) :: 8 word) = b ! 4"
    by (rule bit_word_eqI) (simp add: be64_of_def bit_simps)
  have b5: "(ucast (drop_bit 16 (be64_of b)) :: 8 word) = b ! 5"
    by (rule bit_word_eqI) (simp add: be64_of_def bit_simps)
  have b6: "(ucast (drop_bit 8 (be64_of b)) :: 8 word) = b ! 6"
    by (rule bit_word_eqI) (simp add: be64_of_def bit_simps)
  have b7: "(ucast (be64_of b) :: 8 word) = b ! 7"
    by (rule bit_word_eqI) (simp add: be64_of_def bit_simps)
  show ?thesis
    unfolding be64_bytes_def
    by (subst (9) list_of_length8 [OF b]) (simp only: b0 b1 b2 b3 b4 b5 b6 b7)
qed

interpretation be64: fixed_codec be64_bytes be64_of 8
  by unfold_locales (simp_all only: be64_dec_enc be64_enc_dec, simp add: be64_bytes_def)

lemmas codec_roundtrips [codec_simps] =
  le16.dec_enc be16.dec_enc le32.dec_enc be64.dec_enc
  le16.dec_enc_exact be16.dec_enc_exact le32.dec_enc_exact be64.dec_enc_exact
  le16.length_enc be16.length_enc le32.length_enc be64.length_enc

end
