(* ===== verification/Go_Strings.thy ===== *)
theory Go_Strings
  imports Wisp_Prelude "HOL-Library.Sublist"
begin

text \<open>
  The functions of Go's \<open>strings\<close> and \<open>strconv\<close> packages the program calls, on strings as
  byte sequences. \<open>ToLower\<close> and \<open>TrimSpace\<close> follow the ASCII fast path of the library; bytes
  from 128 upwards are left as they are. The library consults the Unicode tables there: a
  host name or a key of a host filter with letters or spaces outside ASCII may be folded or
  trimmed by the program and is not by the model. The case folding of JSON keys, which has
  two characters outside ASCII to look at, is exact (\<open>fold_name\<close> of \<open>Wisp_Config\<close>).
\<close>

section \<open>Case and white space\<close>

definition code :: "char \<Rightarrow> nat" where
  "code c = of_char c"

definition ascii_lower :: "char \<Rightarrow> char" where
  "ascii_lower c = (if 65 \<le> code c \<and> code c \<le> 90 then char_of (code c + 32) else c)"

definition strings_ToLower :: "string \<Rightarrow> string" where
  "strings_ToLower s = map ascii_lower s"

definition is_space :: "char \<Rightarrow> bool" where
  "is_space c = (code c \<in> {9, 10, 11, 12, 13, 32})"

definition strings_TrimSpace :: "string \<Rightarrow> string" where
  "strings_TrimSpace s = rev (dropWhile is_space (rev (dropWhile is_space s)))"

lemma code_char_of [simp]: "n < 256 \<Longrightarrow> code (char_of n) = n"
  by (simp add: code_def)

lemma code_inject: "code c = code d \<longleftrightarrow> c = d"
  by (simp add: code_def)

lemma ascii_lower_idem [simp]: "ascii_lower (ascii_lower c) = ascii_lower c"
  by (simp add: ascii_lower_def)

lemma ToLower_idem [simp]: "strings_ToLower (strings_ToLower s) = strings_ToLower s"
  by (simp add: strings_ToLower_def)

lemma is_space_lower [simp]: "is_space (ascii_lower c) \<longleftrightarrow> is_space c"
  by (auto simp: is_space_def ascii_lower_def)

lemma dropWhile_space_lower:
  "dropWhile is_space (map ascii_lower s) = map ascii_lower (dropWhile is_space s)"
  by (induction s) auto

lemma TrimSpace_ToLower:
  "strings_TrimSpace (strings_ToLower s) = strings_ToLower (strings_TrimSpace s)"
  by (simp add: strings_TrimSpace_def strings_ToLower_def dropWhile_space_lower rev_map)

lemma TrimSpace_id:
  "s = [] \<or> (\<not> is_space (hd s) \<and> \<not> is_space (last s)) \<Longrightarrow> strings_TrimSpace s = s"
proof (elim disjE conjE)
  assume "\<not> is_space (hd s)" and l: "\<not> is_space (last s)"
  then have "dropWhile is_space s = s"
    by (simp add: dropWhile_eq_self_iff)
  moreover have "dropWhile is_space (rev s) = rev s"
    using l by (simp add: dropWhile_eq_self_iff hd_rev)
  ultimately show ?thesis
    by (simp add: strings_TrimSpace_def)
qed (simp add: strings_TrimSpace_def)

lemma TrimSpace_ends:
  "strings_TrimSpace s = [] \<or>
   (\<not> is_space (hd (strings_TrimSpace s)) \<and> \<not> is_space (last (strings_TrimSpace s)))"
proof -
  let ?t = "dropWhile is_space s"
  let ?u = "dropWhile is_space (rev ?t)"
  have "\<not> is_space (last (rev ?u))" if "?u \<noteq> []"
    using hd_dropWhile [OF that] that by (simp add: last_rev)
  moreover have "\<not> is_space (hd (rev ?u))" if u: "?u \<noteq> []"
  proof -
    obtain v where v: "rev ?t = v @ ?u"
      by (metis takeWhile_dropWhile_id)
    then have t: "?t = rev ?u @ rev v"
      by (metis rev_append rev_rev_ident)
    from u t have "?t \<noteq> []"
      by (metis append_is_Nil_conv rev_is_Nil_conv)
    moreover from u have "hd (rev ?u @ rev v) = hd (rev ?u)"
      by (simp only: hd_append rev_is_Nil_conv if_False)
    ultimately show ?thesis
      using hd_dropWhile [of is_space s] t by metis
  qed
  ultimately show ?thesis
    by (auto simp: strings_TrimSpace_def)
qed

lemma TrimSpace_idem [simp]: "strings_TrimSpace (strings_TrimSpace s) = strings_TrimSpace s"
  by (rule TrimSpace_id, rule TrimSpace_ends)

section \<open>Prefixes, suffixes, searching\<close>

definition strings_HasPrefix :: "string \<Rightarrow> string \<Rightarrow> bool" where
  "strings_HasPrefix s p = (take (length p) s = p)"

definition strings_TrimSuffix :: "string \<Rightarrow> string \<Rightarrow> string" where
  "strings_TrimSuffix s p =
     (if length p \<le> length s \<and> drop (length s - length p) s = p
      then take (length s - length p) s else s)"

text \<open>\<open>strings.Index\<close>: the first position of \<open>p\<close> in \<open>s\<close>, \<open>None\<close> where Go returns -1.\<close>

fun strings_Index :: "string \<Rightarrow> string \<Rightarrow> nat option" where
  "strings_Index [] p = (if p = [] then Some 0 else None)"
| "strings_Index (c # s) p =
     (if strings_HasPrefix (c # s) p then Some 0 else map_option Suc (strings_Index s p))"

definition strings_Contains :: "string \<Rightarrow> string \<Rightarrow> bool" where
  "strings_Contains s p = (strings_Index s p \<noteq> None)"

text \<open>\<open>strings.Replace(s, old, new, 1)\<close> with a non-empty \<open>old\<close>.\<close>

definition strings_Replace1 :: "string \<Rightarrow> string \<Rightarrow> string \<Rightarrow> string" where
  "strings_Replace1 s old new =
     (case strings_Index s old of
        None \<Rightarrow> s
      | Some i \<Rightarrow> take i s @ new @ drop (i + length old) s)"

text \<open>\<open>strings.Split(s, sep)\<close> for a separator of one byte.\<close>

fun strings_Split :: "string \<Rightarrow> char \<Rightarrow> string list" where
  "strings_Split [] sep = [[]]"
| "strings_Split (c # s) sep =
     (if c = sep then [] # strings_Split s sep
      else (case strings_Split s sep of [] \<Rightarrow> [[c]] | w # ws \<Rightarrow> (c # w) # ws))"

lemma Index_Some: "strings_Index s p = Some i \<Longrightarrow> i + length p \<le> length s \<and> take (length p) (drop i s) = p"
proof (induction s arbitrary: i)
  case Nil
  then show ?case by (simp split: if_splits)
next
  case (Cons c s)
  show ?case
  proof (cases "strings_HasPrefix (c # s) p")
    case True
    with Cons.prems have "i = 0" by simp
    moreover have "length p \<le> length (c # s)"
      using True unfolding strings_HasPrefix_def by (metis length_take min.cobounded1)
    ultimately show ?thesis
      using True by (simp add: strings_HasPrefix_def)
  next
    case False
    with Cons.prems obtain j where "strings_Index s p = Some j" and "i = Suc j"
      by auto
    with Cons.IH [of j] show ?thesis by simp
  qed
qed

lemma Index_None: "strings_Index s p = None \<Longrightarrow> take (length p) (drop i s) \<noteq> p \<or> p = []"
proof (induction s arbitrary: i)
  case Nil
  then show ?case by (cases p) auto
next
  case (Cons c s)
  then show ?case
    by (cases i) (auto simp: strings_HasPrefix_def split: if_splits)
qed

lemma Contains_iff: "strings_Contains s p \<longleftrightarrow> (\<exists>u v. s = u @ p @ v)"
proof
  assume "strings_Contains s p"
  then obtain i where "strings_Index s p = Some i"
    by (auto simp: strings_Contains_def)
  then have "take (length p) (drop i s) = p"
    by (auto dest: Index_Some)
  then have "s = take i s @ p @ drop (length p) (drop i s)"
    by (metis append_take_drop_id)
  then show "\<exists>u v. s = u @ p @ v" by blast
next
  assume "\<exists>u v. s = u @ p @ v"
  then obtain u v where s: "s = u @ p @ v" by blast
  show "strings_Contains s p"
  proof (cases "p = []")
    case True
    then show ?thesis
      by (cases s) (simp_all add: strings_Contains_def strings_HasPrefix_def)
  next
    case False
    then show ?thesis
      using Index_None [of s p "length u"] by (auto simp: strings_Contains_def s)
  qed
qed

lemma Split_not_Nil [simp]: "strings_Split s sep \<noteq> []"
  by (induction s) (auto split: list.splits)

lemma Split_no_sep: "sep \<notin> set s \<Longrightarrow> strings_Split s sep = [s]"
  by (induction s) auto

declare code_def [go_eval] ascii_lower_def [go_eval] strings_ToLower_def [go_eval]
  is_space_def [go_eval] strings_TrimSpace_def [go_eval] strings_HasPrefix_def [go_eval]
  strings_TrimSuffix_def [go_eval] strings_Contains_def [go_eval] strings_Replace1_def [go_eval]

section \<open>Decimal numbers\<close>

definition digit :: "nat \<Rightarrow> char" where
  "digit d = char_of (48 + d)"

fun itoa :: "nat \<Rightarrow> string" where
  "itoa n = (if n < 10 then [digit n] else itoa (n div 10) @ [digit (n mod 10)])"

declare itoa.simps [simp del]

definition itoa_int :: "int \<Rightarrow> string" where
  "itoa_int i = (if i < 0 then ''-'' @ itoa (nat (- i)) else itoa (nat i))"

definition is_digit :: "char \<Rightarrow> bool" where
  "is_digit c = (48 \<le> code c \<and> code c \<le> 57)"

definition digits_val :: "string \<Rightarrow> nat" where
  "digits_val s = foldl (\<lambda>v c. 10 * v + (code c - 48)) 0 s"

text \<open>\<open>strconv.ParseUint(s, 10, 16)\<close>: digits only, value below \<open>2 ^ 16\<close>.\<close>

definition ParseUint16 :: "string \<Rightarrow> u16 option" where
  "ParseUint16 s =
     (if s \<noteq> [] \<and> list_all is_digit s \<and> digits_val s < 2 ^ 16
      then Some (of_nat (digits_val s)) else None)"

lemma code_digit [simp]: "d < 10 \<Longrightarrow> code (digit d) = 48 + d"
  by (simp add: digit_def)

lemma is_digit_digit [simp]: "d < 10 \<Longrightarrow> is_digit (digit d)"
  by (simp add: is_digit_def)

lemma digits_val_snoc [simp]: "digits_val (s @ [c]) = 10 * digits_val s + (code c - 48)"
  by (simp add: digits_val_def)

lemma itoa_not_Nil [simp]: "itoa n \<noteq> []"
  by (subst itoa.simps) simp

lemma itoa_digits: "list_all is_digit (itoa n)"
proof (induction n rule: itoa.induct)
  case (1 n)
  then show ?case
    by (cases "n < 10") (simp_all add: itoa.simps [of n])
qed

lemma digits_val_itoa [simp]: "digits_val (itoa n) = n"
proof (induction n rule: itoa.induct)
  case (1 n)
  show ?case
  proof (cases "n < 10")
    case True
    then show ?thesis by (simp add: itoa.simps [of n] digits_val_def)
  next
    case False
    with 1 have "digits_val (itoa (n div 10)) = n div 10" by simp
    with False show ?thesis by (simp add: itoa.simps [of n])
  qed
qed

lemma itoa_inject [simp]: "itoa m = itoa n \<longleftrightarrow> m = n"
  by (metis digits_val_itoa)

lemma ParseUint16_itoa: "ParseUint16 (itoa (unat w)) = Some (w :: u16)"
  using unsigned_less [of w, where ?'a = nat] by (simp add: ParseUint16_def itoa_digits)

text \<open>
  A decimal number followed by a byte that is no digit can be read back in one way only:
  keys of the form \<open>"%d|..."\<close> name one number.
\<close>

lemma itoa_sep_inject:
  assumes "\<not> is_digit c" and "itoa m @ c # u = itoa n @ c # v"
  shows "m = n \<and> u = v"
proof -
  have split: "takeWhile is_digit (itoa k @ c # w) = itoa k" for k w
    using itoa_digits [of k] assms(1) by (simp add: takeWhile_append list_all_iff)
  have "itoa m = itoa n"
    using split [of m u] split [of n v] assms(2) by simp
  then have "m = n" by simp
  with assms(2) show ?thesis by simp
qed

declare digit_def [go_eval] itoa.simps [go_eval] itoa_int_def [go_eval] is_digit_def [go_eval]
  digits_val_def [go_eval] ParseUint16_def [go_eval]

end
