(* ===== verification/Go_Net.thy ===== *)
theory Go_Net
  imports Go_Strings
begin

text \<open>
  The part of Go's \<open>net\<close> and \<open>net/netip\<close> packages that decides what the server connects
  to: addresses as byte slices (4 or 16 bytes, \<open>[]\<close> for nil), their textual forms, their
  classification, and networks in CIDR notation.
\<close>

section \<open>Addresses\<close>

type_synonym ip = bytes

definition v4InV6Prefix :: bytes where
  "v4InV6Prefix = replicate 10 0 @ [255, 255]"

definition IP_To4 :: "ip \<Rightarrow> ip" where
  "IP_To4 p =
     (if length p = 4 then p
      else if length p = 16 \<and> take 12 p = v4InV6Prefix then drop 12 p
      else [])"

definition IPv6unspecified :: ip where
  "IPv6unspecified = replicate 16 0"

definition IPv6loopback :: ip where
  "IPv6loopback = replicate 15 0 @ [1]"

definition IPv4zero :: ip where
  "IPv4zero = v4InV6Prefix @ [0, 0, 0, 0]"

definition IP_Equal :: "ip \<Rightarrow> ip \<Rightarrow> bool" where
  "IP_Equal p x =
     (if length p = length x then p = x
      else if length p = 4 \<and> length x = 16 then take 12 x = v4InV6Prefix \<and> p = drop 12 x
      else if length p = 16 \<and> length x = 4 then take 12 p = v4InV6Prefix \<and> drop 12 p = x
      else False)"

definition IsUnspecified :: "ip \<Rightarrow> bool" where
  "IsUnspecified p = (IP_Equal p IPv4zero \<or> IP_Equal p IPv6unspecified)"

definition IsLoopback :: "ip \<Rightarrow> bool" where
  "IsLoopback p =
     (let p4 = IP_To4 p in if p4 \<noteq> [] then p4 ! 0 = 127 else IP_Equal p IPv6loopback)"

definition IsPrivate :: "ip \<Rightarrow> bool" where
  "IsPrivate p =
     (let p4 = IP_To4 p in
      if p4 \<noteq> [] then
        p4 ! 0 = 10 \<or> (p4 ! 0 = 172 \<and> p4 ! 1 AND 240 = 16) \<or> (p4 ! 0 = 192 \<and> p4 ! 1 = 168)
      else length p = 16 \<and> p ! 0 AND 254 = 252)"

definition IsMulticast :: "ip \<Rightarrow> bool" where
  "IsMulticast p =
     (let p4 = IP_To4 p in
      if p4 \<noteq> [] then p4 ! 0 AND 240 = 224 else length p = 16 \<and> p ! 0 = 255)"

definition IsLinkLocalMulticast :: "ip \<Rightarrow> bool" where
  "IsLinkLocalMulticast p =
     (let p4 = IP_To4 p in
      if p4 \<noteq> [] then p4 ! 0 = 224 \<and> p4 ! 1 = 0 \<and> p4 ! 2 = 0
      else length p = 16 \<and> p ! 0 = 255 \<and> p ! 1 AND 15 = 2)"

definition IsLinkLocalUnicast :: "ip \<Rightarrow> bool" where
  "IsLinkLocalUnicast p =
     (let p4 = IP_To4 p in
      if p4 \<noteq> [] then p4 ! 0 = 169 \<and> p4 ! 1 = 254
      else length p = 16 \<and> p ! 0 = 254 \<and> p ! 1 AND 192 = 128)"

lemma length_v4InV6Prefix [simp]: "length v4InV6Prefix = 12"
  by (simp add: v4InV6Prefix_def)

lemma IP_To4_length: "IP_To4 p \<noteq> [] \<Longrightarrow> length (IP_To4 p) = 4"
  by (auto simp: IP_To4_def split: if_splits)

lemma IP_To4_idem [simp]: "IP_To4 (IP_To4 p) = IP_To4 p"
  using IP_To4_length [of p] by (cases "IP_To4 p = []") (simp_all add: IP_To4_def)

lemma IP_To4_mapped [simp]: "length p = 4 \<Longrightarrow> IP_To4 (v4InV6Prefix @ p) = p"
  by (simp add: IP_To4_def)

lemma IP_To4_4 [simp]: "length p = 4 \<Longrightarrow> IP_To4 p = p"
  by (simp add: IP_To4_def)

section \<open>Parsing addresses\<close>

text \<open>
  The loop of \<open>parseIPv4Fields\<close>: the value and the number of digits of the octet being
  read, and the octets already read. A dot needs a digit before it and a byte after it.
\<close>

fun parseIPv4Fields :: "string \<Rightarrow> nat \<Rightarrow> nat \<Rightarrow> bytes \<Rightarrow> bytes option" where
  "parseIPv4Fields [] val digLen fields =
     (if length fields < 3 then None else Some (fields @ [of_nat val]))"
| "parseIPv4Fields (c # cs) val digLen fields =
     (if is_digit c then
        if digLen = 1 \<and> val = 0 then None
        else if 255 < 10 * val + (code c - 48) then None
        else parseIPv4Fields cs (10 * val + (code c - 48)) (Suc digLen) fields
      else if c = CHR ''.'' then
        if digLen = 0 \<or> cs = [] then None
        else if length fields = 3 then None
        else parseIPv4Fields cs 0 0 (fields @ [of_nat val])
      else None)"

definition hex_val :: "char \<Rightarrow> nat option" where
  "hex_val c =
     (if is_digit c then Some (code c - 48)
      else if 97 \<le> code c \<and> code c \<le> 102 then Some (code c - 97 + 10)
      else if 65 \<le> code c \<and> code c \<le> 70 then Some (code c - 65 + 10)
      else None)"

text \<open>One group of at most four hexadecimal digits: how many, their value, and the rest.\<close>

fun hex_group :: "string \<Rightarrow> nat \<Rightarrow> nat \<Rightarrow> (nat \<times> nat \<times> string) option" where
  "hex_group [] off acc = Some (off, acc, [])"
| "hex_group (c # cs) off acc =
     (case hex_val c of
        None \<Rightarrow> Some (off, acc, c # cs)
      | Some d \<Rightarrow> if 3 < off then None else hex_group cs (Suc off) (16 * acc + d))"

definition u16_bytes :: "nat \<Rightarrow> bytes" where
  "u16_bytes v = [of_nat (v div 256), of_nat (v mod 256)]"

lemma length_u16_bytes [simp]: "length (u16_bytes v) = 2"
  by (simp add: u16_bytes_def)

text \<open>
  The group loop of \<open>parseIPv6\<close>: the text left, the bytes so far and the position of the
  ellipsis. A group followed by a dot is the start of an embedded IPv4 address.
\<close>

function parseIPv6_groups ::
  "string \<Rightarrow> bytes \<Rightarrow> nat option \<Rightarrow> (string \<times> bytes \<times> nat option) option" where
  "parseIPv6_groups s acc ell =
     (if 16 \<le> length acc then Some (s, acc, ell)
      else case hex_group s 0 0 of
        None \<Rightarrow> None
      | Some (off, v, rest) \<Rightarrow>
          if off = 0 then None
          else if rest \<noteq> [] \<and> hd rest = CHR ''.'' then
            if ell = None \<and> length acc \<noteq> 12 then None
            else if 16 < length acc + 4 then None
            else (case parseIPv4Fields s 0 0 [] of
                    None \<Rightarrow> None
                  | Some f \<Rightarrow> Some ([], acc @ f, ell))
          else
            (case rest of
               [] \<Rightarrow> Some ([], acc @ u16_bytes v, ell)
             | c # r \<Rightarrow>
                 if c \<noteq> CHR '':'' then None
                 else (case r of
                   [] \<Rightarrow> None
                 | d # r' \<Rightarrow>
                     if d = CHR '':'' then
                       if ell \<noteq> None then None
                       else if r' = [] then Some ([], acc @ u16_bytes v, Some (length acc + 2))
                       else parseIPv6_groups r' (acc @ u16_bytes v) (Some (length acc + 2))
                     else parseIPv6_groups r (acc @ u16_bytes v) ell)))"
  by pat_completeness auto
termination
  by (relation "measure (\<lambda>(s, acc, ell). 16 - length acc)") auto

declare parseIPv6_groups.simps [simp del]

definition parseIPv6 :: "string \<Rightarrow> (ip \<times> string) option" where
  "parseIPv6 s0 =
     (let zone = dropWhile (\<lambda>c. c \<noteq> CHR ''%'') s0;
          s1 = takeWhile (\<lambda>c. c \<noteq> CHR ''%'') s0 in
      if zone = ''%'' then None
      else
        let lead = take 2 s1 = ''::'';
            s2 = (if lead then drop 2 s1 else s1);
            ell0 = (if lead then Some 0 else None) in
        if lead \<and> s2 = [] then Some (IPv6unspecified, drop 1 zone)
        else (case parseIPv6_groups s2 [] ell0 of
                None \<Rightarrow> None
              | Some (rest, b, ell) \<Rightarrow>
                  if rest \<noteq> [] then None
                  else if length b < 16 then
                    (case ell of
                       None \<Rightarrow> None
                     | Some e \<Rightarrow>
                         Some (take e b @ replicate (16 - length b) 0 @ drop e b, drop 1 zone))
                  else if ell \<noteq> None then None
                  else Some (b, drop 1 zone)))"

text \<open>\<open>netip.ParseAddr\<close>: whether the address is an IPv4 one, its 16 bytes, its zone.\<close>

definition netip_ParseAddr :: "string \<Rightarrow> (bool \<times> ip \<times> string) option" where
  "netip_ParseAddr s =
     (case dropWhile (\<lambda>c. c \<notin> {CHR ''.'', CHR '':'', CHR ''%''}) s of
        [] \<Rightarrow> None
      | c # _ \<Rightarrow>
          if c = CHR ''.'' then
            map_option (\<lambda>f. (True, v4InV6Prefix @ f, [])) (parseIPv4Fields s 0 0 [])
          else if c = CHR '':'' then
            map_option (\<lambda>(b, z). (False, b, z)) (parseIPv6 s)
          else None)"

text \<open>\<open>net.ParseIP\<close>: the 16-byte form, \<open>[]\<close> where Go returns nil.\<close>

definition ParseIP :: "string \<Rightarrow> ip" where
  "ParseIP s =
     (case netip_ParseAddr s of
        Some (_, b, z) \<Rightarrow> (if z = [] then b else [])
      | None \<Rightarrow> [])"

section \<open>Printing addresses\<close>

definition hex_digit :: "nat \<Rightarrow> char" where
  "hex_digit d = (if d < 10 then char_of (48 + d) else char_of (87 + d))"

fun hex_of :: "nat \<Rightarrow> string" where
  "hex_of n = (if n < 16 then [hex_digit n] else hex_of (n div 16) @ [hex_digit (n mod 16)])"

declare hex_of.simps [simp del]

definition v6u16 :: "ip \<Rightarrow> nat \<Rightarrow> nat" where
  "v6u16 p i = 256 * unat (p ! (2 * i)) + unat (p ! (2 * i + 1))"

text \<open>The length of the run of zero groups that starts at group \<open>i\<close>.\<close>

definition zero_run :: "ip \<Rightarrow> nat \<Rightarrow> nat" where
  "zero_run p i = length (takeWhile (\<lambda>j. v6u16 p j = 0) [i..<8])"

text \<open>The first longest run of at least two zero groups, as its first group and its end.\<close>

fun longest_from :: "ip \<Rightarrow> nat list \<Rightarrow> (nat \<times> nat) option \<Rightarrow> (nat \<times> nat) option" where
  "longest_from p [] best = best"
| "longest_from p (i # is) best =
     longest_from p is
       (if 2 \<le> zero_run p i \<and> (case best of None \<Rightarrow> True | Some (a, b) \<Rightarrow> b - a < zero_run p i)
        then Some (i, i + zero_run p i) else best)"

definition longest_zeros :: "ip \<Rightarrow> (nat \<times> nat) option" where
  "longest_zeros p = longest_from p [0..<8] None"

fun string6_from :: "ip \<Rightarrow> (nat \<times> nat) option \<Rightarrow> nat list \<Rightarrow> string" where
  "string6_from p z [] = []"
| "string6_from p z (i # is) =
     (case z of
        Some (a, b) \<Rightarrow>
          if i = a then ''::'' @ (if b \<ge> 8 then [] else hex_of (v6u16 p b)) @ string6_from p z is
          else if a < i \<and> i \<le> b then string6_from p z is
          else (if 0 < i then '':'' else []) @ hex_of (v6u16 p i) @ string6_from p z is
      | None \<Rightarrow> (if 0 < i then '':'' else []) @ hex_of (v6u16 p i) @ string6_from p z is)"

definition string4 :: "ip \<Rightarrow> string" where
  "string4 p = itoa (unat (p ! 0)) @ ''.'' @ itoa (unat (p ! 1)) @ ''.''
     @ itoa (unat (p ! 2)) @ ''.'' @ itoa (unat (p ! 3))"

text \<open>
  \<open>IP.String\<close>. A slice of any other length than 0, 4 and 16 prints as a question mark and
  its bytes in hexadecimal; no such slice occurs here and the model prints the mark alone.
\<close>

definition IP_String :: "ip \<Rightarrow> string" where
  "IP_String p =
     (if p = [] then ''<nil>''
      else if length p \<noteq> 4 \<and> length p \<noteq> 16 then ''?''
      else if IP_To4 p \<noteq> [] then string4 (IP_To4 p)
      else string6_from p (longest_zeros p) [0..<8])"

section \<open>Networks\<close>

record ipnet =
  net_IP :: ip
  net_Mask :: bytes

definition networkNumberAndMask :: "ipnet \<Rightarrow> ip \<times> bytes" where
  "networkNumberAndMask n =
     (let p = (if IP_To4 (net_IP n) \<noteq> [] then IP_To4 (net_IP n) else net_IP n);
          m = net_Mask n in
      if length p \<noteq> 4 \<and> length p \<noteq> 16 then ([], [])
      else if length m = 4 then (if length p = 4 then (p, m) else ([], []))
      else if length m = 16 then (p, if length p = 4 then drop 12 m else m)
      else ([], []))"

definition IPNet_Contains :: "ipnet \<Rightarrow> ip \<Rightarrow> bool" where
  "IPNet_Contains n p =
     (let (nn, m) = networkNumberAndMask n;
          x = (if IP_To4 p \<noteq> [] then IP_To4 p else p) in
      length x = length nn \<and> list_all (\<lambda>i. nn ! i AND m ! i = x ! i AND m ! i) [0..<length x])"

text \<open>\<open>CIDRMask\<close>: \<open>ones\<close> leading one bits in \<open>bits div 8\<close> bytes.\<close>

definition CIDRMask :: "nat \<Rightarrow> nat \<Rightarrow> bytes" where
  "CIDRMask ones bits =
     map (\<lambda>i. if 8 * i + 8 \<le> ones then 255
              else if ones \<le> 8 * i then 0
              else NOT (mask (8 - (ones - 8 * i)))) [0..<bits div 8]"

definition IP_Mask :: "ip \<Rightarrow> bytes \<Rightarrow> ip" where
  "IP_Mask p m =
     (let m' = (if length m = 16 \<and> length p = 4 \<and> take 12 m = replicate 12 255
                then drop 12 m else m);
          p' = (if length m' = 4 \<and> length p = 16 \<and> take 12 p = v4InV6Prefix
                then drop 12 p else p) in
      if length p' \<noteq> length m' then [] else map2 (AND) p' m')"

definition ParseCIDR :: "string \<Rightarrow> ipnet option" where
  "ParseCIDR s =
     (case strings_Index s ''/'' of
        None \<Rightarrow> None
      | Some i \<Rightarrow>
          let mk = drop (Suc i) s in
          (case netip_ParseAddr (take i s) of
             None \<Rightarrow> None
           | Some (is4, b, z) \<Rightarrow>
               let bitlen = (if is4 then 32 else 128);
                   m = CIDRMask (digits_val mk) bitlen in
               if z \<noteq> [] \<or> mk = [] \<or> \<not> list_all is_digit mk \<or> bitlen < digits_val mk then None
               else Some \<lparr>net_IP = IP_Mask b m, net_Mask = m\<rparr>))"

section \<open>Host and port\<close>

definition JoinHostPort :: "string \<Rightarrow> string \<Rightarrow> string" where
  "JoinHostPort host port =
     (if CHR '':'' \<in> set host then ''['' @ host @ '']:'' @ port else host @ '':'' @ port)"

text \<open>
  \<open>net.SplitHostPort\<close>: the port starts after the last colon; a host with colons stands in
  brackets, and no other bracket may occur.
\<close>

definition SplitHostPort :: "string \<Rightarrow> (string \<times> string) option" where
  "SplitHostPort hp =
     (if CHR '':'' \<notin> set hp then None
      else
        let port = rev (takeWhile (\<lambda>c. c \<noteq> CHR '':'') (rev hp));
            i = length hp - length port - 1 in
        if hd hp = CHR ''['' then
          (if CHR '']'' \<notin> set hp then None
           else
             let e = length (takeWhile (\<lambda>c. c \<noteq> CHR '']'') hp) in
             if Suc e \<noteq> i then None
             else if CHR ''['' \<in> set (drop 1 hp) \<or> CHR '']'' \<in> set (drop (Suc e) hp) then None
             else Some (take (e - 1) (drop 1 hp), port))
        else
          let host = take i hp in
          if CHR '':'' \<in> set host then None
          else if CHR ''['' \<in> set hp \<or> CHR '']'' \<in> set hp then None
          else Some (host, port))"

section \<open>Properties\<close>

lemma IP_To4_cases:
  "IP_To4 p = [] \<or> (length p = 4 \<and> IP_To4 p = p)
   \<or> (length p = 16 \<and> p = v4InV6Prefix @ IP_To4 p \<and> length (IP_To4 p) = 4)"
  by (auto simp: IP_To4_def split: if_splits) (metis append_take_drop_id)+

text \<open>The classification does not depend on whether an IPv4 address is held in 4 or 16 bytes.\<close>

lemma length_IPv4zero [simp]: "length IPv4zero = 16"
  by (simp add: IPv4zero_def)

lemma length_v6_constants [simp]: "length IPv6unspecified = 16" "length IPv6loopback = 16"
  by (simp_all add: IPv6unspecified_def IPv6loopback_def)

lemma not_v4_mapped_constants [simp]:
  "take 12 IPv6unspecified \<noteq> v4InV6Prefix" "take 12 IPv6loopback \<noteq> v4InV6Prefix"
  by code_simp+

lemma IP_Equal_mapped4:
  assumes "length q = 4"
  shows "IP_Equal (v4InV6Prefix @ q) x = IP_Equal q x"
  using assms by (auto simp: IP_Equal_def) (metis append_take_drop_id)+

lemma classify_To4:
  assumes "IP_To4 p \<noteq> []"
  shows "IsUnspecified (IP_To4 p) = IsUnspecified p" "IsLoopback (IP_To4 p) = IsLoopback p"
    "IsPrivate (IP_To4 p) = IsPrivate p" "IsMulticast (IP_To4 p) = IsMulticast p"
    "IsLinkLocalMulticast (IP_To4 p) = IsLinkLocalMulticast p"
    "IsLinkLocalUnicast (IP_To4 p) = IsLinkLocalUnicast p"
proof -
  consider "length p = 4" "IP_To4 p = p"
    | q where "length q = 4" "p = v4InV6Prefix @ q" "IP_To4 p = q"
    using IP_To4_cases [of p] assms by blast
  then show "IsUnspecified (IP_To4 p) = IsUnspecified p"
    by cases (simp_all add: IsUnspecified_def IP_Equal_mapped4)
  show "IsLoopback (IP_To4 p) = IsLoopback p" "IsPrivate (IP_To4 p) = IsPrivate p"
    "IsMulticast (IP_To4 p) = IsMulticast p"
    "IsLinkLocalMulticast (IP_To4 p) = IsLinkLocalMulticast p"
    "IsLinkLocalUnicast (IP_To4 p) = IsLinkLocalUnicast p"
    using assms by (simp_all add: IsLoopback_def IsPrivate_def IsMulticast_def
      IsLinkLocalMulticast_def IsLinkLocalUnicast_def Let_def)
qed

text \<open>Joining a host and a port and splitting the result gives them back.\<close>

lemma SplitHostPort_JoinHostPort:
  assumes h: "CHR ''['' \<notin> set host" "CHR '']'' \<notin> set host"
    and p: "set port \<inter> {CHR '':'', CHR ''['', CHR '']''} = {}"
  shows "SplitHostPort (JoinHostPort host port) = Some (host, port)"
proof -
  have tw: "takeWhile (\<lambda>c. c \<noteq> CHR '':'') (rev port @ CHR '':'' # w) = rev port" for w
    using p by (auto simp: takeWhile_append)
  have tb: "takeWhile (\<lambda>c. c \<noteq> CHR '']'') (CHR ''['' # host @ CHR '']'' # w) = CHR ''['' # host" for w
    using h by (auto simp: takeWhile_append)
  show ?thesis
  proof (cases "CHR '':'' \<in> set host")
    case True
    then show ?thesis
      using h p tw [of "CHR '']'' # rev host @ ''[''"] tb [of "CHR '':'' # port"]
      by (auto simp: SplitHostPort_def JoinHostPort_def Let_def)
  next
    case False
    moreover have "hd (host @ CHR '':'' # port) \<noteq> CHR ''[''"
      using h by (cases host) auto
    ultimately show ?thesis
      using h p tw [of "rev host"] by (auto simp: SplitHostPort_def JoinHostPort_def Let_def)
  qed
qed

text \<open>An IPv4 address prints to a text that parses back to it.\<close>

lemma parse_itoa_octet:
  assumes "n < 256" and "rest = [] \<or> \<not> is_digit (hd rest)"
  shows "\<exists>k > 0. parseIPv4Fields (itoa n @ rest) 0 0 fs = parseIPv4Fields rest n k fs"
proof -
  consider "n < 10" | "10 \<le> n" "n < 100" | "100 \<le> n" "n < 256"
    using assms(1) by linarith
  then show ?thesis
  proof cases
    case 1
    then show ?thesis
      by (intro exI [of _ 1]) (simp add: itoa.simps [of n])
  next
    case 2
    then have "n div 10 \<noteq> 0" "n div 10 < 10" by simp_all
    with 2 show ?thesis
      by (intro exI [of _ 2])
        (simp add: itoa.simps [of n] itoa.simps [of "n div 10"] numeral_2_eq_2 [symmetric])
  next
    case 3
    then have "n div 10 div 10 \<noteq> 0" "n div 10 div 10 < 10" "10 \<le> n div 10" "n div 10 \<le> 255"
      by simp_all
    with 3 show ?thesis
      by (intro exI [of _ "Suc (Suc (Suc 0))"])
        (simp add: itoa.simps [of n] itoa.simps [of "n div 10"] itoa.simps [of "n div 10 div 10"])
  qed
qed

lemma parse_octet_dot:
  "n < 256 \<Longrightarrow> cs \<noteq> [] \<Longrightarrow> length fs < 3 \<Longrightarrow>
   parseIPv4Fields (itoa n @ ''.'' @ cs) 0 0 fs = parseIPv4Fields cs 0 0 (fs @ [of_nat n])"
  using parse_itoa_octet [of n "''.'' @ cs" fs] by (auto simp: is_digit_def code_def)

lemma parse_octet_end:
  "n < 256 \<Longrightarrow> length fs = 3 \<Longrightarrow> parseIPv4Fields (itoa n) 0 0 fs = Some (fs @ [of_nat n])"
  using parse_itoa_octet [of n "[]" fs] by auto

lemma itoa_no_special: "c \<in> set (itoa n) \<Longrightarrow> is_digit c"
  using itoa_digits [of n] by (auto simp: list_all_iff)

lemma netip_string4:
  assumes "length p = 4"
  shows "netip_ParseAddr (string4 p) = Some (True, v4InV6Prefix @ p, [])"
proof -
  have oct: "unat (p ! i) < 256" for i
    using unsigned_less [of "p ! i", where ?'a = nat] by simp
  have "parseIPv4Fields (string4 p) 0 0 [] = Some [p ! 0, p ! 1, p ! 2, p ! 3]"
    using oct by (simp only: string4_def) (simp add: parse_octet_dot parse_octet_end oct
      del: append_Cons append_Nil)
  moreover have "dropWhile (\<lambda>c. c \<notin> {CHR ''.'', CHR '':'', CHR ''%''}) (string4 p)
      = ''.'' @ drop (length (itoa (unat (p ! 0))) + 1) (string4 p)"
  proof -
    have "\<forall>c \<in> set (itoa (unat (p ! 0))). c \<notin> {CHR ''.'', CHR '':'', CHR ''%''}"
      by (auto dest!: itoa_no_special simp: is_digit_def code_def)
    then show ?thesis
      by (simp add: string4_def dropWhile_append)
  qed
  ultimately show ?thesis
    using list_of_length4 [OF assms] by (simp add: netip_ParseAddr_def)
qed

lemma ParseIP_string4: "length p = 4 \<Longrightarrow> ParseIP (string4 p) = v4InV6Prefix @ p"
  by (simp add: ParseIP_def netip_string4)

lemma replicate_numeral_unfold: "replicate (numeral k) x = x # replicate (pred_numeral k) x"
  by (simp add: numeral_eq_Suc)

declare replicate_numeral_unfold [go_eval] char_of_eq_iff [go_eval]
  v4InV6Prefix_def [go_eval] IP_To4_def [go_eval] IPv6unspecified_def [go_eval]
  IPv6loopback_def [go_eval] IPv4zero_def [go_eval] IP_Equal_def [go_eval]
  IsUnspecified_def [go_eval] IsLoopback_def [go_eval] IsPrivate_def [go_eval]
  IsMulticast_def [go_eval] IsLinkLocalMulticast_def [go_eval] IsLinkLocalUnicast_def [go_eval]
  hex_val_def [go_eval] u16_bytes_def [go_eval] parseIPv6_groups.simps [go_eval]
  parseIPv6_def [go_eval] netip_ParseAddr_def [go_eval] ParseIP_def [go_eval]
  hex_digit_def [go_eval] hex_of.simps [go_eval] v6u16_def [go_eval] zero_run_def [go_eval]
  longest_zeros_def [go_eval] string4_def [go_eval] IP_String_def [go_eval]
  networkNumberAndMask_def [go_eval] IPNet_Contains_def [go_eval] CIDRMask_def [go_eval]
  IP_Mask_def [go_eval] ParseCIDR_def [go_eval] JoinHostPort_def [go_eval]
  SplitHostPort_def [go_eval] upt_rec [go_eval] Let_def [go_eval]

text \<open>Some evaluations that fix the reading of the library.\<close>

lemma ParseIP_v4_example: "ParseIP ''192.168.0.1'' = v4InV6Prefix @ [192, 168, 0, 1]"
  by (simp add: go_eval)

lemma ParseIP_v4_rejects:
  "ParseIP ''1.2.3'' = []" "ParseIP ''1.2.3.4.5'' = []" "ParseIP ''01.2.3.4'' = []"
  "ParseIP ''256.1.1.1'' = []" "ParseIP ''1..2.3'' = []" "ParseIP '' 127.0.0.1'' = []"
  by (simp_all add: go_eval)

lemma ParseIP_v6_example: "ParseIP ''::1'' = IPv6loopback"
  by (simp add: go_eval)

lemma IP_String_example: "IP_String (ParseIP ''fe80::1:0:0:2'') = ''fe80::1:0:0:2''"
  by (simp add: go_eval)

lemma CIDR_example:
  "map_option (\<lambda>n. IPNet_Contains n (ParseIP ''10.200.3.4'')) (ParseCIDR ''10.0.0.0/8'') = Some True"
  by (simp add: go_eval)

end
