(* ===== verification/Go_Float.thy ===== *)
theory Go_Float
  imports Complex_Main "HOL-Library.Log_Nat" Wisp_Prelude
begin

text \<open>
  Rounding to \<open>float64\<close>, round to nearest with ties to even, for the rationals that occur
  here (counts, ratios of counts and hours: neither subnormal nor beyond the range). Every
  arithmetic operation of the program on \<open>float64\<close> is the exact operation followed by
  \<open>f64\<close>.
\<close>

text \<open>The exponent \<open>k\<close> with \<open>2 powi k \<le> q < 2 powi (k + 1)\<close>, for positive \<open>q\<close>.\<close>

definition rat_exponent :: "rat \<Rightarrow> int" where
  "rat_exponent q =
     (let e = bitlen (fst (quotient_of q)) - bitlen (snd (quotient_of q)) in
      if 2 powi e \<le> q then e else e - 1)"

definition round_even :: "rat \<Rightarrow> int" where
  "round_even x =
     (if x - of_int \<lfloor>x\<rfloor> < 1 / 2 then \<lfloor>x\<rfloor>
      else if 1 / 2 < x - of_int \<lfloor>x\<rfloor> then \<lfloor>x\<rfloor> + 1
      else if even \<lfloor>x\<rfloor> then \<lfloor>x\<rfloor> else \<lfloor>x\<rfloor> + 1)"

definition f64_pos :: "rat \<Rightarrow> rat" where
  "f64_pos q = of_int (round_even (q * 2 powi (52 - rat_exponent q))) * 2 powi (rat_exponent q - 52)"

definition f64 :: "rat \<Rightarrow> rat" where
  "f64 q = (if q = 0 then 0 else if q < 0 then - f64_pos (- q) else f64_pos q)"

text \<open>\<open>int(x)\<close> truncates towards zero.\<close>

definition float_trunc :: "rat \<Rightarrow> int" where
  "float_trunc v = (if v < 0 then - \<lfloor>- v\<rfloor> else \<lfloor>v\<rfloor>)"

lemma float_trunc_of_int [simp]: "float_trunc (of_int n) = n"
  by (simp add: float_trunc_def flip: of_int_minus)

lemma float_trunc_0 [simp]: "float_trunc 0 = 0"
  by (simp add: float_trunc_def)

lemma round_even_of_int [simp]: "round_even (of_int n) = n"
  by (simp add: round_even_def)

lemma round_even_nonneg: "0 \<le> x \<Longrightarrow> 0 \<le> round_even x"
  by (auto simp: round_even_def)

lemma f64_0 [simp]: "f64 0 = 0"
  by (simp add: f64_def)

lemma f64_nonneg: "0 \<le> q \<Longrightarrow> 0 \<le> f64 q"
  using round_even_nonneg [of "q * 2 powi (52 - rat_exponent q)"]
  by (auto simp: f64_def f64_pos_def)

text \<open>A value with at most 53 significant bits is not changed.\<close>

lemma f64_exact:
  assumes "0 < q" and "q * 2 powi (52 - rat_exponent q) = of_int n"
  shows "f64 q = q"
proof -
  have "f64 q = of_int n * 2 powi (rat_exponent q - 52)"
    using assms by (simp add: f64_def f64_pos_def)
  also have "\<dots> = q * (2 powi (52 - rat_exponent q) * 2 powi (rat_exponent q - 52))"
    by (simp add: assms(2) [symmetric])
  also have "(2 :: rat) powi (52 - rat_exponent q) * 2 powi (rat_exponent q - 52) = 1"
    by (simp flip: power_int_add)
  finally show ?thesis by simp
qed

lemma f64_1 [simp]: "f64 1 = 1"
proof (rule f64_exact)
  have "rat_exponent 1 = 0"
    by (simp add: rat_exponent_def)
  then show "1 * 2 powi (52 - rat_exponent 1) = (of_int (2 ^ 52) :: rat)"
    by simp
qed simp

end
