(* ===== verification/Wisp_Config.thy ===== *)
theory Wisp_Config
  imports Go_Net Go_Float
begin

text \<open>
  The configuration of the server (\<open>wisp/config.go\<close>) and the wire constants
  (\<open>wisp/constants.go\<close>): the configuration records with their defaults, the copy the
  handler works on, and the JSON form of the host and port filters.
\<close>

section \<open>Wire constants\<close>

definition packetTypeConnect :: u8 where "packetTypeConnect = 0x01"
definition packetTypeData :: u8 where "packetTypeData = 0x02"
definition packetTypeContinue :: u8 where "packetTypeContinue = 0x03"
definition packetTypeClose :: u8 where "packetTypeClose = 0x04"
definition packetTypeInfo :: u8 where "packetTypeInfo = 0x05"

definition streamTypeTCP :: u8 where "streamTypeTCP = 0x01"
definition streamTypeUDP :: u8 where "streamTypeUDP = 0x02"
definition streamTypeTerm :: u8 where "streamTypeTerm = 0x03"

definition twispExtensionID :: u8 where "twispExtensionID = 0xF0"

definition wispMajorVersion :: u8 where "wispMajorVersion = 2"
definition wispMinorVersion :: u8 where "wispMinorVersion = 1"
definition extensionUDP :: u8 where "extensionUDP = 0x01"
definition extensionPasswordAuth :: u8 where "extensionPasswordAuth = 0x02"
definition extensionCertificateAuth :: u8 where "extensionCertificateAuth = 0x03"
definition extensionMotd :: u8 where "extensionMotd = 0x04"
definition extensionStreamConfirm :: u8 where "extensionStreamConfirm = 0x05"

definition closeReasonUnspecified :: u8 where "closeReasonUnspecified = 0x01"
definition closeReasonVoluntary :: u8 where "closeReasonVoluntary = 0x02"
definition closeReasonNetworkError :: u8 where "closeReasonNetworkError = 0x03"
definition closeReasonIncompatible :: u8 where "closeReasonIncompatible = 0x04"
definition closeReasonInvalidInfo :: u8 where "closeReasonInvalidInfo = 0x41"
definition closeReasonUnreachable :: u8 where "closeReasonUnreachable = 0x42"
definition closeReasonTimeout :: u8 where "closeReasonTimeout = 0x43"
definition closeReasonConnectionRefused :: u8 where "closeReasonConnectionRefused = 0x44"
definition closeReasonBlocked :: u8 where "closeReasonBlocked = 0x48"
definition closeReasonThrottled :: u8 where "closeReasonThrottled = 0x49"
definition closeReasonAuthBadPassword :: u8 where "closeReasonAuthBadPassword = 0xc0"
definition closeReasonAuthRequired :: u8 where "closeReasonAuthRequired = 0xc2"

lemmas packet_type_defs = packetTypeConnect_def packetTypeData_def packetTypeContinue_def
  packetTypeClose_def packetTypeInfo_def twispExtensionID_def

lemmas stream_type_defs = streamTypeTCP_def streamTypeUDP_def streamTypeTerm_def

lemmas extension_defs = extensionUDP_def extensionPasswordAuth_def extensionCertificateAuth_def
  extensionMotd_def extensionStreamConfirm_def

lemmas close_reason_defs = closeReasonUnspecified_def closeReasonVoluntary_def
  closeReasonNetworkError_def closeReasonIncompatible_def closeReasonInvalidInfo_def
  closeReasonUnreachable_def closeReasonTimeout_def closeReasonConnectionRefused_def
  closeReasonBlocked_def closeReasonThrottled_def closeReasonAuthBadPassword_def
  closeReasonAuthRequired_def

section \<open>Configuration records\<close>

text \<open>A \<open>map[K]struct{}\<close> is a finite set; its \<open>len\<close> is compared with 0 only.\<close>

record FilterSet =
  Hostnames :: "string set"
  Ports :: "u16 set"

record SynFloodSignatureConfig =
  sfs_Enabled :: bool
  sfs_WindowMs :: int
  sfs_MinSamples :: int
  sfs_FailedHandshakeRatio :: rat

record FloodProtectionConfig =
  fp_Enabled :: bool
  fp_MaxConnectsPerSourceIPPerSecond :: int
  fp_MaxConnectsPerDestPerSecond :: int
  fp_MaxConnectsPerDestPerMinute :: int
  fp_MaxInFlightSyns :: int
  fp_MaxConcurrentStreamsPerConnection :: int
  fp_MaxConcurrentConnections :: int
  fp_SynFloodSignature :: SynFloodSignatureConfig
  fp_WsCloseAfterViolations :: int
  fp_LogBlockedDials :: bool

text \<open>Times and durations are nanoseconds.\<close>

type_synonym time = int
type_synonym duration = int

definition second :: duration where
  "second = 1000000000"

record ReputationConfig =
  rc_Enabled :: bool
  rc_StorePath :: string
  rc_DecayPerHour :: int
  rc_EvictAfter :: duration
  rc_EvictDays :: int
  rc_Weights :: "string \<rightharpoonup> int"
  rc_DestWeights :: "string \<rightharpoonup> int"
  rc_Warn :: int
  rc_Throttle :: int
  rc_Strict :: int
  rc_SaveIntervalSeconds :: int

record SignatureConfig =
  sc_Enabled :: bool
  sc_Window :: duration
  sc_MinSamples :: int
  sc_FailedHandshakeRatio :: rat

text \<open>
  The fields a configuration file sets, and the ones the server fills in at start-up:
  the trusted networks and whether a DNS cache is installed. The logger, the buffer pool
  and the dialer carry no data the program branches on, and the globals are a state of
  their own.
\<close>

record Config =
  cfg_Port :: int
  cfg_AllowTCP :: bool
  cfg_AllowUDP :: bool
  cfg_AllowDirectIP :: bool
  cfg_AllowPrivateIPs :: bool
  cfg_AllowLoopbackIPs :: bool
  cfg_TcpBufferSize :: int
  cfg_TcpNoDelay :: bool
  cfg_Blacklist :: FilterSet
  cfg_Whitelist :: FilterSet
  cfg_WebsocketPermessageDeflate :: bool
  cfg_DnsServers :: "string list"
  cfg_DnsMethod :: string
  cfg_DnsResultOrder :: string
  cfg_EnableTwisp :: bool
  cfg_EnableV2 :: bool
  cfg_Motd :: string
  cfg_PasswordAuth :: bool
  cfg_PasswordAuthRequired :: bool
  cfg_PasswordUsers :: "string \<rightharpoonup> string"
  cfg_ParseRealIP :: bool
  cfg_TrustedProxies :: "string list"
  cfg_TrustedHeaders :: "string list"
  cfg_NonWSResponse :: string
  cfg_LogLevel :: string
  cfg_Proxy :: string
  cfg_MaxMessageSize :: int
  cfg_StaticDir :: string
  cfg_BandwidthLimitKbps :: int
  cfg_ConnectionsLimitPerIP :: int
  cfg_ConnectionWindowSeconds :: int
  cfg_BufferRemainingLength :: u32
  cfg_FloodProtection :: "FloodProtectionConfig option"
  cfg_Reputation :: "ReputationConfig option"
  cfg_trustedProxyNets :: "ipnet list"
  cfg_hasDNSCache :: bool

definition emptyFilter :: FilterSet where
  "emptyFilter = \<lparr>Hostnames = {}, Ports = {}\<rparr>"

definition DefaultConfig :: Config where
  "DefaultConfig = \<lparr>
     cfg_Port = 6001,
     cfg_AllowTCP = True,
     cfg_AllowUDP = True,
     cfg_AllowDirectIP = False,
     cfg_AllowPrivateIPs = False,
     cfg_AllowLoopbackIPs = False,
     cfg_TcpBufferSize = 32768,
     cfg_TcpNoDelay = True,
     cfg_Blacklist = emptyFilter,
     cfg_Whitelist = emptyFilter,
     cfg_WebsocketPermessageDeflate = False,
     cfg_DnsServers = [],
     cfg_DnsMethod = ''resolve'',
     cfg_DnsResultOrder = ''ipv4first'',
     cfg_EnableTwisp = False,
     cfg_EnableV2 = True,
     cfg_Motd = [],
     cfg_PasswordAuth = False,
     cfg_PasswordAuthRequired = False,
     cfg_PasswordUsers = Map.empty,
     cfg_ParseRealIP = True,
     cfg_TrustedProxies = [],
     cfg_TrustedHeaders = [''CF-Connecting-IP'', ''X-Forwarded-For''],
     cfg_NonWSResponse = [],
     cfg_LogLevel = ''info'',
     cfg_Proxy = [],
     cfg_MaxMessageSize = 0,
     cfg_StaticDir = [],
     cfg_BandwidthLimitKbps = 0,
     cfg_ConnectionsLimitPerIP = 0,
     cfg_ConnectionWindowSeconds = 0,
     cfg_BufferRemainingLength = 32768,
     cfg_FloodProtection = None,
     cfg_Reputation = None,
     cfg_trustedProxyNets = [],
     cfg_hasDNSCache = False\<rparr>"

definition CreateWispConfig :: "Config \<Rightarrow> Config" where
  "CreateWispConfig cfg = \<lparr>
     cfg_Port = cfg_Port cfg,
     cfg_AllowTCP = cfg_AllowTCP cfg,
     cfg_AllowUDP = cfg_AllowUDP cfg,
     cfg_AllowDirectIP = cfg_AllowDirectIP cfg,
     cfg_AllowPrivateIPs = cfg_AllowPrivateIPs cfg,
     cfg_AllowLoopbackIPs = cfg_AllowLoopbackIPs cfg,
     cfg_TcpBufferSize = cfg_TcpBufferSize cfg,
     cfg_TcpNoDelay = cfg_TcpNoDelay cfg,
     cfg_Blacklist = cfg_Blacklist cfg,
     cfg_Whitelist = cfg_Whitelist cfg,
     cfg_WebsocketPermessageDeflate = cfg_WebsocketPermessageDeflate cfg,
     cfg_DnsServers = cfg_DnsServers cfg,
     cfg_DnsMethod = cfg_DnsMethod cfg,
     cfg_DnsResultOrder = cfg_DnsResultOrder cfg,
     cfg_EnableTwisp = cfg_EnableTwisp cfg,
     cfg_EnableV2 = cfg_EnableV2 cfg,
     cfg_Motd = cfg_Motd cfg,
     cfg_PasswordAuth = cfg_PasswordAuth cfg,
     cfg_PasswordAuthRequired = cfg_PasswordAuthRequired cfg,
     cfg_PasswordUsers = cfg_PasswordUsers cfg,
     cfg_ParseRealIP = cfg_ParseRealIP cfg,
     cfg_TrustedProxies = cfg_TrustedProxies cfg,
     cfg_TrustedHeaders = cfg_TrustedHeaders cfg,
     cfg_NonWSResponse = cfg_NonWSResponse cfg,
     cfg_LogLevel = cfg_LogLevel cfg,
     cfg_Proxy = cfg_Proxy cfg,
     cfg_MaxMessageSize = cfg_MaxMessageSize cfg,
     cfg_StaticDir = cfg_StaticDir cfg,
     cfg_BandwidthLimitKbps = cfg_BandwidthLimitKbps cfg,
     cfg_ConnectionsLimitPerIP = cfg_ConnectionsLimitPerIP cfg,
     cfg_ConnectionWindowSeconds = cfg_ConnectionWindowSeconds cfg,
     cfg_BufferRemainingLength = cfg_BufferRemainingLength cfg,
     cfg_FloodProtection = cfg_FloodProtection cfg,
     cfg_Reputation = cfg_Reputation cfg,
     cfg_trustedProxyNets = [],
     cfg_hasDNSCache = False\<rparr>"

definition requiresV2 :: "Config \<Rightarrow> bool" where
  "requiresV2 cfg = (cfg_PasswordAuthRequired cfg \<or> cfg_EnableTwisp cfg)"

section \<open>The JSON form of the filters\<close>

text \<open>
  A JSON document as \<open>encoding/json\<close> reads it: object members in their order, a number as
  the rational value of its \<open>float64\<close> and, when its literal is that of an integer, this integer.
\<close>

datatype json = JNull | JBool bool | JNum rat "int option" | JStr string | JArr "json list"
  | JObj "(string \<times> json) list"

datatype config_error = UnmarshalTypeError | HostnamesExpectedArray | PortsRangeLength
  | PortsRangeNumbers | PortEntryKind | PortsExpectedArray | PortKeyInvalid | SyntaxError
  | FileError

text \<open>
  \<open>encoding/json\<close> compares a key with the tag of a field under simple case folding
  (\<open>foldName\<close>): ASCII letters without regard to case and, beyond ASCII, the two characters that
  fold into it, the long s (U+017F, bytes C5 BF) to S and the Kelvin sign (U+212A, bytes
  E2 84 AA) to K. The keys of a document are valid UTF-8, and a tag is plain ASCII, so the
  bytes of any other character can stay as they are.
\<close>

fun fold_name :: "string \<Rightarrow> string" where
  "fold_name [] = []"
| "fold_name (c # s) =
     (if code c = 0xC5 \<and> take 1 s = [char_of (0xBF :: nat)] then CHR ''S'' # fold_name (drop 1 s)
      else if code c = 0xE2 \<and> take 2 s = [char_of (0x84 :: nat), char_of (0xAA :: nat)]
        then CHR ''K'' # fold_name (drop 2 s)
      else (if 97 \<le> code c \<and> code c \<le> 122 then char_of (code c - 32) else c) # fold_name s)"

definition key_matches :: "string \<Rightarrow> string \<Rightarrow> bool" where
  "key_matches k tag = (fold_name k = fold_name tag)"

text \<open>A key with a long s or a Kelvin sign is the key of the field.\<close>

lemma key_matches_examples:
  "key_matches ''ALLOWprivateips'' ''allowPrivateIPs''"
  "key_matches (''allowPrivateIP'' @ [char_of (0xC5 :: nat), char_of (0xBF :: nat)]) ''allowPrivateIPs''"
  "key_matches (char_of (0xE2 :: nat) # char_of (0x84 :: nat) # char_of (0xAA :: nat) # ''ey'') ''key''"
  "\<not> key_matches (''allowPrivateIP'' @ [char_of (0xC5 :: nat), char_of (0xBE :: nat)]) ''allowPrivateIPs''"
  by (simp_all add: key_matches_def char_of_def bit_0 go_eval)

text \<open>The last member whose key matches the field's tag wins.\<close>

definition json_field :: "string \<Rightarrow> (string \<times> json) list \<Rightarrow> json option" where
  "json_field tag ms = map_option snd (find (\<lambda>(k, v). key_matches k tag) (rev ms))"

text \<open>Unmarshalling into \<open>[]string\<close>: null leaves a nil slice, a null element an empty string.\<close>

fun json_string_elem :: "json \<Rightarrow> string option" where
  "json_string_elem (JStr s) = Some s"
| "json_string_elem JNull = Some []"
| "json_string_elem _ = None"

fun json_strings :: "json \<Rightarrow> string list option" where
  "json_strings JNull = Some []"
| "json_strings (JArr js) = those (map json_string_elem js)"
| "json_strings _ = None"

definition unmarshal_hostnames :: "json \<Rightarrow> string set \<Rightarrow> config_error + string set" where
  "unmarshal_hostnames j hs =
     (case json_strings j of
        Some arr \<Rightarrow> Inr (hs \<union> set (map strings_ToLower arr))
      | None \<Rightarrow>
          (case j of
             JObj ms \<Rightarrow> Inr (hs \<union> set (map (strings_ToLower \<circ> fst) ms))
           | _ \<Rightarrow> Inl HostnamesExpectedArray))"

text \<open>
  One entry of the port array. A range of two numbers is inclusive, in either order; the
  conversion to \<open>uint16\<close> keeps the low 16 bits.
\<close>

fun port_entry :: "json \<Rightarrow> config_error + u16 set" where
  "port_entry (JNum v _) = Inr {word_of_int (float_trunc v)}"
| "port_entry (JArr js) =
     (if length js \<noteq> 2 then Inl PortsRangeLength
      else (case (js ! 0, js ! 1) of
          (JNum s _, JNum e _) \<Rightarrow>
            Inr (word_of_int ` set [float_trunc (if e < s then e else s)
                                    ..float_trunc (if e < s then s else e)])
        | _ \<Rightarrow> Inl PortsRangeNumbers))"
| "port_entry _ = Inl PortEntryKind"

fun port_entries :: "json list \<Rightarrow> u16 set \<Rightarrow> config_error + u16 set" where
  "port_entries [] ps = Inr ps"
| "port_entries (j # js) ps =
     (case port_entry j of Inl e \<Rightarrow> Inl e | Inr s \<Rightarrow> port_entries js (ps \<union> s))"

fun port_keys :: "string list \<Rightarrow> u16 set \<Rightarrow> config_error + u16 set" where
  "port_keys [] ps = Inr ps"
| "port_keys (k # ks) ps =
     (case ParseUint16 k of None \<Rightarrow> Inl PortKeyInvalid | Some n \<Rightarrow> port_keys ks (insert n ps))"

definition unmarshal_ports :: "json \<Rightarrow> u16 set \<Rightarrow> config_error + u16 set" where
  "unmarshal_ports j ps =
     (case j of
        JNull \<Rightarrow> Inr ps
      | JArr js \<Rightarrow> port_entries js ps
      | JObj ms \<Rightarrow> port_keys (map fst ms) ps
      | _ \<Rightarrow> Inl PortsExpectedArray)"

definition UnmarshalJSON :: "json \<Rightarrow> FilterSet \<Rightarrow> config_error + FilterSet" where
  "UnmarshalJSON j f =
     (case j of
        JNull \<Rightarrow> Inr f
      | JObj ms \<Rightarrow>
          (case (case json_field ''hostnames'' ms of
                   None \<Rightarrow> Inr (Hostnames f) | Some h \<Rightarrow> unmarshal_hostnames h (Hostnames f)) of
             Inl e \<Rightarrow> Inl e
           | Inr hs \<Rightarrow>
               (case (case json_field ''ports'' ms of
                        None \<Rightarrow> Inr (Ports f) | Some p \<Rightarrow> unmarshal_ports p (Ports f)) of
                  Inl e \<Rightarrow> Inl e
                | Inr ps \<Rightarrow> Inr \<lparr>Hostnames = hs, Ports = ps\<rparr>))
      | _ \<Rightarrow> Inl UnmarshalTypeError)"

text \<open>A port range covers exactly the ports between its ends, whichever comes first.\<close>

lemma port_entry_range:
  assumes "0 \<le> a" "a < 2 ^ 16" "0 \<le> b" "b < 2 ^ 16"
  shows "port_entry (JArr [JNum (of_int a) m, JNum (of_int b) n])
     = Inr {p. min a b \<le> uint p \<and> uint p \<le> max a b}"
proof -
  have "word_of_int ` {min a b..max a b} = {p :: u16. min a b \<le> uint p \<and> uint p \<le> max a b}"
    (is "?L = ?R")
  proof (intro set_eqI iffI)
    fix p assume "p \<in> ?L"
    then obtain i where "p = word_of_int i" "min a b \<le> i" "i \<le> max a b" by auto
    moreover from this assms have "0 \<le> i" "i < 2 ^ 16" by auto
    ultimately show "p \<in> ?R"
      by (simp add: uint_word_of_int_eq take_bit_int_eq_self)
  next
    fix p assume "p \<in> ?R"
    then show "p \<in> ?L" by (intro image_eqI [of _ _ "uint p"]) auto
  qed
  then show ?thesis
    by (cases "b < a") (simp_all add: min_def max_def)
qed

lemma port_entries_mono: "port_entries js ps = Inr qs \<Longrightarrow> ps \<subseteq> qs"
  by (induction js arbitrary: ps) (fastforce split: sum.splits)+

lemma port_keys_set:
  "port_keys ks ps = Inr qs \<Longrightarrow>
   qs = ps \<union> {n. \<exists>k \<in> set ks. ParseUint16 k = Some n} \<and> (\<forall>k \<in> set ks. ParseUint16 k \<noteq> None)"
  by (induction ks arbitrary: ps) (fastforce split: option.splits)+

lemma unmarshal_hostnames_lower:
  assumes "unmarshal_hostnames j hs = Inr hs'" and "\<forall>h \<in> hs. strings_ToLower h = h"
  shows "\<forall>h \<in> hs'. strings_ToLower h = h"
  using assms by (auto simp: unmarshal_hostnames_def split: option.splits json.splits)

text \<open>
  Everything a file can set survives the copy, and the copy starts without the run-time
  parts.
\<close>

lemma CreateWispConfig_eq:
  "CreateWispConfig cfg = cfg\<lparr>cfg_trustedProxyNets := [], cfg_hasDNSCache := False\<rparr>"
  by (simp add: CreateWispConfig_def)

lemma requiresV2_default: "\<not> requiresV2 DefaultConfig"
  by (simp add: requiresV2_def DefaultConfig_def)

end
