(* ===== verification/Ws_Frames.thy ===== *)
theory Ws_Frames
  imports Wisp_Config
begin

text \<open>
  The wire formats: WebSocket masking (\<open>maskXOR\<close> of \<open>wisp/wsreader.go\<close>), the frames the
  server builds (\<open>sendRawFrame\<close>, the in-place header of \<open>readFromConnection\<close> and
  \<open>readPty\<close>, the control frames), and the header of the frames it reads.
\<close>

section \<open>Masking\<close>

text \<open>
  \<open>key64\<close> is the four key bytes twice, as loaded from memory; \<open>xor8\<close> is one eight-byte
  load, exclusive or and store.
\<close>

definition key64 :: "bytes \<Rightarrow> u64" where
  "key64 key = push_bit 32 (ucast (le32_of key)) OR ucast (le32_of key)"

definition xor8 :: "u64 \<Rightarrow> bytes \<Rightarrow> bytes" where
  "xor8 k b = le64_bytes (le64_of b XOR k)"

text \<open>The last loop: byte by byte, the key index taken from the position in the rest.\<close>

definition mask_tail :: "bytes \<Rightarrow> bytes \<Rightarrow> bytes" where
  "mask_tail key b = map (\<lambda>i. b ! i XOR key ! (i mod 4)) [0..<length b]"

function mask_by8 :: "bytes \<Rightarrow> bytes \<Rightarrow> bytes" where
  "mask_by8 key b =
     (if 8 \<le> length b then xor8 (key64 key) (take 8 b) @ mask_by8 key (drop 8 b)
      else mask_tail key b)"
  by pat_completeness auto
termination
  by (relation "measure (\<lambda>(key, b). length b)") auto

function maskXOR :: "bytes \<Rightarrow> bytes \<Rightarrow> bytes" where
  "maskXOR key b =
     (if 64 \<le> length b then
        xor8 (key64 key) (take 8 b)
        @ xor8 (key64 key) (take 8 (drop 8 b))
        @ xor8 (key64 key) (take 8 (drop 16 b))
        @ xor8 (key64 key) (take 8 (drop 24 b))
        @ xor8 (key64 key) (take 8 (drop 32 b))
        @ xor8 (key64 key) (take 8 (drop 40 b))
        @ xor8 (key64 key) (take 8 (drop 48 b))
        @ xor8 (key64 key) (take 8 (drop 56 b))
        @ maskXOR key (drop 64 b)
      else mask_by8 key b)"
  by pat_completeness auto
termination
  by (relation "measure (\<lambda>(key, b). length b)") auto

declare mask_by8.simps [simp del] maskXOR.simps [simp del]

text \<open>What masking is meant to do: every byte is combined with the key byte of its position.\<close>

lemma length_mask_tail [simp]: "length (mask_tail key b) = length b"
  by (simp add: mask_tail_def)

lemma mask_tail_append:
  assumes "4 dvd length u"
  shows "mask_tail key (u @ v) = mask_tail key u @ mask_tail key v"
proof (rule nth_equalityI)
  fix i
  assume i: "i < length (mask_tail key (u @ v))"
  show "mask_tail key (u @ v) ! i = (mask_tail key u @ mask_tail key v) ! i"
  proof (cases "i < length u")
    case True
    then show ?thesis by (simp add: mask_tail_def nth_append)
  next
    case False
    then have "(i - length u) mod 4 = i mod 4"
      using assms by (metis dvd_imp_mod_0 le_add_diff_inverse2 mod_add_right_eq not_less
        Nat.add_0_right add.right_neutral)
    moreover have "i - length u < length v"
      using False i by simp
    ultimately show ?thesis
      using False i by (simp add: mask_tail_def nth_append)
  qed
qed simp

text \<open>One eight-byte step does what eight byte steps do.\<close>

lemma xor8_eq:
  assumes "length b = 8"
  shows "xor8 (key64 key) b = mask_tail key b"
proof -
  have b0: "(ucast ((le64_of b XOR key64 key)) :: 8 word) = b ! 0 XOR key ! 0"
    by (rule bit_word_eqI) (simp add: le64_of_def key64_def le32_of_def bit_simps)
  have b1: "(ucast (drop_bit 8 (le64_of b XOR key64 key)) :: 8 word) = b ! 1 XOR key ! 1"
    by (rule bit_word_eqI) (simp add: le64_of_def key64_def le32_of_def bit_simps)
  have b2: "(ucast (drop_bit 16 (le64_of b XOR key64 key)) :: 8 word) = b ! 2 XOR key ! 2"
    by (rule bit_word_eqI) (simp add: le64_of_def key64_def le32_of_def bit_simps)
  have b3: "(ucast (drop_bit 24 (le64_of b XOR key64 key)) :: 8 word) = b ! 3 XOR key ! 3"
    by (rule bit_word_eqI) (simp add: le64_of_def key64_def le32_of_def bit_simps)
  have b4: "(ucast (drop_bit 32 (le64_of b XOR key64 key)) :: 8 word) = b ! 4 XOR key ! 0"
    by (rule bit_word_eqI) (simp add: le64_of_def key64_def le32_of_def bit_simps)
  have b5: "(ucast (drop_bit 40 (le64_of b XOR key64 key)) :: 8 word) = b ! 5 XOR key ! 1"
    by (rule bit_word_eqI) (simp add: le64_of_def key64_def le32_of_def bit_simps)
  have b6: "(ucast (drop_bit 48 (le64_of b XOR key64 key)) :: 8 word) = b ! 6 XOR key ! 2"
    by (rule bit_word_eqI) (simp add: le64_of_def key64_def le32_of_def bit_simps)
  have b7: "(ucast (drop_bit 56 (le64_of b XOR key64 key)) :: 8 word) = b ! 7 XOR key ! 3"
    by (rule bit_word_eqI) (simp add: le64_of_def key64_def le32_of_def bit_simps)
  have "xor8 (key64 key) b = [b ! 0 XOR key ! 0, b ! 1 XOR key ! 1, b ! 2 XOR key ! 2,
      b ! 3 XOR key ! 3, b ! 4 XOR key ! 0, b ! 5 XOR key ! 1, b ! 6 XOR key ! 2,
      b ! 7 XOR key ! 3]"
    by (simp only: xor8_def le64_bytes_def b0 b1 b2 b3 b4 b5 b6 b7)
  also have "\<dots> = map (\<lambda>i. b ! i XOR key ! (i mod 4)) [0, 1, 2, 3, 4, 5, 6, 7]"
    by simp
  also have "[0, 1, 2, 3, 4, 5, 6, 7] = [0..<length b]"
    unfolding assms by code_simp
  finally have "xor8 (key64 key) b = map (\<lambda>i. b ! i XOR key ! (i mod 4)) [0..<length b]" .
  then show ?thesis
    by (simp only: mask_tail_def)
qed

lemma mask_tail_split:
  "4 dvd k \<Longrightarrow> k \<le> length b \<Longrightarrow> mask_tail key b = mask_tail key (take k b) @ mask_tail key (drop k b)"
  using mask_tail_append [of "take k b" key "drop k b"] by simp

lemma xor8_step:
  assumes "8 \<le> length b"
  shows "mask_tail key b = xor8 (key64 key) (take 8 b) @ mask_tail key (drop 8 b)"
  using mask_tail_split [of 8 b key] xor8_eq [of "take 8 b" key] assms by simp

lemma mask_by8_eq: "mask_by8 key b = mask_tail key b"
proof (induction key b rule: mask_by8.induct)
  case (1 key b)
  then show ?case
    by (cases "8 \<le> length b") (simp_all add: mask_by8.simps [of key b] xor8_step [of b key])
qed

lemma maskXOR_eq: "maskXOR key b = mask_tail key b"
proof (induction key b rule: maskXOR.induct)
  case (1 key b)
  show ?case
  proof (cases "64 \<le> length b")
    case True
    have "mask_tail key (drop k b) = xor8 (key64 key) (take 8 (drop k b)) @ mask_tail key (drop (k + 8) b)"
      if "k \<le> 56" for k
      using xor8_step [of "drop k b" key] True that by (simp add: add.commute)
    note step = this [of 0] this [of 8] this [of 16] this [of 24] this [of 32] this [of 40]
      this [of 48] this [of 56]
    have "mask_tail key b = xor8 (key64 key) (take 8 b)
        @ xor8 (key64 key) (take 8 (drop 8 b)) @ xor8 (key64 key) (take 8 (drop 16 b))
        @ xor8 (key64 key) (take 8 (drop 24 b)) @ xor8 (key64 key) (take 8 (drop 32 b))
        @ xor8 (key64 key) (take 8 (drop 40 b)) @ xor8 (key64 key) (take 8 (drop 48 b))
        @ xor8 (key64 key) (take 8 (drop 56 b)) @ mask_tail key (drop 64 b)"
      using step by simp
    with 1 True show ?thesis
      by (simp add: maskXOR.simps [of key b])
  next
    case False
    then show ?thesis
      by (simp add: maskXOR.simps [of key b] mask_by8_eq)
  qed
qed

lemma maskXOR_twice: "maskXOR key (maskXOR key b) = b"
  by (rule nth_equalityI) (simp_all add: maskXOR_eq mask_tail_def xor.assoc)

text \<open>
  C26: The unrolled masking loops (64 bytes, then 8, then 1 at a time, on machine words)
  compute byte-wise masking: byte \<open>i\<close> of the payload is combined with key byte \<open>i mod 4\<close>,
  for payloads of every length.
\<close>

theorem maskXOR_bytewise:
  "maskXOR key b = map (\<lambda>i. b ! i XOR key ! (i mod 4)) [0..<length b]"
  by (simp add: maskXOR_eq mask_tail_def)

text \<open>
  Masking twice with the same key gives the payload back, so what the client masked is
  what the handler sees.
\<close>

theorem maskXOR_involution: "maskXOR key (maskXOR key b) = b"
  by (rule maskXOR_twice)

lemma length_maskXOR [simp]: "length (maskXOR key b) = length b"
  by (simp add: maskXOR_eq)

lemma maskXOR_Nil [simp]: "maskXOR key [] = []"
  by (simp add: maskXOR_eq mask_tail_def)

section \<open>The frames the server builds\<close>

text \<open>
  \<open>sendRawFrame\<close>: the WebSocket header for a whole packet. A Go \<open>int\<close> shifted right by 8
  is a division by 256, and \<open>byte\<close> keeps the low eight bits.
\<close>

definition rawFrame :: "bytes \<Rightarrow> bytes" where
  "rawFrame packet =
     (if length packet \<le> 125 then [0x82, of_nat (length packet)] @ packet
      else if length packet \<le> 65535 then
        [0x82, 126, of_nat (length packet div 256), of_nat (length packet)] @ packet
      else [0x82, 127] @ be64_bytes (of_nat (length packet)) @ packet)"

text \<open>
  \<open>readFromConnection\<close> and \<open>readPty\<close> build the header in front of the data, in the buffer
  the data was read into: \<open>n\<close> bytes start at offset \<open>maxHeaderLen\<close>, the Wisp header is put
  into the five bytes before them and the WebSocket header before that. The result is the
  slice that is sent.
\<close>

definition maxHeaderLen :: nat where "maxHeaderLen = 15"

definition frameStart :: "nat \<Rightarrow> nat" where
  "frameStart n =
     (if 5 + n \<le> 125 then maxHeaderLen - 7
      else if 5 + n \<le> 65535 then maxHeaderLen - 9
      else 0)"

definition put_ws_header :: "nat \<Rightarrow> bytes \<Rightarrow> bytes" where
  "put_ws_header n buf =
     (if 5 + n \<le> 125 then
        buf[frameStart n := 0x82, frameStart n + 1 := of_nat (5 + n)]
      else if 5 + n \<le> 65535 then
        buf[frameStart n := 0x82, frameStart n + 1 := 126,
            frameStart n + 2 := of_nat ((5 + n) div 256), frameStart n + 3 := of_nat (5 + n)]
      else
        buf[0 := 0x82, 1 := 127,
            2 := of_nat ((5 + n) div 2 ^ 56), 3 := of_nat ((5 + n) div 2 ^ 48),
            4 := of_nat ((5 + n) div 2 ^ 40), 5 := of_nat ((5 + n) div 2 ^ 32),
            6 := of_nat ((5 + n) div 2 ^ 24), 7 := of_nat ((5 + n) div 2 ^ 16),
            8 := of_nat ((5 + n) div 2 ^ 8), 9 := of_nat (5 + n)])"

definition put_wisp_header :: "u32 \<Rightarrow> bytes \<Rightarrow> bytes" where
  "put_wisp_header streamId buf =
     buf[maxHeaderLen - 5 := packetTypeData,
         maxHeaderLen - 4 := ucast streamId,
         maxHeaderLen - 3 := ucast (drop_bit 8 streamId),
         maxHeaderLen - 2 := ucast (drop_bit 16 streamId),
         maxHeaderLen - 1 := ucast (drop_bit 24 streamId)]"

definition dataFrame :: "u32 \<Rightarrow> nat \<Rightarrow> bytes \<Rightarrow> bytes" where
  "dataFrame streamId n buf =
     drop (frameStart n)
       (take (maxHeaderLen + n) (put_wisp_header streamId (put_ws_header n buf)))"

text \<open>The control packets and frames: \<open>sendPacket\<close>, \<open>sendClosePacket\<close>, \<open>writeRawPong\<close>, \<open>sendWSClose\<close>.\<close>

definition continueFrame :: "u32 \<Rightarrow> u32 \<Rightarrow> bytes" where
  "continueFrame streamId bufferRemaining =
     [0x82, 9, packetTypeContinue, ucast streamId, ucast (drop_bit 8 streamId),
      ucast (drop_bit 16 streamId), ucast (drop_bit 24 streamId)] @ le32_bytes bufferRemaining"

definition closeFrame :: "u32 \<Rightarrow> u8 \<Rightarrow> bytes" where
  "closeFrame streamId reason =
     [0x82, 6, packetTypeClose, ucast streamId, ucast (drop_bit 8 streamId),
      ucast (drop_bit 16 streamId), ucast (drop_bit 24 streamId), reason]"

definition pongFrame :: "bytes \<Rightarrow> bytes" where
  "pongFrame payload = [0x8A, of_nat (length payload)] @ payload"

definition wsCloseFrame :: "u16 \<Rightarrow> bytes" where
  "wsCloseFrame c = [0x88, 2] @ be16_bytes c"

text \<open>The Wisp packet inside a frame: type, stream id, payload.\<close>

definition wispPacket :: "u8 \<Rightarrow> u32 \<Rightarrow> bytes \<Rightarrow> bytes" where
  "wispPacket packetType streamId payload = packetType # le32_bytes streamId @ payload"

section \<open>The frame format\<close>

text \<open>
  The frame format of RFC 6455 as a client or server on the other side writes and reads
  it: first byte, mask bit and length, the key if the frame is masked, the payload as it
  is on the wire. It is the reference both directions are compared with.
\<close>

definition ws_header :: "byte \<Rightarrow> bool \<Rightarrow> nat \<Rightarrow> bytes" where
  "ws_header b0 masked n =
     (if n \<le> 125 then [b0, (if masked then 0x80 else 0) OR of_nat n]
      else if n \<le> 65535 then [b0, (if masked then 0x80 else 0) OR 126] @ be16_bytes (of_nat n)
      else [b0, (if masked then 0x80 else 0) OR 127] @ be64_bytes (of_nat n))"

definition ws_frame :: "byte \<Rightarrow> bytes option \<Rightarrow> bytes \<Rightarrow> bytes" where
  "ws_frame b0 key body =
     ws_header b0 (key \<noteq> None) (length body) @ (case key of None \<Rightarrow> [] | Some k \<Rightarrow> k) @ body"

text \<open>What a client reads: an unmasked frame and the bytes behind it.\<close>

definition ws_length :: "bytes \<Rightarrow> (nat \<times> bytes) option" where
  "ws_length b =
     (if length b < 2 then None
      else if b ! 1 AND 0x7F = 126 then
        (if length b < 4 then None else Some (unat (be16_of (drop 2 b)), drop 4 b))
      else if b ! 1 AND 0x7F = 127 then
        (if length b < 10 then None else Some (unat (be64_of (drop 2 b)), drop 10 b))
      else Some (unat (b ! 1 AND 0x7F), drop 2 b))"

definition client_read :: "bytes \<Rightarrow> (byte \<times> bytes \<times> bytes) option" where
  "client_read b =
     (case ws_length b of
        None \<Rightarrow> None
      | Some (n, rest) \<Rightarrow>
          if b ! 1 AND 0x80 \<noteq> 0 \<or> length rest < n then None
          else Some (b ! 0, take n rest, drop n rest))"

subsection \<open>Length codes\<close>

lemma unat_of_nat_byte: "n < 256 \<Longrightarrow> unat (of_nat n :: byte) = n"
  by (simp add: unat_of_nat)

lemma low7_byte: "unat (w :: byte) < 128 \<Longrightarrow> w AND 0x7F = w"
proof -
  assume "unat w < 128"
  then have "w < 2 ^ 7"
    by (simp add: word_less_nat_alt)
  from less_mask_eq [OF this] show ?thesis
    by (simp add: mask_eq_exp_minus_1)
qed

lemma high_bit_byte: "unat (w :: byte) < 128 \<Longrightarrow> w AND 0x80 = 0"
proof -
  assume "unat w < 128"
  then have "w AND 0x80 = (w AND 0x7F) AND 0x80"
    by (simp add: low7_byte)
  also have "\<dots> = w AND (0x7F AND 0x80)"
    by (simp only: and.assoc)
  also have "(0x7F AND 0x80 :: byte) = 0"
    by simp
  finally show ?thesis by simp
qed

lemma length_code_byte [frame_simps]:
  assumes "n < 128"
  shows "((if masked then 0x80 else 0) OR of_nat n :: byte) AND 0x7F = of_nat n"
    and "((if masked then 0x80 else 0) OR of_nat n :: byte) AND 0x80 = (if masked then 0x80 else 0)"
proof -
  have n: "unat (of_nat n :: byte) < 128"
    using assms by (simp add: unat_of_nat_byte)
  show "((if masked then 0x80 else 0) OR of_nat n :: byte) AND 0x7F = of_nat n"
    by (simp add: bit.conj_disj_distrib2 low7_byte [OF n])
  show "((if masked then 0x80 else 0) OR of_nat n :: byte) AND 0x80 = (if masked then 0x80 else 0)"
    by (simp add: bit.conj_disj_distrib2 high_bit_byte [OF n])
qed

lemma of_nat_byte_code: "n \<le> 125 \<Longrightarrow> (of_nat n :: byte) \<noteq> 126 \<and> (of_nat n :: byte) \<noteq> 127"
  by (auto simp: word_unat_eq_iff unat_of_nat_byte)

text \<open>Reading a header gives back the length and whether the frame is masked.\<close>

lemma ws_header_length:
  assumes "n < 2 ^ 64"
  shows "ws_length (ws_header b0 m n @ rest) = Some (n, rest)"
    and "(ws_header b0 m n @ rest) ! 0 = b0"
    and "(ws_header b0 m n @ rest) ! 1 AND 0x80 = (if m then 0x80 else 0)"
proof -
  consider "n \<le> 125" | "125 < n" "n \<le> 65535" | "65535 < n" by linarith
  then have "ws_length (ws_header b0 m n @ rest) = Some (n, rest)
    \<and> (ws_header b0 m n @ rest) ! 0 = b0
    \<and> (ws_header b0 m n @ rest) ! 1 AND 0x80 = (if m then 0x80 else 0)"
  proof cases
    case 1
    then show ?thesis
      using length_code_byte [of n m] of_nat_byte_code [of n]
      by (simp add: ws_length_def ws_header_def unat_of_nat_byte)
  next
    case 2
    then show ?thesis
      using length_code_byte [of 126 m]
      by (simp add: ws_length_def ws_header_def codec_simps unat_of_nat be16.drop_enc)
  next
    case 3
    then show ?thesis
      using length_code_byte [of 127 m] assms
      by (simp add: ws_length_def ws_header_def codec_simps unat_of_nat be64.drop_enc)
  qed
  then show "ws_length (ws_header b0 m n @ rest) = Some (n, rest)"
    and "(ws_header b0 m n @ rest) ! 0 = b0"
    and "(ws_header b0 m n @ rest) ! 1 AND 0x80 = (if m then 0x80 else 0)"
    by blast+
qed

lemma client_read_frame:
  assumes "length body < 2 ^ 64"
  shows "client_read (ws_frame b0 None body @ rest) = Some (b0, body, rest)"
  using ws_header_length [OF assms, of b0 False "body @ rest"]
  by (simp add: client_read_def ws_frame_def)

subsection \<open>Every frame the server sends\<close>

lemma byte_of_nat:
  assumes "k + 8 \<le> LENGTH('a)"
  shows "(ucast (drop_bit k (of_nat n :: 'a::len word)) :: byte) = of_nat (n div 2 ^ k)"
proof (rule bit_word_eqI)
  fix i
  assume "i < LENGTH(8)"
  then show "bit (ucast (drop_bit k (of_nat n :: 'a word)) :: byte) i = bit (of_nat (n div 2 ^ k) :: byte) i"
    using assms by (simp add: bit_simps flip: drop_bit_eq_div)
qed

lemma be16_bytes_of_nat: "be16_bytes (of_nat n) = [of_nat (n div 256), of_nat n]"
  using byte_of_nat [where 'a = 16, of 8 n] byte_of_nat [where 'a = 16, of 0 n]
  by (simp add: be16_bytes_def)

lemma be64_bytes_of_nat:
  "be64_bytes (of_nat n) =
     [of_nat (n div 2 ^ 56), of_nat (n div 2 ^ 48), of_nat (n div 2 ^ 40), of_nat (n div 2 ^ 32),
      of_nat (n div 2 ^ 24), of_nat (n div 2 ^ 16), of_nat (n div 2 ^ 8), of_nat n]"
  using byte_of_nat [where 'a = 64, of 56 n] byte_of_nat [where 'a = 64, of 48 n]
    byte_of_nat [where 'a = 64, of 40 n] byte_of_nat [where 'a = 64, of 32 n]
    byte_of_nat [where 'a = 64, of 24 n] byte_of_nat [where 'a = 64, of 16 n]
    byte_of_nat [where 'a = 64, of 8 n] byte_of_nat [where 'a = 64, of 0 n]
  by (simp add: be64_bytes_def)

lemma rawFrame_eq: "rawFrame packet = ws_frame 0x82 None packet"
  by (simp add: rawFrame_def ws_frame_def ws_header_def be16_bytes_of_nat)

lemma length_wispPacket [simp]: "length (wispPacket ty sid payload) = 5 + length payload"
  by (simp add: wispPacket_def le32.length_enc)

lemma wispPacket_parts:
  "wispPacket ty sid payload ! 0 = ty"
  "le32_of (take 4 (drop (Suc 0) (wispPacket ty sid payload))) = sid"
  "drop 5 (wispPacket ty sid payload) = payload"
  by (simp_all add: wispPacket_def le32.take_enc le32.drop_enc codec_simps le32.length_enc)

lemma fifteen_bytes:
  assumes "15 \<le> length b"
  obtains b0 b1 b2 b3 b4 b5 b6 b7 b8 b9 b10 b11 b12 b13 b14 r
  where "b = [b0, b1, b2, b3, b4, b5, b6, b7, b8, b9, b10, b11, b12, b13, b14] @ r"
proof -
  have "take 15 b = map ((!) b) [0..<15]"
    using assms by (intro nth_equalityI) simp_all
  also have "[0..<15] = [0, 1, 2, 3, 4, 5, 6, 7, 8, 9, 10, 11, 12, 13, 14]"
    by (simp add: upt_rec)
  finally have "b = map ((!) b) [0, 1, 2, 3, 4, 5, 6, 7, 8, 9, 10, 11, 12, 13, 14] @ drop 15 b"
    by (metis append_take_drop_id)
  then show thesis
    by (simp only: list.map) (rule that)
qed

lemma dataFrame_rawFrame:
  assumes "15 + n \<le> length buf"
  shows "dataFrame streamId n buf
     = rawFrame (wispPacket packetTypeData streamId (take n (drop 15 buf)))"
proof -
  from assms have "15 \<le> length buf" by simp
  then obtain b0 b1 b2 b3 b4 b5 b6 b7 b8 b9 b10 b11 b12 b13 b14 r where
    buf: "buf = [b0, b1, b2, b3, b4, b5, b6, b7, b8, b9, b10, b11, b12, b13, b14] @ r"
    by (rule fifteen_bytes)
  have r: "n \<le> length r"
    using assms by (simp add: buf)
  have five: "Suc (Suc (Suc (Suc (Suc n)))) = 5 + n"
    by simp
  consider "n \<le> 120" | "120 < n" "n \<le> 65530" | "65530 < n" by linarith
  then show ?thesis
  proof cases
    case 1
    with r show ?thesis
      by (simp add: buf dataFrame_def put_ws_header_def put_wisp_header_def frameStart_def
          maxHeaderLen_def rawFrame_def wispPacket_def le32_bytes_def take_Cons' drop_Cons')
  next
    case 2
    with r show ?thesis
      by (simp add: buf dataFrame_def put_ws_header_def put_wisp_header_def frameStart_def
          maxHeaderLen_def rawFrame_def wispPacket_def le32_bytes_def take_Cons' drop_Cons')
  next
    case 3
    with r show ?thesis
      by (simp add: buf dataFrame_def put_ws_header_def put_wisp_header_def frameStart_def
          maxHeaderLen_def rawFrame_def wispPacket_def le32_bytes_def take_Cons' drop_Cons' be64_bytes_of_nat
          flip: of_nat_Suc of_nat_add) (simp only: five)
  qed
qed

text \<open>
  A data packet is framed in place: whatever the header space of the read buffer
  contained, a client reads from the sent slice one unmasked binary frame whose payload is
  the DATA packet of the stream with exactly the bytes read from the target, and the bytes
  behind the slice stay untouched. The three header sizes are all covered.
\<close>

theorem dataFrame_client_read:
  assumes "15 + n \<le> length buf" and "n < 2 ^ 63"
  shows "client_read (dataFrame streamId n buf @ rest)
     = Some (0x82, wispPacket packetTypeData streamId (take n (drop 15 buf)), rest)"
proof -
  have "length (wispPacket packetTypeData streamId (take n (drop 15 buf))) < 2 ^ 64"
    using assms(2) by simp
  from client_read_frame [OF this] show ?thesis
    by (simp add: dataFrame_rawFrame [OF assms(1)] rawFrame_eq)
qed

theorem dataFrame_client_read_witness:
  "client_read (dataFrame 7 2 (replicate 15 0xAA @ [104, 105, 0xBB]))
     = Some (0x82, wispPacket packetTypeData 7 [104, 105], [])"
  using dataFrame_client_read [of 2 "replicate 15 0xAA @ [104, 105, 0xBB]" 7 "[]"]
  by simp

lemma rawFrame_client_read:
  "length packet < 2 ^ 64 \<Longrightarrow> client_read (rawFrame packet @ rest) = Some (0x82, packet, rest)"
  by (simp add: rawFrame_eq client_read_frame)

lemma controlFrame_ws_frame:
  "continueFrame sid rem = ws_frame 0x82 None (wispPacket packetTypeContinue sid (le32_bytes rem))"
  "closeFrame sid reason = ws_frame 0x82 None (wispPacket packetTypeClose sid [reason])"
  "wsCloseFrame c = ws_frame 0x88 None (be16_bytes c)"
  "length payload \<le> 125 \<Longrightarrow> pongFrame payload = ws_frame 0x8A None payload"
  by (simp_all add: continueFrame_def closeFrame_def wsCloseFrame_def pongFrame_def ws_frame_def
      ws_header_def wispPacket_def le32_bytes_def be16_bytes_def)

text \<open>
  The control frames, written byte by byte with fixed lengths, are well formed: a
  client reads from a CONTINUE, CLOSE, WebSocket close or pong frame the packet with its
  stream id, its credit, reason, code or payload, and nothing of what follows.
\<close>

theorem controlFrames_client_read:
  "client_read (continueFrame sid rem @ rest)
     = Some (0x82, wispPacket packetTypeContinue sid (le32_bytes rem), rest)
   \<and> client_read (closeFrame sid reason @ rest)
     = Some (0x82, wispPacket packetTypeClose sid [reason], rest)
   \<and> client_read (wsCloseFrame c @ rest) = Some (0x88, be16_bytes c, rest)
   \<and> (length payload \<le> 125 \<longrightarrow> client_read (pongFrame payload @ rest) = Some (0x8A, payload, rest))"
  by (simp add: controlFrame_ws_frame client_read_frame codec_simps)

theorem controlFrames_client_read_witness:
  "client_read (pongFrame [1, 2, 3] @ [9]) = Some (0x8A, [1, 2, 3], [9])"
  using controlFrames_client_read [of 0 0 "[9]" 0 0 "[1, 2, 3]"] by simp

end
