(* ===== verification/Conn_Wire.thy ===== *)
theory Conn_Wire
  imports Ws_Frames
begin

text \<open>
  The sending side of a WebSocket connection (\<open>wisp/wisp-connection.go\<close>): the batch writer
  \<open>submitWrite\<close> / \<open>runWriter\<close>, \<open>close\<close> and the packets written through them. A goroutine's
  call is one atomic operation here; the interleavings of several goroutines are the subject
  of the theory on batch writers.
\<close>

section \<open>Connections as sinks of bytes\<close>

text \<open>
  The writing half of a \<open>net.Conn\<close>: what has been accepted, the outcomes of the writes to
  come (an error may come after some bytes went out; when the list is used up writes
  succeed), whether it has been closed. A write on a closed connection fails.
\<close>

datatype write_outcome = WriteOk | WriteErr nat

record go_conn =
  nc_sent :: bytes
  nc_outcomes :: "write_outcome list"
  nc_closed :: bool

definition nc_fresh :: "write_outcome list \<Rightarrow> go_conn" where
  "nc_fresh os = \<lparr>nc_sent = [], nc_outcomes = os, nc_closed = False\<rparr>"

definition nc_Write :: "bytes \<Rightarrow> go_conn \<Rightarrow> bool \<times> go_conn" where
  "nc_Write d c =
     (if nc_closed c then (False, c)
      else case nc_outcomes c of
          [] \<Rightarrow> (True, c\<lparr>nc_sent := nc_sent c @ d\<rparr>)
        | WriteOk # os \<Rightarrow> (True, c\<lparr>nc_sent := nc_sent c @ d, nc_outcomes := os\<rparr>)
        | WriteErr k # os \<Rightarrow> (False, c\<lparr>nc_sent := nc_sent c @ take k d, nc_outcomes := os\<rparr>))"

definition nc_Close :: "go_conn \<Rightarrow> go_conn" where
  "nc_Close c = c\<lparr>nc_closed := True\<rparr>"

lemma nc_Write_ok:
  "nc_Write d c = (True, c') \<Longrightarrow> nc_sent c' = nc_sent c @ d \<and> nc_closed c' = nc_closed c \<and> \<not> nc_closed c"
  by (auto simp: nc_Write_def split: if_splits list.splits write_outcome.splits)

lemma nc_Write_prefix: "nc_Write d c = (r, c') \<Longrightarrow> \<exists>k. nc_sent c' = nc_sent c @ take k d"
  by (auto simp: nc_Write_def split: if_splits list.splits write_outcome.splits intro: exI [of _ 0]
      exI [of _ "length d"])

lemma nc_Write_closed [simp]: "nc_closed (snd (nc_Write d c)) = nc_closed c"
  by (auto simp: nc_Write_def split: list.splits write_outcome.splits)

section \<open>The writer\<close>

text \<open>
  A request carries its bytes and, for data packets, the pooled buffer they lie in. The
  fields of \<open>wispConnection\<close> that belong to sending: the connection, the closed flag and
  channel, the queue and whether a goroutine is draining it. \<open>wr_returned\<close> records the
  buffers put back into \<open>ReadBufPool\<close>.
\<close>

record writeReq =
  wr_data :: bytes
  wr_buf :: "nat option"

record wire =
  w_netConn :: go_conn
  w_isClosed :: bool
  w_closeCh :: bool
  w_pendingWrites :: "writeReq list"
  w_writeActive :: bool
  w_returned :: "nat list"

definition req_bufs :: "writeReq list \<Rightarrow> nat list" where
  "req_bufs rs = concat (map (\<lambda>r. case wr_buf r of None \<Rightarrow> [] | Some b \<Rightarrow> [b]) rs)"

lemma req_bufs_simps [simp]:
  "req_bufs [] = []"
  "req_bufs (r # rs) = (case wr_buf r of None \<Rightarrow> [] | Some b \<Rightarrow> [b]) @ req_bufs rs"
  "req_bufs (rs @ rs') = req_bufs rs @ req_bufs rs'"
  by (simp_all add: req_bufs_def)

definition wire_close :: "wire \<Rightarrow> wire" where
  "wire_close w =
     (if w_isClosed w then w
      else if \<not> w_writeActive w then
        w\<lparr>w_isClosed := True, w_netConn := nc_Close (w_netConn w), w_closeCh := True,
          w_pendingWrites := [], w_returned := w_returned w @ req_bufs (w_pendingWrites w)\<rparr>
      else
        w\<lparr>w_isClosed := True, w_netConn := nc_Close (w_netConn w), w_closeCh := True\<rparr>)"

text \<open>
  One round of \<open>runWriter\<close>: take the whole queue, write it, give the buffers back. The
  result tells whether the write succeeded.
\<close>

definition write_batch :: "wire \<Rightarrow> bool \<times> wire" where
  "write_batch w =
     (case nc_Write (concat (map wr_data (w_pendingWrites w))) (w_netConn w) of (ok, nc) \<Rightarrow>
        (ok, w\<lparr>w_netConn := nc, w_pendingWrites := [],
               w_returned := w_returned w @ req_bufs (w_pendingWrites w)\<rparr>))"

function runWriter :: "wire \<Rightarrow> wire" where
  "runWriter w =
     (if w_pendingWrites w = [] then w\<lparr>w_writeActive := False\<rparr>
      else if fst (write_batch w) then runWriter (snd (write_batch w))
      else wire_close ((snd (write_batch w))\<lparr>w_writeActive := False\<rparr>))"
  by pat_completeness auto
termination
  by (relation "measure (\<lambda>w. length (w_pendingWrites w))")
    (auto simp: write_batch_def split: prod.splits)

declare runWriter.simps [simp del]

definition submitWrite :: "writeReq \<Rightarrow> wire \<Rightarrow> wire" where
  "submitWrite req w =
     (if w_isClosed w then w\<lparr>w_returned := w_returned w @ req_bufs [req]\<rparr>
      else if w_writeActive w then w\<lparr>w_pendingWrites := w_pendingWrites w @ [req]\<rparr>
      else runWriter (w\<lparr>w_pendingWrites := w_pendingWrites w @ [req], w_writeActive := True\<rparr>))"

definition queueWrite :: "bytes \<Rightarrow> wire \<Rightarrow> wire" where
  "queueWrite data w = submitWrite \<lparr>wr_data = data, wr_buf = None\<rparr> w"

definition queueWritePooled :: "bytes \<Rightarrow> nat \<Rightarrow> wire \<Rightarrow> wire" where
  "queueWritePooled data buf w = submitWrite \<lparr>wr_data = data, wr_buf = Some buf\<rparr> w"

text \<open>A goroutine gives the buffer it reads into back to \<open>ReadBufPool\<close>.\<close>

definition put_read_buf :: "nat \<Rightarrow> wire \<Rightarrow> wire" where
  "put_read_buf b w = w\<lparr>w_returned := w_returned w @ [b]\<rparr>"

section \<open>The packets\<close>

definition sendPacket :: "u32 \<Rightarrow> u32 \<Rightarrow> wire \<Rightarrow> wire" where
  "sendPacket streamId bufferRemaining w =
     (if w_isClosed w then w else queueWrite (continueFrame streamId bufferRemaining) w)"

definition sendClosePacket :: "u32 \<Rightarrow> u8 \<Rightarrow> wire \<Rightarrow> wire" where
  "sendClosePacket streamId reason w =
     (if w_isClosed w then w else queueWrite (closeFrame streamId reason) w)"

definition writeRawPong :: "bytes \<Rightarrow> wire \<Rightarrow> wire" where
  "writeRawPong payload w = (if w_isClosed w then w else queueWrite (pongFrame payload) w)"

definition sendWSClose :: "u16 \<Rightarrow> wire \<Rightarrow> wire" where
  "sendWSClose c w = queueWrite (wsCloseFrame c) w"

definition sendRawFrame :: "bytes \<Rightarrow> wire \<Rightarrow> wire" where
  "sendRawFrame packet w = queueWrite (rawFrame packet) w"

section \<open>What a call does\<close>

text \<open>
  Between two calls the queue is empty unless another goroutine is draining it. A write
  either appends exactly its bytes to the connection or fails, and then the connection is
  closed; in both cases its buffer is given back once.
\<close>

definition wire_ok :: "wire \<Rightarrow> bool" where
  "wire_ok w =
     ((\<not> w_writeActive w \<longrightarrow> w_pendingWrites w = [])
      \<and> (w_isClosed w \<longleftrightarrow> nc_closed (w_netConn w)) \<and> (w_isClosed w \<longleftrightarrow> w_closeCh w))"

lemma runWriter_one:
  assumes "w_pendingWrites w = rs" and "rs \<noteq> []" and "w_writeActive w"
  shows "runWriter w =
     (case nc_Write (concat (map wr_data rs)) (w_netConn w) of (ok, nc) \<Rightarrow>
        let w' = w\<lparr>w_netConn := nc, w_pendingWrites := [],
                  w_returned := w_returned w @ req_bufs rs, w_writeActive := False\<rparr>
        in if ok then w' else wire_close w')"
proof -
  obtain ok nc where wr: "nc_Write (concat (map wr_data rs)) (w_netConn w) = (ok, nc)" by fastforce
  let ?w = "w\<lparr>w_netConn := nc, w_pendingWrites := [], w_returned := w_returned w @ req_bufs rs\<rparr>"
  have batch: "write_batch w = (ok, ?w)"
    using wr assms(1) by (simp add: write_batch_def)
  have last: "runWriter ?w = ?w\<lparr>w_writeActive := False\<rparr>"
    by (simp add: runWriter.simps [of ?w])
  show ?thesis
    using assms wr by (simp add: runWriter.simps [of w] batch last Let_def)
qed

lemma submitWrite_idle:
  assumes "wire_ok w" and "\<not> w_writeActive w" and "\<not> w_isClosed w"
  shows "submitWrite req w =
     (case nc_Write (wr_data req) (w_netConn w) of (ok, nc) \<Rightarrow>
        let w' = w\<lparr>w_netConn := nc, w_returned := w_returned w @ req_bufs [req]\<rparr>
        in if ok then w' else wire_close w')"
proof -
  let ?w = "w\<lparr>w_pendingWrites := [req], w_writeActive := True\<rparr>"
  have "w_pendingWrites w = []"
    using assms by (simp add: wire_ok_def)
  then have "?w\<lparr>w_netConn := nc, w_pendingWrites := [], w_returned := r, w_writeActive := False\<rparr>
      = w\<lparr>w_netConn := nc, w_returned := r\<rparr>" for nc r
    using assms by (cases w) simp
  moreover have "submitWrite req w = runWriter ?w"
    using assms \<open>w_pendingWrites w = []\<close> by (simp add: submitWrite_def)
  ultimately show ?thesis
    using runWriter_one [of ?w "[req]"] by (simp add: Let_def split: prod.splits)
qed

lemma wire_close_ok [inv_intros]: "wire_ok w \<Longrightarrow> wire_ok (wire_close w)"
  by (auto simp: wire_ok_def wire_close_def nc_Close_def)

lemma submitWrite_ok [inv_intros]:
  assumes "wire_ok w"
  shows "wire_ok (submitWrite req w)"
proof (cases "w_isClosed w \<or> w_writeActive w")
  case True
  with assms show ?thesis by (auto simp: submitWrite_def wire_ok_def)
next
  case False
  obtain ok nc where wr: "nc_Write (wr_data req) (w_netConn w) = (ok, nc)" by fastforce
  have "nc_closed nc = nc_closed (w_netConn w)"
    using nc_Write_closed [of "wr_data req" "w_netConn w"] by (simp add: wr)
  then have "wire_ok (w\<lparr>w_netConn := nc, w_returned := w_returned w @ req_bufs [req]\<rparr>)"
    using assms by (auto simp: wire_ok_def)
  then show ?thesis
    using submitWrite_idle [OF assms, of req] False wr
    by (auto simp: Let_def intro: wire_close_ok)
qed

lemma send_ok [inv_intros]:
  assumes "wire_ok w"
  shows "wire_ok (queueWrite d w)" "wire_ok (queueWritePooled d b w)" "wire_ok (sendPacket i n w)"
    "wire_ok (sendClosePacket i r w)" "wire_ok (writeRawPong p w)" "wire_ok (sendWSClose c w)"
    "wire_ok (sendRawFrame p w)"
  using assms by (simp_all add: queueWrite_def queueWritePooled_def sendPacket_def
      sendClosePacket_def writeRawPong_def sendWSClose_def sendRawFrame_def submitWrite_ok)

lemma wire_close_idem [simp]: "wire_close (wire_close w) = wire_close w"
  by (simp add: wire_close_def)

lemma wire_close_closed [simp]: "w_isClosed (wire_close w)"
  by (simp add: wire_close_def)


text \<open>
  A submitted write on an idle connection keeps the byte stream exact: the connection
  has received the earlier bytes followed by all of the request, or, if the write failed, a
  prefix of it, and then the connection is closed; the request's pooled buffer is given
  back exactly once, and nothing stays queued.
\<close>

theorem submitWrite_exact:
  assumes "wire_ok w" and "\<not> w_writeActive w"
  shows "(\<exists>k. nc_sent (w_netConn (submitWrite req w)) = nc_sent (w_netConn w) @ take k (wr_data req))
     \<and> (\<not> w_isClosed (submitWrite req w) \<longrightarrow>
          nc_sent (w_netConn (submitWrite req w)) = nc_sent (w_netConn w) @ wr_data req)
     \<and> w_returned (submitWrite req w) = w_returned w @ req_bufs [req]
     \<and> w_pendingWrites (submitWrite req w) = [] \<and> \<not> w_writeActive (submitWrite req w)"
proof (cases "w_isClosed w")
  case True
  with assms show ?thesis
    by (auto simp: submitWrite_def wire_ok_def intro: exI [of _ 0])
next
  case False
  obtain ok nc where wr: "nc_Write (wr_data req) (w_netConn w) = (ok, nc)" by fastforce
  have "w_pendingWrites w = []"
    using assms by (simp add: wire_ok_def)
  moreover have "ok \<Longrightarrow> nc_sent nc = nc_sent (w_netConn w) @ wr_data req"
    using nc_Write_ok [of "wr_data req" "w_netConn w" nc] wr by simp
  moreover note nc_Write_prefix [OF wr]
  ultimately show ?thesis
    using submitWrite_idle [OF assms False, of req] assms(2) False wr
    by (cases ok) (auto simp: wire_close_def nc_Close_def)
qed

theorem submitWrite_exact_witness:
  "w_returned (submitWrite \<lparr>wr_data = [1, 2], wr_buf = Some 7\<rparr>
      \<lparr>w_netConn = nc_fresh [WriteErr 1], w_isClosed = False, w_closeCh = False,
       w_pendingWrites = [], w_writeActive = False, w_returned = []\<rparr>) = [7]"
  using submitWrite_exact [of "\<lparr>w_netConn = nc_fresh [WriteErr 1], w_isClosed = False,
      w_closeCh = False, w_pendingWrites = [], w_writeActive = False, w_returned = []\<rparr>"
      "\<lparr>wr_data = [1, 2], wr_buf = Some 7\<rparr>"]
  by (simp add: wire_ok_def nc_fresh_def)

end
