(* ===== verification/Egress.thy ===== *)
theory Egress
  imports Wisp_Config
begin

text \<open>
  The egress policy (\<open>wisp/egress.go\<close>): which resolved addresses the server may connect
  to. \<open>Evaluate\<close> answers whether an address is allowed and, if not, why.
\<close>

section \<open>The policy\<close>

record EgressPolicy =
  ep_AllowLoopback :: bool
  ep_AllowPrivate :: bool
  ep_AllowIPs :: "string set option"
  ep_AllowCIDRs :: "ipnet list"
  ep_DenyIPs :: "string set option"
  ep_DenyCIDRs :: "ipnet list"

definition PolicyFromConfig :: "Config \<Rightarrow> EgressPolicy" where
  "PolicyFromConfig cfg = \<lparr>
     ep_AllowLoopback = cfg_AllowLoopbackIPs cfg,
     ep_AllowPrivate = cfg_AllowPrivateIPs cfg,
     ep_AllowIPs = None, ep_AllowCIDRs = [], ep_DenyIPs = None, ep_DenyCIDRs = []\<rparr>"

definition ip_listed :: "string set option \<Rightarrow> ip \<Rightarrow> bool" where
  "ip_listed ips p = (case ips of None \<Rightarrow> False | Some s \<Rightarrow> IP_String p \<in> s)"

definition ip_in_nets :: "ipnet list \<Rightarrow> ip \<Rightarrow> bool" where
  "ip_in_nets ns p = list_ex (\<lambda>n. IPNet_Contains n p) ns"

text \<open>\<open>if v4 := ip.To4(); v4 != nil { ip = v4 }\<close>.\<close>

definition ip_norm :: "ip \<Rightarrow> ip" where
  "ip_norm p = (if IP_To4 p \<noteq> [] then IP_To4 p else p)"

definition Evaluate :: "EgressPolicy option \<Rightarrow> ip \<Rightarrow> bool \<times> string" where
  "Evaluate pol p =
     (case pol of
        None \<Rightarrow> (True, [])
      | Some pl \<Rightarrow>
          if p = [] then (False, ''invalid'')
          else if ip_listed (ep_DenyIPs pl) (ip_norm p) then (False, ''deny_ip'')
          else if ip_in_nets (ep_DenyCIDRs pl) (ip_norm p) then (False, ''deny_cidr'')
          else if ip_listed (ep_AllowIPs pl) (ip_norm p) \<or> ip_in_nets (ep_AllowCIDRs pl) (ip_norm p)
          then (True, [])
          else if IsUnspecified (ip_norm p) then (False, ''unspecified'')
          else if IsLoopback (ip_norm p) then
            (if ep_AllowLoopback pl then (True, []) else (False, ''loopback''))
          else if IsLinkLocalUnicast (ip_norm p) \<or> IsLinkLocalMulticast (ip_norm p) then
            (if ep_AllowPrivate pl then (True, []) else (False, ''link_local''))
          else if IsPrivate (ip_norm p) then
            (if ep_AllowPrivate pl then (True, []) else (False, ''private''))
          else if IsMulticast (ip_norm p) then (False, ''multicast'')
          else (True, []))"

lemma classify_norm [simp]:
  "IsUnspecified (ip_norm p) = IsUnspecified p" "IsLoopback (ip_norm p) = IsLoopback p"
  "IsPrivate (ip_norm p) = IsPrivate p" "IsMulticast (ip_norm p) = IsMulticast p"
  "IsLinkLocalMulticast (ip_norm p) = IsLinkLocalMulticast p"
  "IsLinkLocalUnicast (ip_norm p) = IsLinkLocalUnicast p"
  by (simp_all add: ip_norm_def classify_To4)

section \<open>What the policy means\<close>

text \<open>
  An order-free reading of the policy: an address is allowed when every kind of special
  address it belongs to is allowed.
\<close>

definition internal_ip :: "ip \<Rightarrow> bool" where
  "internal_ip p = (IsPrivate p \<or> IsLinkLocalUnicast p \<or> IsLinkLocalMulticast p)"

definition egress_ok :: "Config \<Rightarrow> ip \<Rightarrow> bool" where
  "egress_ok cfg p =
     (p \<noteq> [] \<and> \<not> IsUnspecified p
      \<and> (IsLoopback p \<longrightarrow> cfg_AllowLoopbackIPs cfg)
      \<and> (internal_ip p \<longrightarrow> cfg_AllowPrivateIPs cfg)
      \<and> (IsMulticast p \<longrightarrow> IsLinkLocalMulticast p))"

lemma IPv6loopback_not_special: "\<not> internal_ip IPv6loopback" "\<not> IsMulticast IPv6loopback"
  by (simp_all add: internal_ip_def IsPrivate_def IsLinkLocalUnicast_def
    IsLinkLocalMulticast_def IsMulticast_def IP_To4_def IPv6loopback_def v4InV6Prefix_def
    replicate_numeral_unfold)

lemma IP_Equal_same_length: "IP_Equal p x \<Longrightarrow> length p = length x \<Longrightarrow> p = x"
  by (simp add: IP_Equal_def)

lemma IP_Equal_loopback: "IP_To4 p = [] \<Longrightarrow> IP_Equal p IPv6loopback \<Longrightarrow> p = IPv6loopback"
  unfolding IP_Equal_def IP_To4_def by (simp split: if_splits)

lemma loopback_not_special:
  assumes "IsLoopback p"
  shows "\<not> internal_ip p \<and> \<not> IsMulticast p"
proof (cases "IP_To4 p = []")
  case True
  with assms have "p = IPv6loopback"
    using IP_Equal_loopback [of p] by (simp add: IsLoopback_def)
  then show ?thesis
    using IPv6loopback_not_special by simp
next
  case False
  with assms have "IP_To4 p ! 0 = 127"
    by (simp add: IsLoopback_def Let_def)
  with False show ?thesis
    by (simp add: internal_ip_def IsPrivate_def IsLinkLocalUnicast_def
      IsLinkLocalMulticast_def IsMulticast_def Let_def)
qed

lemma private_not_multicast: "IsPrivate p \<Longrightarrow> \<not> IsMulticast p"
proof (cases "IP_To4 p = []")
  case True
  moreover have "\<not> (b AND 254 = 252 \<and> b = 255)" for b :: "8 word"
    by auto
  ultimately show "IsPrivate p \<Longrightarrow> \<not> IsMulticast p"
    by (simp add: IsPrivate_def IsMulticast_def)
next
  case False
  then show "IsPrivate p \<Longrightarrow> \<not> IsMulticast p"
    by (simp add: IsPrivate_def IsMulticast_def Let_def) (elim disjE conjE; simp)
qed

lemma link_local_not_multicast: "IsLinkLocalUnicast p \<Longrightarrow> \<not> IsMulticast p"
  by (cases "IP_To4 p = []")
    (simp_all add: IsLinkLocalUnicast_def IsMulticast_def Let_def)

text \<open>The classification used by the policy, on the address as the resolver returned it.\<close>

lemma Evaluate_PolicyFromConfig:
  "Evaluate (Some (PolicyFromConfig cfg)) p =
     (if p = [] then (False, ''invalid'')
      else if IsUnspecified p then (False, ''unspecified'')
      else if IsLoopback p then
        (if cfg_AllowLoopbackIPs cfg then (True, []) else (False, ''loopback''))
      else if IsLinkLocalUnicast p \<or> IsLinkLocalMulticast p then
        (if cfg_AllowPrivateIPs cfg then (True, []) else (False, ''link_local''))
      else if IsPrivate p then
        (if cfg_AllowPrivateIPs cfg then (True, []) else (False, ''private''))
      else if IsMulticast p then (False, ''multicast'')
      else (True, []))"
  by (simp add: Evaluate_def PolicyFromConfig_def ip_listed_def ip_in_nets_def)

lemma Evaluate_policy: "fst (Evaluate (Some (PolicyFromConfig cfg)) p) = egress_ok cfg p"
  unfolding Evaluate_PolicyFromConfig egress_ok_def
  using loopback_not_special [of p] private_not_multicast [of p] link_local_not_multicast [of p]
  by (cases "IsLoopback p"; cases "IsMulticast p"; cases "IsPrivate p")
    (auto simp: internal_ip_def)

text \<open>
  C28: The policy built from a configuration accepts exactly the addresses that are
  neither nil nor unspecified, nor of a kind the configuration forbids: loopback needs
  \<open>allowLoopbackIPs\<close>, private and link-local addresses need \<open>allowPrivateIPs\<close>, and
  multicast beyond the link is never allowed. The order of the checks does not matter, nor
  does it matter whether an IPv4 address is held in 4 bytes or mapped into 16.
\<close>

theorem Evaluate_egress_ok: "fst (Evaluate (Some (PolicyFromConfig cfg)) p) = egress_ok cfg p"
  by (rule Evaluate_policy)

text \<open>
  An address accepted with a reason never occurs: the reason is empty exactly when the
  address is allowed.
\<close>

lemma Evaluate_reason: "fst (Evaluate pol p) \<longleftrightarrow> snd (Evaluate pol p) = []"
  by (cases pol) (simp_all add: Evaluate_def)

text \<open>
  A deny entry wins over every other rule: an address on the deny list or in a denied
  network is refused, whatever the allow lists and flags say.
\<close>

theorem Evaluate_deny_wins:
  assumes "p \<noteq> []"
    and "ip_listed (ep_DenyIPs pl) (ip_norm p) \<or> ip_in_nets (ep_DenyCIDRs pl) (ip_norm p)"
  shows "\<not> fst (Evaluate (Some pl) p)"
  using assms by (auto simp: Evaluate_def)

definition example_policy :: EgressPolicy where
  "example_policy = \<lparr>ep_AllowLoopback = True, ep_AllowPrivate = True,
     ep_AllowIPs = Some {''10.0.0.1''}, ep_AllowCIDRs = [], ep_DenyIPs = Some {''10.0.0.1''},
     ep_DenyCIDRs = []\<rparr>"

theorem Evaluate_deny_wins_witness: "\<not> fst (Evaluate (Some example_policy) [10, 0, 0, 1])"
  by (rule Evaluate_deny_wins)
    (simp_all add: example_policy_def ip_listed_def ip_norm_def go_eval)

text \<open>A default configuration refuses the cloud metadata service, in both forms.\<close>

lemma Evaluate_metadata:
  "fst (Evaluate (Some (PolicyFromConfig DefaultConfig)) [169, 254, 169, 254]) = False"
  "fst (Evaluate (Some (PolicyFromConfig DefaultConfig)) (ParseIP ''::ffff:169.254.169.254'')) = False"
  by (simp_all add: Evaluate_PolicyFromConfig go_eval DefaultConfig_def)

end
