(* ===== verification/Rate_Limits.thy ===== *)
theory Rate_Limits
  imports Wisp_Config
begin

text \<open>
  The limiters (\<open>wisp/limits.go\<close>): a window of calls per key and a counting semaphore.
  Every operation that reads the clock takes the time it reads as its first argument.
\<close>

section \<open>The rate window\<close>

record windowEntry =
  we_start :: time
  we_count :: int

record SlidingWindow =
  sw_limit :: int
  sw_window :: duration
  sw_entries :: "string \<rightharpoonup> windowEntry"

definition NewSlidingWindow :: "int \<Rightarrow> duration \<Rightarrow> SlidingWindow" where
  "NewSlidingWindow limit window = \<lparr>sw_limit = limit, sw_window = window, sw_entries = Map.empty\<rparr>"

definition SlidingWindow_Allow :: "time \<Rightarrow> string \<Rightarrow> SlidingWindow \<Rightarrow> bool \<times> SlidingWindow" where
  "SlidingWindow_Allow now key w =
     (if sw_limit w \<le> 0 then (True, w)
      else (case sw_entries w key of
          None \<Rightarrow>
            (True, w\<lparr>sw_entries := (sw_entries w)(key \<mapsto> \<lparr>we_start = now, we_count = 1\<rparr>)\<rparr>)
        | Some e \<Rightarrow>
            if sw_window w \<le> now - we_start e then
              (True, w\<lparr>sw_entries := (sw_entries w)(key \<mapsto> \<lparr>we_start = now, we_count = 1\<rparr>)\<rparr>)
            else
              (we_count e + 1 \<le> sw_limit w,
               w\<lparr>sw_entries := (sw_entries w)(key \<mapsto> e\<lparr>we_count := we_count e + 1\<rparr>)\<rparr>)))"

text \<open>The nil receiver allows everything.\<close>

definition Allow :: "time \<Rightarrow> string \<Rightarrow> SlidingWindow option \<Rightarrow> bool \<times> SlidingWindow option" where
  "Allow now key w =
     (case w of
        None \<Rightarrow> (True, None)
      | Some x \<Rightarrow> (fst (SlidingWindow_Allow now key x), Some (snd (SlidingWindow_Allow now key x))))"

definition SlidingWindow_Evict :: "time \<Rightarrow> duration \<Rightarrow> SlidingWindow \<Rightarrow> SlidingWindow" where
  "SlidingWindow_Evict now idle w =
     w\<lparr>sw_entries := (\<lambda>k. case sw_entries w k of
          None \<Rightarrow> None
        | Some e \<Rightarrow> if we_start e < now - idle then None else Some e)\<rparr>"

subsection \<open>The contract of a rate limiter\<close>

text \<open>
  What the callers rely on: a call on a key without a running window opens one, a call
  inside a window counts against the limit, and other keys are not touched.
\<close>

locale rate_limiter =
  fixes allow :: "time \<Rightarrow> 'k \<Rightarrow> 's \<Rightarrow> bool \<times> 's"
    and opened :: "'s \<Rightarrow> 'k \<Rightarrow> time option"
    and used :: "'s \<Rightarrow> 'k \<Rightarrow> int"
    and limit :: "'s \<Rightarrow> int"
    and window :: "'s \<Rightarrow> duration"
    and inv :: "'s \<Rightarrow> bool"
  assumes limit_pos: "inv w \<Longrightarrow> 0 < limit w"
    and used_pos: "inv w \<Longrightarrow> opened w k = Some s \<Longrightarrow> 1 \<le> used w k"
    and inv_allow: "inv w \<Longrightarrow> inv (snd (allow t k w))"
    and limit_allow: "inv w \<Longrightarrow> limit (snd (allow t k w)) = limit w"
    and window_allow: "inv w \<Longrightarrow> window (snd (allow t k w)) = window w"
    and allow_open:
      "inv w \<Longrightarrow> opened w k = None \<or> (\<exists>s. opened w k = Some s \<and> window w \<le> t - s) \<Longrightarrow>
       fst (allow t k w) \<and> opened (snd (allow t k w)) k = Some t \<and> used (snd (allow t k w)) k = 1"
    and allow_inside:
      "inv w \<Longrightarrow> opened w k = Some s \<Longrightarrow> t - s < window w \<Longrightarrow>
       fst (allow t k w) = (used w k + 1 \<le> limit w)
       \<and> opened (snd (allow t k w)) k = Some s \<and> used (snd (allow t k w)) k = used w k + 1"
    and allow_other:
      "inv w \<Longrightarrow> k' \<noteq> k \<Longrightarrow> opened (snd (allow t k w)) k' = opened w k'
       \<and> used (snd (allow t k w)) k' = used w k'"
begin

text \<open>How many calls on \<open>k\<close> a sequence of timed calls gets through.\<close>

fun accepted :: "'s \<Rightarrow> (time \<times> 'k) list \<Rightarrow> 'k \<Rightarrow> nat" where
  "accepted w [] k = 0"
| "accepted w ((t, j) # cs) k =
     (if j = k \<and> fst (allow t j w) then 1 else 0) + accepted (snd (allow t j w)) cs k"

lemma accepted_running:
  "inv w \<Longrightarrow> opened w k = Some s \<Longrightarrow> \<forall>(t, j) \<in> set cs. j = k \<longrightarrow> t - s < window w \<Longrightarrow>
   accepted w cs k \<le> nat (limit w - used w k)"
proof (induction cs arbitrary: w)
  case (Cons c cs)
  obtain t j where c: "c = (t, j)" by (cases c)
  let ?w = "snd (allow t j w)"
  have w': "inv ?w" "limit ?w = limit w" "window ?w = window w"
    using Cons.prems(1) inv_allow limit_allow window_allow by blast+
  show ?case
  proof (cases "j = k")
    case True
    with Cons.prems c have "t - s < window w" by auto
    then have a: "fst (allow t j w) = (used w k + 1 \<le> limit w)" "opened ?w k = Some s"
      "used ?w k = used w k + 1"
      using allow_inside [OF Cons.prems(1,2)] True by blast+
    have "accepted ?w cs k \<le> nat (limit w - (used w k + 1))"
      using Cons.IH [of ?w] Cons.prems(3) w' a by (auto simp: c)
    with a show ?thesis
      by (auto simp: c)
  next
    case False
    then have "opened ?w k = Some s" "used ?w k = used w k"
      using allow_other [OF Cons.prems(1), of k j] Cons.prems(2) by auto
    then show ?thesis
      using Cons.IH [of ?w] Cons.prems(3) w' False by (auto simp: c)
  qed
qed simp

lemma accepted_after_open:
  assumes "inv w" and open_now: "opened w k = None \<or> (\<exists>s. opened w k = Some s \<and> window w \<le> t - s)"
    and later: "\<forall>(u, j) \<in> set cs. u - t < window w"
  shows "accepted w ((t, k) # cs) k \<le> nat (limit w)"
proof -
  let ?w = "snd (allow t k w)"
  have "fst (allow t k w)" "opened ?w k = Some t" "used ?w k = 1"
    using allow_open [OF assms(1) open_now] by blast+
  moreover have "inv ?w" "limit ?w = limit w" "window ?w = window w"
    using assms(1) inv_allow limit_allow window_allow by blast+
  moreover have "0 < limit w"
    using assms(1) limit_pos by blast
  moreover have "accepted ?w cs k \<le> nat (limit ?w - used ?w k)"
    using accepted_running [of ?w k t cs] calculation later by fastforce
  ultimately show ?thesis by simp
qed

lemma accepted_interval:
  "inv w \<Longrightarrow> \<forall>(t, j) \<in> set cs. a \<le> t \<and> t < a + window w \<Longrightarrow>
   accepted w cs k
     \<le> (case opened w k of None \<Rightarrow> 0 | Some s \<Rightarrow> nat (limit w - used w k)) + nat (limit w)"
proof (induction cs arbitrary: w)
  case (Cons c cs)
  obtain t j where c: "c = (t, j)" by (cases c)
  let ?w = "snd (allow t j w)"
  have w': "inv ?w" "limit ?w = limit w" "window ?w = window w"
    using Cons.prems(1) inv_allow limit_allow window_allow by blast+
  have later: "\<forall>(u, j) \<in> set cs. u - t < window w"
    using Cons.prems(2) c by fastforce
  have IH: "accepted ?w cs k \<le>
      (case opened ?w k of None \<Rightarrow> 0 | Some s \<Rightarrow> nat (limit w - used ?w k)) + nat (limit w)"
    using Cons.IH [of ?w] Cons.prems(2) w' by (cases "opened ?w k") auto
  show ?case
  proof (cases "j = k")
    case False
    then have "opened ?w k = opened w k" "used ?w k = used w k"
      using allow_other [OF Cons.prems(1), of k j t] by auto
    with IH False show ?thesis by (cases "opened w k") (auto simp: c)
  next
    case True
    show ?thesis
    proof (cases "\<exists>s. opened w k = Some s \<and> t - s < window w")
      case True
      then obtain s where s: "opened w k = Some s" "t - s < window w" by blast
      then have "fst (allow t k w) = (used w k + 1 \<le> limit w)" "opened ?w k = Some s"
        "used ?w k = used w k + 1"
        using allow_inside [OF Cons.prems(1)] \<open>j = k\<close> by blast+
      with IH s \<open>j = k\<close> show ?thesis
        by (auto simp: c)
    next
      case False
      then have "opened w k = None \<or> (\<exists>s. opened w k = Some s \<and> window w \<le> t - s)"
        by (cases "opened w k") auto
      then have "accepted w ((t, k) # cs) k \<le> nat (limit w)"
        using accepted_after_open [OF Cons.prems(1) _ later] by blast
      with \<open>j = k\<close> show ?thesis
        by (auto simp: c split: option.splits)
    qed
  qed
qed simp

lemma accepted_bound:
  assumes "inv w" "\<forall>(t, j) \<in> set cs. a \<le> t \<and> t < a + window w"
  shows "int (accepted w cs k) < 2 * limit w"
proof -
  have "int (accepted w cs k)
      \<le> (case opened w k of None \<Rightarrow> 0 | Some s \<Rightarrow> int (nat (limit w - used w k))) + limit w"
    using accepted_interval [OF assms, of k] limit_pos [OF assms(1)]
    by (auto split: option.splits)
  then show ?thesis
    using limit_pos [OF assms(1)] used_pos [OF assms(1), of k]
    by (cases "opened w k") (auto split: if_splits)
qed

end

subsection \<open>The rate window keeps the contract\<close>

definition sw_opened :: "SlidingWindow \<Rightarrow> string \<Rightarrow> time option" where
  "sw_opened w k = map_option we_start (sw_entries w k)"

definition sw_used :: "SlidingWindow \<Rightarrow> string \<Rightarrow> int" where
  "sw_used w k = (case sw_entries w k of None \<Rightarrow> 0 | Some e \<Rightarrow> we_count e)"

definition sw_inv :: "SlidingWindow \<Rightarrow> bool" where
  "sw_inv w = (0 < sw_limit w \<and> (\<forall>k e. sw_entries w k = Some e \<longrightarrow> 1 \<le> we_count e))"

lemma sw_inv_New: "0 < limit \<Longrightarrow> sw_inv (NewSlidingWindow limit window)"
  by (simp add: sw_inv_def NewSlidingWindow_def)

lemma sw_inv_Allow [inv_intros]: "sw_inv w \<Longrightarrow> sw_inv (snd (SlidingWindow_Allow t k w))"
  by (auto simp: sw_inv_def SlidingWindow_Allow_def split: option.splits) fastforce

lemma sw_config_Allow [simp]:
  "sw_limit (snd (SlidingWindow_Allow t k w)) = sw_limit w"
  "sw_window (snd (SlidingWindow_Allow t k w)) = sw_window w"
  by (simp_all add: SlidingWindow_Allow_def split: option.split)

lemma Allow_other_key:
  "k' \<noteq> k \<Longrightarrow> sw_entries (snd (SlidingWindow_Allow t k w)) k' = sw_entries w k'"
  by (simp add: SlidingWindow_Allow_def split: option.split)

interpretation window_limiter:
  rate_limiter SlidingWindow_Allow sw_opened sw_used sw_limit sw_window sw_inv
proof unfold_locales
  fix w :: SlidingWindow and k k' :: string and s t :: time
  assume inv: "sw_inv w"
  show "0 < sw_limit w" using inv by (simp add: sw_inv_def)
  show "1 \<le> sw_used w k" if "sw_opened w k = Some s"
    using inv that by (auto simp: sw_inv_def sw_opened_def sw_used_def)
  show "sw_inv (snd (SlidingWindow_Allow t k w))" using inv by (rule sw_inv_Allow)
  show "fst (SlidingWindow_Allow t k w) \<and> sw_opened (snd (SlidingWindow_Allow t k w)) k = Some t
      \<and> sw_used (snd (SlidingWindow_Allow t k w)) k = 1"
    if "sw_opened w k = None \<or> (\<exists>s. sw_opened w k = Some s \<and> sw_window w \<le> t - s)"
    using inv that
    by (auto simp: sw_inv_def SlidingWindow_Allow_def sw_opened_def sw_used_def split: option.splits)
  show "fst (SlidingWindow_Allow t k w) = (sw_used w k + 1 \<le> sw_limit w)
      \<and> sw_opened (snd (SlidingWindow_Allow t k w)) k = Some s
      \<and> sw_used (snd (SlidingWindow_Allow t k w)) k = sw_used w k + 1"
    if "sw_opened w k = Some s" "t - s < sw_window w"
    using inv that
    by (auto simp: sw_inv_def SlidingWindow_Allow_def sw_opened_def sw_used_def)
  show "sw_opened (snd (SlidingWindow_Allow t k w)) k' = sw_opened w k'
      \<and> sw_used (snd (SlidingWindow_Allow t k w)) k' = sw_used w k'" if "k' \<noteq> k"
    using Allow_other_key [OF that] by (simp add: sw_opened_def sw_used_def)
qed simp_all

text \<open>\<open>window_limiter.accepted w cs k\<close> counts the calls on \<open>k\<close> that the sequence \<open>cs\<close> gets through.\<close>

definition calls_allowed :: "SlidingWindow \<Rightarrow> (time \<times> string) list \<Rightarrow> string \<Rightarrow> nat" where
  "calls_allowed w cs k = window_limiter.accepted w cs k"

lemma calls_allowed_simps [simp]:
  "calls_allowed w [] k = 0"
  "calls_allowed w ((t, j) # cs) k =
     (if j = k \<and> fst (SlidingWindow_Allow t j w) then 1 else 0)
     + calls_allowed (snd (SlidingWindow_Allow t j w)) cs k"
  by (simp_all add: calls_allowed_def)

text \<open>
  C30: However the calls of all keys interleave, fewer than twice the limit get through on
  one key in any span of time as long as the window. (The window is not a sliding one: it
  starts with the first call and is reset as a whole.)
\<close>

theorem SlidingWindow_rate_bound:
  assumes "sw_inv w" and "\<forall>(t, j) \<in> set cs. a \<le> t \<and> t < a + sw_window w"
  shows "int (calls_allowed w cs k) < 2 * sw_limit w"
  using window_limiter.accepted_bound [OF assms] by (simp add: calls_allowed_def)

theorem SlidingWindow_rate_bound_witness:
  "int (calls_allowed (NewSlidingWindow 2 10) [(9, ''a''), (10, ''b''), (11, ''a'')] ''a'') < 2 * 2"
  using SlidingWindow_rate_bound [of "NewSlidingWindow 2 10" "[(9, ''a''), (10, ''b''), (11, ''a'')]" 5 "''a''"]
  by (simp add: sw_inv_New NewSlidingWindow_def)

text \<open>
  The bound is reached: with a limit of 2 per 10 time units, three calls pass between 9
  and 11, one at the end of a window and two at the start of the next.
\<close>

theorem SlidingWindow_bound_tight:
  "calls_allowed (snd (SlidingWindow_Allow 0 ''a'' (NewSlidingWindow 2 10)))
     [(9, ''a''), (10, ''a''), (11, ''a'')] ''a'' = 3"
  by (simp add: SlidingWindow_Allow_def NewSlidingWindow_def)

subsection \<open>Eviction\<close>

text \<open>
  Dropping the entries that have been idle for at least a window loses nothing: the two
  limiters answer every later call alike.
\<close>

definition expired_by :: "time \<Rightarrow> duration \<Rightarrow> windowEntry \<Rightarrow> bool" where
  "expired_by now window e = (window \<le> now - we_start e)"

definition same_from :: "time \<Rightarrow> SlidingWindow \<Rightarrow> SlidingWindow \<Rightarrow> bool" where
  "same_from now v w =
     (sw_limit v = sw_limit w \<and> sw_window v = sw_window w \<and>
      (\<forall>k. sw_entries v k = sw_entries w k
         \<or> ((\<forall>e. sw_entries v k = Some e \<longrightarrow> expired_by now (sw_window w) e)
           \<and> (\<forall>e. sw_entries w k = Some e \<longrightarrow> expired_by now (sw_window w) e))))"

lemma same_from_mono: "same_from now v w \<Longrightarrow> now \<le> t \<Longrightarrow> same_from t v w"
  by (fastforce simp: same_from_def expired_by_def)

lemma same_from_Allow:
  assumes "same_from t v w"
  shows "fst (SlidingWindow_Allow t k v) = fst (SlidingWindow_Allow t k w)
     \<and> same_from t (snd (SlidingWindow_Allow t k v)) (snd (SlidingWindow_Allow t k w))"
proof -
  have "sw_entries v k = sw_entries w k
     \<or> ((\<forall>e. sw_entries v k = Some e \<longrightarrow> expired_by t (sw_window w) e)
       \<and> (\<forall>e. sw_entries w k = Some e \<longrightarrow> expired_by t (sw_window w) e))"
    using assms unfolding same_from_def by blast
  then show ?thesis
    using assms
    by (cases "sw_entries v k"; cases "sw_entries w k")
      (auto simp: same_from_def SlidingWindow_Allow_def expired_by_def)
qed

lemma calls_allowed_same_from:
  "same_from now v w \<Longrightarrow> \<forall>(t, j) \<in> set cs. now \<le> t \<Longrightarrow> sorted (map fst cs) \<Longrightarrow>
   calls_allowed v cs k = calls_allowed w cs k"
proof (induction cs arbitrary: now v w)
  case (Cons c cs)
  obtain t j where c: "c = (t, j)" by (cases c)
  have "same_from t v w"
    using same_from_mono [OF Cons.prems(1)] Cons.prems(2) c by simp
  from same_from_Allow [OF this, of j] show ?case
    using Cons.IH [of t] Cons.prems(2,3) by (fastforce simp: c)
qed simp

text \<open>
  Evicting entries idle for a window or longer changes no later decision, for any
  sequence of calls at or after the eviction, in the order of their times.
\<close>

theorem SlidingWindow_Evict_transparent:
  assumes "sw_window w \<le> idle" and "\<forall>(t, j) \<in> set cs. now \<le> t" and "sorted (map fst cs)"
  shows "calls_allowed (SlidingWindow_Evict now idle w) cs k = calls_allowed w cs k"
proof (rule calls_allowed_same_from [OF _ assms(2,3)])
  show "same_from now (SlidingWindow_Evict now idle w) w"
    using assms(1)
    by (auto simp: same_from_def SlidingWindow_Evict_def expired_by_def split: option.split)
qed

theorem SlidingWindow_Evict_transparent_witness:
  "calls_allowed (SlidingWindow_Evict 30 20 (snd (SlidingWindow_Allow 0 ''a'' (NewSlidingWindow 2 10))))
     [(31, ''a''), (32, ''a''), (33, ''a'')] ''a''
   = calls_allowed (snd (SlidingWindow_Allow 0 ''a'' (NewSlidingWindow 2 10)))
     [(31, ''a''), (32, ''a''), (33, ''a'')] ''a''"
  by (rule SlidingWindow_Evict_transparent) (simp_all add: NewSlidingWindow_def)

section \<open>The counting semaphore\<close>

record Semaphore =
  sem_max :: int
  sem_current :: int

definition NewSemaphore :: "int \<Rightarrow> Semaphore" where
  "NewSemaphore mx = \<lparr>sem_max = mx, sem_current = 0\<rparr>"

text \<open>
  The compare-and-swap loop, when no other goroutine intervenes, takes one slot in one
  round; its interleavings are the steps below.
\<close>

definition Semaphore_TryAcquire :: "Semaphore \<Rightarrow> bool \<times> Semaphore" where
  "Semaphore_TryAcquire s =
     (if sem_max s \<le> 0 then (True, s)
      else if sem_max s \<le> sem_current s then (False, s)
      else (True, s\<lparr>sem_current := sem_current s + 1\<rparr>))"

definition Semaphore_Release :: "Semaphore \<Rightarrow> Semaphore" where
  "Semaphore_Release s =
     (if sem_max s \<le> 0 then s else s\<lparr>sem_current := sem_current s - 1\<rparr>)"

definition TryAcquire :: "Semaphore option \<Rightarrow> bool \<times> Semaphore option" where
  "TryAcquire s =
     (case s of
        None \<Rightarrow> (True, None)
      | Some x \<Rightarrow> (fst (Semaphore_TryAcquire x), Some (snd (Semaphore_TryAcquire x))))"

definition Release :: "Semaphore option \<Rightarrow> Semaphore option" where
  "Release s = map_option Semaphore_Release s"

text \<open>
  The contract of a slot counter: a granted slot given back leaves the counter as it was,
  a refused request changes nothing, and the bound is kept.
\<close>

locale slot_counter =
  fixes acquire :: "'s \<Rightarrow> bool \<times> 's"
    and release :: "'s \<Rightarrow> 's"
    and ok :: "'s \<Rightarrow> bool"
  assumes acquire_refused: "\<not> fst (acquire s) \<Longrightarrow> snd (acquire s) = s"
    and release_acquired: "fst (acquire s) \<Longrightarrow> release (snd (acquire s)) = s"
    and ok_acquire: "ok s \<Longrightarrow> ok (snd (acquire s))"
begin

text \<open>A client that releases exactly when it was granted a slot leaves no trace.\<close>

lemma bracket: "(if fst (acquire s) then release (snd (acquire s)) else snd (acquire s)) = s"
  by (simp add: acquire_refused release_acquired)

lemma bracket_ok: "ok s \<Longrightarrow> ok (if fst (acquire s) then release (snd (acquire s)) else snd (acquire s))"
  by (simp add: bracket)

end

definition sem_ok :: "Semaphore option \<Rightarrow> bool" where
  "sem_ok s = (case s of None \<Rightarrow> True | Some x \<Rightarrow> sem_current x \<le> max 0 (sem_max x))"

interpretation slots: slot_counter TryAcquire Release sem_ok
  by unfold_locales
    (auto simp: TryAcquire_def Release_def Semaphore_TryAcquire_def Semaphore_Release_def sem_ok_def
      split: option.splits if_splits)

subsection \<open>Interleaved acquisition\<close>

text \<open>
  The loop of \<open>TryAcquire\<close> in the presence of other goroutines: \<open>load\<close> reads the counter
  (the refusal follows at once), \<open>cas\<close> succeeds only if the counter still has the value
  read, otherwise the loop starts again. \<open>pcs\<close> gives each goroutine's position.
\<close>

datatype acq_pc = Idle | Loaded int | Held | Refused

inductive sem_step :: "Semaphore \<times> (nat \<Rightarrow> acq_pc) \<Rightarrow> Semaphore \<times> (nat \<Rightarrow> acq_pc) \<Rightarrow> bool" where
  load: "pcs i = Idle \<Longrightarrow> sem_current s < sem_max s \<Longrightarrow>
    sem_step (s, pcs) (s, pcs(i := Loaded (sem_current s)))"
| load_full: "pcs i = Idle \<Longrightarrow> sem_max s \<le> sem_current s \<Longrightarrow>
    sem_step (s, pcs) (s, pcs(i := Refused))"
| cas_ok: "pcs i = Loaded c \<Longrightarrow> sem_current s = c \<Longrightarrow>
    sem_step (s, pcs) (s\<lparr>sem_current := c + 1\<rparr>, pcs(i := Held))"
| cas_fail: "pcs i = Loaded c \<Longrightarrow> sem_current s \<noteq> c \<Longrightarrow>
    sem_step (s, pcs) (s, pcs(i := Idle))"
| release: "pcs i = Held \<Longrightarrow>
    sem_step (s, pcs) (Semaphore_Release s, pcs(i := Idle))"

inductive_cases sem_stepE: "sem_step (s, pcs) t"

inductive sem_reachable :: "int \<Rightarrow> Semaphore \<times> (nat \<Rightarrow> acq_pc) \<Rightarrow> bool" for mx where
  sem_start: "sem_reachable mx (NewSemaphore mx, \<lambda>_. Idle)"
| sem_next: "sem_reachable mx s \<Longrightarrow> sem_step s t \<Longrightarrow> sem_reachable mx t"

definition holders :: "(nat \<Rightarrow> acq_pc) \<Rightarrow> nat set" where
  "holders pcs = {i. pcs i = Held}"

definition sem_inv :: "int \<Rightarrow> Semaphore \<times> (nat \<Rightarrow> acq_pc) \<Rightarrow> bool" where
  "sem_inv mx st = (case st of (s, pcs) \<Rightarrow>
     sem_max s = mx \<and> finite (holders pcs) \<and> sem_current s = int (card (holders pcs))
     \<and> sem_current s \<le> mx \<and> (\<forall>i c. pcs i = Loaded c \<longrightarrow> c < mx))"

lemma holders_upd:
  "holders (pcs(i := Held)) = insert i (holders pcs)"
  "p \<noteq> Held \<Longrightarrow> holders (pcs(i := p)) = holders pcs - {i}"
  by (auto simp: holders_def)

lemma not_holder: "pcs i \<noteq> Held \<Longrightarrow> i \<notin> holders pcs" "pcs i = Held \<Longrightarrow> i \<in> holders pcs"
  by (simp_all add: holders_def)

lemma sem_inv_step: "sem_step st st' \<Longrightarrow> 0 < mx \<Longrightarrow> sem_inv mx st \<Longrightarrow> sem_inv mx st'"
proof (induction rule: sem_step.induct)
  case (cas_ok pcs i c s)
  then have "c < mx"
    unfolding sem_inv_def by blast
  moreover have "i \<notin> holders pcs"
    using cas_ok by (simp add: holders_def)
  ultimately have "c + 1 \<le> mx" "i \<notin> holders pcs"
    by simp_all
  with cas_ok show ?case
    by (auto simp: sem_inv_def holders_upd)
next
  case (release pcs i s)
  then have "i \<in> holders pcs" "finite (holders pcs)" "sem_max s = mx"
    by (auto simp: sem_inv_def holders_def)
  moreover from this have "0 < card (holders pcs)"
    by (auto simp: card_gt_0_iff)
  ultimately show ?case
    using release by (auto simp: sem_inv_def holders_upd Semaphore_Release_def of_nat_diff)
qed (auto simp: sem_inv_def holders_upd not_holder)

lemma sem_reachable_inv: "sem_reachable mx st \<Longrightarrow> 0 < mx \<Longrightarrow> sem_inv mx st"
proof (induction rule: sem_reachable.induct)
  case sem_start
  then show ?case
    by (simp add: sem_inv_def NewSemaphore_def holders_def)
next
  case (sem_next s t)
  then show ?case
    by (blast intro: sem_inv_step)
qed

text \<open>
  C31: In every interleaving of the compare-and-swap loops and the releases, the counter is
  the number of goroutines that hold a slot, and that number never exceeds the limit.
\<close>

theorem Semaphore_never_exceeds:
  assumes "sem_reachable mx (s, pcs)" and "0 < mx"
  shows "sem_current s = int (card (holders pcs)) \<and> int (card (holders pcs)) \<le> mx"
  using sem_reachable_inv [OF assms] by (auto simp: sem_inv_def)

lemma sem_reachable_one:
  "sem_reachable 1 (\<lparr>sem_max = 1, sem_current = 1\<rparr>, (\<lambda>_. Idle)(3 := Held))"
proof -
  have "sem_step (NewSemaphore 1, \<lambda>_. Idle) (NewSemaphore 1, (\<lambda>_. Idle)(3 := Loaded 0))"
    using sem_step.load [of "\<lambda>_. Idle" 3 "NewSemaphore 1"] by (simp add: NewSemaphore_def)
  then have "sem_reachable 1 (NewSemaphore 1, (\<lambda>_. Idle)(3 := Loaded 0))"
    by (rule sem_reachable.sem_next [OF sem_reachable.sem_start])
  moreover have "sem_step (NewSemaphore 1, (\<lambda>_. Idle)(3 := Loaded 0))
      (\<lparr>sem_max = 1, sem_current = 1\<rparr>, (\<lambda>_. Idle)(3 := Held))"
    using sem_step.cas_ok [of "(\<lambda>_. Idle)(3 := Loaded 0)" 3 0 "NewSemaphore 1"]
    by (simp add: NewSemaphore_def)
  ultimately show ?thesis
    by (rule sem_reachable.sem_next)
qed

theorem Semaphore_never_exceeds_witness:
  "(1 :: int) = int (card (holders ((\<lambda>_. Idle)(3 := Held)))) \<and> int (card (holders ((\<lambda>_. Idle)(3 := Held)))) \<le> 1"
  using Semaphore_never_exceeds [OF sem_reachable_one] by simp

text \<open>
  The atomic model of \<open>TryAcquire\<close> is what one goroutine's loop does when it runs
  undisturbed: a grant is a load followed by a successful swap, a refusal a single load.
\<close>

theorem Semaphore_TryAcquire_refines:
  assumes "0 < sem_max s" and "pcs i = Idle"
  shows "(fst (Semaphore_TryAcquire s) \<longrightarrow>
      (\<exists>mid. sem_step (s, pcs) mid \<and> sem_step mid (snd (Semaphore_TryAcquire s), pcs(i := Held))))
    \<and> (\<not> fst (Semaphore_TryAcquire s) \<longrightarrow>
      sem_step (s, pcs) (snd (Semaphore_TryAcquire s), pcs(i := Refused)))"
proof (cases "sem_max s \<le> sem_current s")
  case True
  with assms show ?thesis
    by (simp add: Semaphore_TryAcquire_def sem_step.load_full)
next
  case False
  with assms have "sem_step (s, pcs) (s, pcs(i := Loaded (sem_current s)))"
    by (simp add: sem_step.load)
  moreover have "sem_step (s, pcs(i := Loaded (sem_current s)))
      (s\<lparr>sem_current := sem_current s + 1\<rparr>, pcs(i := Held))"
    using sem_step.cas_ok [of "pcs(i := Loaded (sem_current s))" i "sem_current s" s] by simp
  ultimately show ?thesis
    using assms False by (auto simp: Semaphore_TryAcquire_def)
qed

theorem Semaphore_TryAcquire_refines_witness:
  "\<exists>mid. sem_step (NewSemaphore 2, \<lambda>_. Idle) mid
     \<and> sem_step mid (snd (Semaphore_TryAcquire (NewSemaphore 2)), (\<lambda>_. Idle)(7 := Held))"
  using Semaphore_TryAcquire_refines [of "NewSemaphore 2" "\<lambda>_. Idle" 7]
  by (simp add: NewSemaphore_def Semaphore_TryAcquire_def)

end
