(* ===== verification/Reputation.thy ===== *)
theory Reputation
  imports Wisp_Config
begin

text \<open>
  The reputation store (\<open>wisp/reputation.go\<close>): a score between 0 and 100 per source and
  per destination, raised and lowered by events, decaying with time, evicted when idle,
  and kept on disk.
\<close>

section \<open>State\<close>

record SourceEntry =
  se_Score :: int
  se_FirstSeen :: time
  se_LastSeen :: time
  se_Events :: "string \<rightharpoonup> int"

record DestEntry =
  de_Score :: int
  de_FirstSeen :: time
  de_LastSeen :: time
  de_Events :: "string \<rightharpoonup> int"
  de_DistinctSources :: int
  de_SeenSources :: "string \<rightharpoonup> bool"

record Reputation =
  rep_cfg :: ReputationConfig
  rep_sources :: "string \<rightharpoonup> SourceEntry"
  rep_dests :: "string \<rightharpoonup> DestEntry"
  rep_lastDecay :: time

definition NewReputation :: "time \<Rightarrow> ReputationConfig \<Rightarrow> Reputation" where
  "NewReputation now cfg =
     \<lparr>rep_cfg = cfg, rep_sources = Map.empty, rep_dests = Map.empty, rep_lastDecay = now\<rparr>"

section \<open>Events\<close>

definition clampScore :: "int \<Rightarrow> int" where
  "clampScore v = (if v < 0 then 0 else if 100 < v then 100 else v)"

text \<open>Reading a missing key of a \<open>map[string]int\<close> gives 0.\<close>

definition map_int :: "(string \<rightharpoonup> int) \<Rightarrow> string \<Rightarrow> int" where
  "map_int m k = (case m k of None \<Rightarrow> 0 | Some v \<Rightarrow> v)"

definition bump_event :: "(string \<rightharpoonup> int) \<Rightarrow> string \<Rightarrow> (string \<rightharpoonup> int)" where
  "bump_event m reason = m(reason \<mapsto> map_int m reason + 1)"

definition newSource :: "time \<Rightarrow> SourceEntry" where
  "newSource now = \<lparr>se_Score = 0, se_FirstSeen = now, se_LastSeen = now, se_Events = Map.empty\<rparr>"

definition AddSource :: "time \<Rightarrow> string \<Rightarrow> string \<Rightarrow> Reputation \<Rightarrow> Reputation" where
  "AddSource now key reason r =
     (let w = map_int (rc_Weights (rep_cfg r)) reason;
          e = (case rep_sources r key of None \<Rightarrow> newSource now | Some e \<Rightarrow> e);
          e' = e\<lparr>se_LastSeen := now,
                 se_Events := bump_event (se_Events e) reason,
                 se_Score := clampScore (go_int (se_Score e + w))\<rparr>
      in r\<lparr>rep_sources := (rep_sources r)(key \<mapsto> e')\<rparr>)"

definition dest_key :: "string \<Rightarrow> int \<Rightarrow> string" where
  "dest_key ip port = ip @ '':'' @ itoa_int port"

definition newDest :: "time \<Rightarrow> DestEntry" where
  "newDest now = \<lparr>de_Score = 0, de_FirstSeen = now, de_LastSeen = now, de_Events = Map.empty,
     de_DistinctSources = 0, de_SeenSources = Map.empty\<rparr>"

text \<open>The part of \<open>AddDest\<close> that counts a new source address.\<close>

definition see_source :: "int \<Rightarrow> string \<Rightarrow> DestEntry \<Rightarrow> DestEntry" where
  "see_source esc s e =
     (if de_SeenSources e s = Some True then e
      else e\<lparr>de_SeenSources := (de_SeenSources e)(s \<mapsto> True),
             de_DistinctSources := de_DistinctSources e + 1,
             de_Score := (if esc \<noteq> 0 then clampScore (go_int (de_Score e + esc)) else de_Score e)\<rparr>)"

definition AddDest :: "time \<Rightarrow> string \<Rightarrow> int \<Rightarrow> string \<Rightarrow> ip \<Rightarrow> Reputation \<Rightarrow> Reputation" where
  "AddDest now ip port reason srcIP r =
     (let w = map_int (rc_DestWeights (rep_cfg r)) reason;
          key = dest_key ip port;
          e = (case rep_dests r key of None \<Rightarrow> newDest now | Some e \<Rightarrow> e);
          e1 = e\<lparr>de_LastSeen := now,
                 de_Events := bump_event (de_Events e) reason,
                 de_Score := clampScore (go_int (de_Score e + w))\<rparr>;
          e2 = (if srcIP \<noteq> [] then
                  see_source (map_int (rc_DestWeights (rep_cfg r)) ''distinctSourcesEscalation'')
                    (IP_String srcIP) e1
                else e1)
      in r\<lparr>rep_dests := (rep_dests r)(key \<mapsto> e2)\<rparr>)"

definition SourceScore :: "string \<Rightarrow> Reputation \<Rightarrow> int" where
  "SourceScore key r = (case rep_sources r key of Some e \<Rightarrow> se_Score e | None \<Rightarrow> 0)"

definition DestScore :: "string \<Rightarrow> int \<Rightarrow> Reputation \<Rightarrow> int" where
  "DestScore ip port r = (case rep_dests r (dest_key ip port) of Some e \<Rightarrow> de_Score e | None \<Rightarrow> 0)"

definition TierNormal :: int where "TierNormal = 0"
definition TierWarn :: int where "TierWarn = 1"
definition TierThrottle :: int where "TierThrottle = 2"
definition TierStrict :: int where "TierStrict = 3"

lemmas tier_defs = TierNormal_def TierWarn_def TierThrottle_def TierStrict_def

definition Tier :: "Reputation \<Rightarrow> int \<Rightarrow> int" where
  "Tier r score =
     (let t = rep_cfg r in
      if 0 < rc_Strict t \<and> rc_Strict t \<le> score then TierStrict
      else if 0 < rc_Throttle t \<and> rc_Throttle t \<le> score then TierThrottle
      else if 0 < rc_Warn t \<and> rc_Warn t \<le> score then TierWarn
      else TierNormal)"

section \<open>Decay, eviction and maintenance\<close>

text \<open>\<open>elapsed.Hours()\<close>: whole hours plus the rest as a fraction, each rounded to \<open>float64\<close>.\<close>

definition hour :: duration where
  "hour = 3600000000000"

definition go_Hours :: "duration \<Rightarrow> rat" where
  "go_Hours d =
     (let h = sgn d * (\<bar>d\<bar> div hour); nsec = sgn d * (\<bar>d\<bar> mod hour) in
      f64 (f64 (of_int h) + f64 (f64 (of_int nsec) / of_int hour)))"

definition decay_delta :: "int \<Rightarrow> duration \<Rightarrow> int" where
  "decay_delta perHour elapsed = float_trunc (f64 (f64 (of_int perHour) * go_Hours elapsed))"

definition ForceDecay :: "time \<Rightarrow> duration \<Rightarrow> Reputation \<Rightarrow> Reputation" where
  "ForceDecay now elapsed r =
     (if rc_DecayPerHour (rep_cfg r) = 0 then r
      else
        let delta = decay_delta (rc_DecayPerHour (rep_cfg r)) elapsed in
        if delta \<le> 0 then r
        else r\<lparr>rep_sources := map_option (\<lambda>e. e\<lparr>se_Score := clampScore (se_Score e - delta)\<rparr>) \<circ> rep_sources r,
               rep_dests := map_option (\<lambda>e. e\<lparr>de_Score := clampScore (de_Score e - delta)\<rparr>) \<circ> rep_dests r,
               rep_lastDecay := now\<rparr>)"

definition Reputation_Evict :: "time \<Rightarrow> Reputation \<Rightarrow> Reputation" where
  "Reputation_Evict now r =
     (if rc_EvictAfter (rep_cfg r) = 0 then r
      else
        let cutoff = now - rc_EvictAfter (rep_cfg r) in
        r\<lparr>rep_sources := (\<lambda>k. case rep_sources r k of None \<Rightarrow> None
             | Some e \<Rightarrow> if se_Score e < 5 \<and> se_LastSeen e < cutoff then None else Some e),
          rep_dests := (\<lambda>k. case rep_dests r k of None \<Rightarrow> None
             | Some e \<Rightarrow> if de_Score e < 5 \<and> de_LastSeen e < cutoff then None else Some e)\<rparr>)"

section \<open>The store on disk\<close>

text \<open>
  The snapshot that is written and read; \<open>encode\<close> and \<open>decode\<close> stand for the JSON printer
  and parser. \<open>MkdirAll\<close>, \<open>WriteFile\<close> and \<open>Rename\<close> can each fail: \<open>io\<close> says how far the
  save gets. A failed write leaves the temporary file with arbitrary contents.
\<close>

type_synonym snapshot = "(string \<rightharpoonup> SourceEntry) \<times> (string \<rightharpoonup> DestEntry)"

datatype 'd save_io = MkdirFails | WriteFails "'d option" | RenameFails | SaveOk

definition SaveNow ::
  "(snapshot \<Rightarrow> 'd) \<Rightarrow> 'd save_io \<Rightarrow> Reputation \<Rightarrow> (string \<rightharpoonup> 'd) \<Rightarrow> bool \<times> (string \<rightharpoonup> 'd)" where
  "SaveNow encode io r fs =
     (let path = rc_StorePath (rep_cfg r); tmp = path @ ''.tmp'';
          data = encode (rep_sources r, rep_dests r) in
      if path = [] then (True, fs)
      else (case io of
          MkdirFails \<Rightarrow> (False, fs)
        | WriteFails junk \<Rightarrow> (False, fs(tmp := junk))
        | RenameFails \<Rightarrow> (False, fs(tmp \<mapsto> data))
        | SaveOk \<Rightarrow> (True, fs(tmp := None, path \<mapsto> data))))"

text \<open>
  \<open>decode\<close> gives \<open>None\<close> for a document that does not parse; an absent or null member leaves
  the map of the store as it is.
\<close>

definition Load ::
  "('d \<Rightarrow> ((string \<rightharpoonup> SourceEntry) option \<times> (string \<rightharpoonup> DestEntry) option) option)
   \<Rightarrow> (string \<rightharpoonup> 'd) \<Rightarrow> Reputation \<Rightarrow> bool \<times> Reputation" where
  "Load decode fs r =
     (if rc_StorePath (rep_cfg r) = [] then (True, r)
      else (case fs (rc_StorePath (rep_cfg r)) of
          None \<Rightarrow> (True, r)
        | Some data \<Rightarrow>
            (case decode data of
               None \<Rightarrow> (False, r)
             | Some (srcs, dsts) \<Rightarrow>
                 (True, r\<lparr>rep_sources := (case srcs of None \<Rightarrow> rep_sources r | Some m \<Rightarrow> m),
                          rep_dests := (case dsts of None \<Rightarrow> rep_dests r | Some m \<Rightarrow> m)\<rparr>))))"

text \<open>One tick of \<open>RunMaintenance\<close>, without its save, and the loop over the times of the ticks.\<close>

definition maintenance_tick :: "time \<Rightarrow> Reputation \<Rightarrow> Reputation" where
  "maintenance_tick now r = Reputation_Evict now (ForceDecay now (now - rep_lastDecay r) r)"

fun RunMaintenance ::
  "(snapshot \<Rightarrow> 'd) \<Rightarrow> (time \<times> 'd save_io) list \<Rightarrow> 'd save_io \<Rightarrow> Reputation \<Rightarrow> (string \<rightharpoonup> 'd)
   \<Rightarrow> Reputation \<times> (string \<rightharpoonup> 'd)" where
  "RunMaintenance encode [] stop_io r fs = (r, snd (SaveNow encode stop_io r fs))"
| "RunMaintenance encode ((now, io) # ticks) stop_io r fs =
     RunMaintenance encode ticks stop_io (maintenance_tick now r)
       (snd (SaveNow encode io (maintenance_tick now r) fs))"

section \<open>The invariant of the store\<close>

lemma clampScore_bounds [simp]: "0 \<le> clampScore v" "clampScore v \<le> 100"
  by (simp_all add: clampScore_def)

lemma clampScore_id: "0 \<le> v \<Longrightarrow> v \<le> 100 \<Longrightarrow> clampScore v = v"
  by (simp add: clampScore_def)

lemma clampScore_mono: "v \<le> w \<Longrightarrow> clampScore v \<le> clampScore w"
  by (simp add: clampScore_def)

definition source_ok :: "SourceEntry \<Rightarrow> bool" where
  "source_ok e = (0 \<le> se_Score e \<and> se_Score e \<le> 100)"

definition seen_set :: "DestEntry \<Rightarrow> string set" where
  "seen_set e = {s. de_SeenSources e s = Some True}"

definition dest_ok :: "DestEntry \<Rightarrow> bool" where
  "dest_ok e = (0 \<le> de_Score e \<and> de_Score e \<le> 100 \<and> finite (seen_set e)
     \<and> de_DistinctSources e = int (card (seen_set e)))"

definition rep_ok :: "Reputation \<Rightarrow> bool" where
  "rep_ok r = ((\<forall>k e. rep_sources r k = Some e \<longrightarrow> source_ok e)
     \<and> (\<forall>k e. rep_dests r k = Some e \<longrightarrow> dest_ok e))"

lemma source_ok_new [simp]: "source_ok (newSource now)"
  by (simp add: source_ok_def newSource_def)

lemma dest_ok_new [simp]: "dest_ok (newDest now)"
  by (simp add: dest_ok_def newDest_def seen_set_def)

lemma dest_ok_see_source: "dest_ok e \<Longrightarrow> dest_ok (see_source esc s e)"
proof -
  assume e: "dest_ok e"
  show ?thesis
  proof (cases "de_SeenSources e s = Some True")
    case True
    with e show ?thesis by (simp add: see_source_def)
  next
    case False
    then have "seen_set (see_source esc s e) = insert s (seen_set e)" "s \<notin> seen_set e"
      by (auto simp: see_source_def seen_set_def)
    with e False show ?thesis
      by (simp add: dest_ok_def see_source_def)
  qed
qed

lemma rep_ok_New [inv_intros]: "rep_ok (NewReputation now cfg)"
  by (simp add: rep_ok_def NewReputation_def)

lemma rep_ok_AddSource [inv_intros]: "rep_ok r \<Longrightarrow> rep_ok (AddSource now key reason r)"
  by (auto simp: rep_ok_def AddSource_def Let_def source_ok_def)

lemma rep_ok_AddDest [inv_intros]:
  assumes "rep_ok r"
  shows "rep_ok (AddDest now ip port reason srcIP r)"
proof -
  define e where "e = (case rep_dests r (dest_key ip port) of None \<Rightarrow> newDest now | Some e \<Rightarrow> e)"
  define e1 where "e1 = e\<lparr>de_LastSeen := now, de_Events := bump_event (de_Events e) reason,
    de_Score := clampScore (go_int (de_Score e + map_int (rc_DestWeights (rep_cfg r)) reason))\<rparr>"
  have "dest_ok e"
    using assms by (auto simp: e_def rep_ok_def split: option.split)
  then have "dest_ok e1"
    by (simp add: e1_def dest_ok_def seen_set_def)
  then show ?thesis
    using assms dest_ok_see_source [of e1]
    by (simp add: rep_ok_def AddDest_def Let_def flip: e_def e1_def)
qed

lemma rep_ok_ForceDecay [inv_intros]: "rep_ok r \<Longrightarrow> rep_ok (ForceDecay now elapsed r)"
  by (auto simp: rep_ok_def ForceDecay_def Let_def source_ok_def dest_ok_def seen_set_def)

lemma rep_ok_Evict [inv_intros]: "rep_ok r \<Longrightarrow> rep_ok (Reputation_Evict now r)"
  by (auto simp: rep_ok_def Reputation_Evict_def Let_def split: option.splits)

datatype rep_event = EvSource time string string | EvDest time string int string ip
  | EvTick time

fun rep_event_step :: "Reputation \<Rightarrow> rep_event \<Rightarrow> Reputation" where
  "rep_event_step r (EvSource now key reason) = AddSource now key reason r"
| "rep_event_step r (EvDest now ip port reason src) = AddDest now ip port reason src r"
| "rep_event_step r (EvTick now) = maintenance_tick now r"

lemma rep_ok_event: "rep_ok r \<Longrightarrow> rep_ok (rep_event_step r ev)"
  by (cases ev) (auto simp: maintenance_tick_def intro: inv_intros)

text \<open>
  C32: Whatever events a new store sees, in whatever order and at whatever times, every
  score stays between 0 and 100 and every destination's \<open>distinctSources\<close> is the number of
  source addresses recorded for it. (The events are those of the running server and of
  \<open>RunMaintenance\<close>. \<open>Load\<close>, which takes over what a file says without a check, is not one of
  them: a store that starts from a file starts from what \<open>Rep_Store\<close> says of it.)
\<close>

theorem Reputation_invariant: "rep_ok (foldl rep_event_step (NewReputation now cfg) evs)"
proof -
  have "rep_ok r \<Longrightarrow> rep_ok (foldl rep_event_step r evs)" for r
    by (induction evs arbitrary: r) (simp_all add: rep_ok_event)
  then show ?thesis
    by (simp add: rep_ok_New)
qed

text \<open>
  A higher score never lands in a lower tier, however the thresholds are configured
  (a threshold of 0 switches its tier off).
\<close>

theorem Tier_mono:
  assumes "s \<le> t"
  shows "Tier r s \<le> Tier r t"
  using assms by (auto simp: Tier_def tier_defs Let_def)

definition example_rep_config :: ReputationConfig where
  "example_rep_config = \<lparr>rc_Enabled = True, rc_StorePath = ''r.json'', rc_DecayPerHour = 1,
     rc_EvictAfter = 100, rc_EvictDays = 0, rc_Weights = [''burstRate'' \<mapsto> 5],
     rc_DestWeights = [''synSignature'' \<mapsto> 30, ''distinctSourcesEscalation'' \<mapsto> 1],
     rc_Warn = 21, rc_Throttle = 51, rc_Strict = 81, rc_SaveIntervalSeconds = 30\<rparr>"

theorem Tier_mono_witness:
  "Tier (NewReputation 0 example_rep_config) 30 \<le> Tier (NewReputation 0 example_rep_config) 90"
  by (rule Tier_mono) simp

text \<open>
  A destination is escalated once per source: repeating an event from the same address
  adds the weight of the event but neither a distinct source nor the escalation.
\<close>

lemma see_source_idem: "see_source esc s (see_source esc' s e) = see_source esc' s e"
  by (simp add: see_source_def)

text \<open>
  Eviction removes exactly the entries that are both nearly clean (score below 5) and
  idle for longer than \<open>evictAfter\<close>; every other entry is kept unchanged.
\<close>

theorem Reputation_Evict_exact:
  assumes "rc_EvictAfter (rep_cfg r) \<noteq> 0"
  shows "rep_sources (Reputation_Evict now r) k =
       (case rep_sources r k of
          Some e \<Rightarrow> if se_Score e < 5 \<and> rc_EvictAfter (rep_cfg r) < now - se_LastSeen e
                   then None else Some e
        | None \<Rightarrow> None)
     \<and> rep_dests (Reputation_Evict now r) k =
       (case rep_dests r k of
          Some e \<Rightarrow> if de_Score e < 5 \<and> rc_EvictAfter (rep_cfg r) < now - de_LastSeen e
                   then None else Some e
        | None \<Rightarrow> None)"
  using assms by (auto simp: Reputation_Evict_def Let_def split: option.splits)

theorem Reputation_Evict_exact_witness:
  "rep_sources (Reputation_Evict 200 (NewReputation 0 example_rep_config)) ''a'' = None"
  using Reputation_Evict_exact [of "NewReputation 0 example_rep_config" 200 "''a''"]
  by (simp add: NewReputation_def example_rep_config_def)

lemma ForceDecay_lowers:
  "rep_ok r \<Longrightarrow> rep_sources r k = Some e \<Longrightarrow>
   \<exists>e'. rep_sources (ForceDecay now elapsed r) k = Some e' \<and> se_Score e' \<le> se_Score e
     \<and> se_LastSeen e' = se_LastSeen e"
  by (auto simp: rep_ok_def source_ok_def ForceDecay_def Let_def clampScore_def)

text \<open>
  A save either replaces the store file by the whole new snapshot or leaves it as it
  was, whichever step fails: the new contents go to a temporary file that is renamed over
  the store, so the store is never left half written.
\<close>

theorem SaveNow_atomic:
  "snd (SaveNow encode io r fs) (rc_StorePath (rep_cfg r)) \<in>
     {fs (rc_StorePath (rep_cfg r)), Some (encode (rep_sources r, rep_dests r))}
   \<and> (io = SaveOk \<longrightarrow> rc_StorePath (rep_cfg r) \<noteq> [] \<longrightarrow>
        snd (SaveNow encode io r fs) (rc_StorePath (rep_cfg r))
          = Some (encode (rep_sources r, rep_dests r)))"
  by (auto simp: SaveNow_def Let_def split: save_io.split)

theorem SaveNow_atomic_witness:
  "snd (SaveNow id SaveOk (NewReputation 0 example_rep_config) Map.empty) ''r.json''
     = Some (Map.empty, Map.empty)"
  using SaveNow_atomic [of id SaveOk "NewReputation 0 example_rep_config" Map.empty]
  by (simp add: NewReputation_def example_rep_config_def)

end
