(* ===== verification/Signature.thy ===== *)
theory Signature
  imports Wisp_Config
begin

text \<open>
  The SYN-flood detector (\<open>wisp/signature.go\<close>): per connection and destination the recent
  dial outcomes, and the test whether too many of them failed.
\<close>

section \<open>Detectors\<close>

record sample =
  sm_t :: time
  sm_ok :: bool

record Detector =
  det_cfg :: SignatureConfig
  det_ring :: "sample list"

definition zeroSignatureConfig :: SignatureConfig where
  "zeroSignatureConfig = \<lparr>sc_Enabled = False, sc_Window = 0, sc_MinSamples = 0,
     sc_FailedHandshakeRatio = 0\<rparr>"

definition nopDetector :: Detector where
  "nopDetector = \<lparr>det_cfg = zeroSignatureConfig, det_ring = []\<rparr>"

definition Detector_Record :: "time \<Rightarrow> bool \<Rightarrow> Detector \<Rightarrow> Detector" where
  "Detector_Record now ok d =
     (if sc_Window (det_cfg d) = 0 then d
      else d\<lparr>det_ring := dropWhile (\<lambda>s. sm_t s < now - sc_Window (det_cfg d))
               (det_ring d @ [\<lparr>sm_t = now, sm_ok = ok\<rparr>])\<rparr>)"

text \<open>
  The failure ratio is a \<open>float64\<close> quotient; on an empty ring it is 0/0, which is no
  number and compares as false.
\<close>

definition Detector_Match :: "Detector \<Rightarrow> bool" where
  "Detector_Match d =
     (if sc_Window (det_cfg d) = 0 then False
      else if int (length (det_ring d)) < sc_MinSamples (det_cfg d) then False
      else if det_ring d = [] then False
      else sc_FailedHandshakeRatio (det_cfg d)
             \<le> f64 (of_nat (length (filter (\<lambda>s. \<not> sm_ok s) (det_ring d)))
                    / of_nat (length (det_ring d))))"

section \<open>The detectors of all connections\<close>

record Signatures =
  sig_cfg :: SignatureConfig
  sig_per :: "string \<rightharpoonup> Detector"

definition NewSignatures :: "SignatureConfig \<Rightarrow> Signatures" where
  "NewSignatures cfg = \<lparr>sig_cfg = cfg, sig_per = Map.empty\<rparr>"

text \<open>The key \<open>"%d|%s:%d"\<close> and the prefix \<open>"%d|"\<close>.\<close>

definition sig_key :: "u64 \<Rightarrow> string \<Rightarrow> int \<Rightarrow> string" where
  "sig_key connID dstIP dstPort =
     itoa (unat connID) @ CHR ''|'' # dstIP @ '':'' @ itoa_int dstPort"

definition sig_prefix :: "u64 \<Rightarrow> string" where
  "sig_prefix connID = itoa (unat connID) @ ''|''"

text \<open>
  \<open>For\<close> gives a pointer: the shared inert detector, or the detector stored under a key,
  created if missing.
\<close>

datatype detector_ref = NopDetector | DetectorAt string

definition Signatures_For :: "u64 \<Rightarrow> string \<Rightarrow> int \<Rightarrow> Signatures \<Rightarrow> detector_ref \<times> Signatures" where
  "Signatures_For connID dstIP dstPort s =
     (if \<not> sc_Enabled (sig_cfg s) then (NopDetector, s)
      else
        let key = sig_key connID dstIP dstPort in
        (DetectorAt key,
         case sig_per s key of
           Some d \<Rightarrow> s
         | None \<Rightarrow> s\<lparr>sig_per := (sig_per s)(key \<mapsto> \<lparr>det_cfg = sig_cfg s, det_ring = []\<rparr>)\<rparr>))"

definition Signatures_Record :: "time \<Rightarrow> bool \<Rightarrow> detector_ref \<Rightarrow> Signatures \<Rightarrow> Signatures" where
  "Signatures_Record now ok ref s =
     (case ref of
        NopDetector \<Rightarrow> s
      | DetectorAt key \<Rightarrow> s\<lparr>sig_per := (sig_per s)(key := map_option (Detector_Record now ok) (sig_per s key))\<rparr>)"

definition Signatures_Match :: "detector_ref \<Rightarrow> Signatures \<Rightarrow> bool" where
  "Signatures_Match ref s =
     (case ref of
        NopDetector \<Rightarrow> Detector_Match nopDetector
      | DetectorAt key \<Rightarrow> (case sig_per s key of None \<Rightarrow> False | Some d \<Rightarrow> Detector_Match d))"

definition Signatures_Forget :: "u64 \<Rightarrow> Signatures \<Rightarrow> Signatures" where
  "Signatures_Forget connID s =
     s\<lparr>sig_per := (\<lambda>k. if strings_HasPrefix k (sig_prefix connID) then None else sig_per s k)\<rparr>"

section \<open>Properties\<close>

lemma not_digit_bar [simp]: "\<not> is_digit (CHR ''|'')"
  by (simp add: is_digit_def code_def)

lemma HasPrefix_iff: "strings_HasPrefix s p \<longleftrightarrow> (\<exists>v. s = p @ v)"
  unfolding strings_HasPrefix_def by (metis append_eq_conv_conj append_take_drop_id)

text \<open>
  The keys of different connections never mix: a detector key starts with the prefix
  of a connection exactly when it belongs to that connection (connection 1 does not own
  the keys of connection 12). Forgetting one connection therefore drops its detectors and
  keeps every other one.
\<close>

theorem Signatures_Forget_exact:
  "sig_per (Signatures_Forget c s) (sig_key c' dst port)
     = (if c = c' then None else sig_per s (sig_key c' dst port))"
proof -
  have "strings_HasPrefix (sig_key c' dst port) (sig_prefix c) \<longleftrightarrow> c = c'"
  proof
    assume "strings_HasPrefix (sig_key c' dst port) (sig_prefix c)"
    then obtain v where "itoa (unat c') @ CHR ''|'' # dst @ '':'' @ itoa_int port
        = itoa (unat c) @ CHR ''|'' # v"
      by (auto simp: HasPrefix_iff sig_key_def sig_prefix_def)
    then have "unat c' = unat c"
      using itoa_sep_inject [OF not_digit_bar] by blast
    then show "c = c'" by (simp add: word_unat_eq_iff)
  next
    assume "c = c'"
    then show "strings_HasPrefix (sig_key c' dst port) (sig_prefix c)"
      by (simp add: HasPrefix_iff sig_key_def sig_prefix_def)
  qed
  then show ?thesis
    by (simp add: Signatures_Forget_def)
qed

text \<open>
  What a detector holds after a history of outcomes: with a positive window and a clock
  that does not run backwards, exactly the outcomes within the window.
\<close>

fun record_all :: "(time \<times> bool) list \<Rightarrow> Detector \<Rightarrow> Detector" where
  "record_all [] d = d"
| "record_all ((t, ok) # hs) d = record_all hs (Detector_Record t ok d)"

lemma det_cfg_Record [simp]: "det_cfg (Detector_Record now ok d) = det_cfg d"
  by (simp add: Detector_Record_def)

lemma dropWhile_sorted_filter:
  "sorted (map f xs) \<Longrightarrow> dropWhile (\<lambda>x. f x < (c :: int)) xs = filter (\<lambda>x. c \<le> f x) xs"
proof (induction xs)
  case (Cons x xs)
  show ?case
  proof (cases "f x < c")
    case True
    with Cons show ?thesis by simp
  next
    case False
    moreover have "filter (\<lambda>x. c \<le> f x) xs = xs"
      using Cons.prems False by (auto simp: filter_id_conv)
    ultimately show ?thesis by simp
  qed
qed simp

lemma record_all_filter:
  assumes "0 < sc_Window (det_cfg d)" "sorted (map sm_t (det_ring d) @ map fst hs)"
    "hs \<noteq> []" "last (map fst hs) = now"
  shows "det_ring (record_all hs d) =
    filter (\<lambda>s. now - sc_Window (det_cfg d) \<le> sm_t s)
      (det_ring d @ map (\<lambda>(t, ok). \<lparr>sm_t = t, sm_ok = ok\<rparr>) hs)"
  using assms
proof (induction hs arbitrary: d)
  case (Cons h hs)
  obtain t ok where h: "h = (t, ok)" by (cases h)
  let ?W = "sc_Window (det_cfg d)"
  let ?new = "\<lparr>sm_t = t, sm_ok = ok\<rparr>"
  let ?ring = "filter (\<lambda>s. t - ?W \<le> sm_t s) (det_ring d @ [?new])"
  have srt: "sorted (map sm_t (det_ring d @ [?new]))"
    using Cons.prems(2) by (auto simp: h sorted_append)
  have ring: "det_ring (Detector_Record t ok d) = ?ring"
    using Cons.prems(1) dropWhile_sorted_filter [OF srt, of "t - ?W"]
    by (simp add: Detector_Record_def)
  show ?case
  proof (cases "hs = []")
    case True
    then show ?thesis
      using Cons.prems(4) ring by (simp add: h)
  next
    case False
    have "t \<le> now"
    proof -
      have "now \<in> set (map fst hs)"
        using Cons.prems(4) False by (metis h last_ConsR last_in_set list.map_disc_iff list.simps(9))
      then show ?thesis
        using Cons.prems(2) by (auto simp: h sorted_append)
    qed
    have "sorted (map sm_t (det_ring (Detector_Record t ok d)) @ map fst hs)"
      using Cons.prems(2) unfolding ring
      by (auto simp: h sorted_append sorted_filter)
    then have IH: "det_ring (record_all hs (Detector_Record t ok d)) =
        filter (\<lambda>s. now - ?W \<le> sm_t s)
          (?ring @ map (\<lambda>(t, ok). \<lparr>sm_t = t, sm_ok = ok\<rparr>) hs)"
      using Cons.IH [of "Detector_Record t ok d"] Cons.prems False by (simp add: ring h)
    have still: "filter (\<lambda>s. now - ?W \<le> sm_t s) ?ring
        = filter (\<lambda>s. now - ?W \<le> sm_t s) (det_ring d @ [?new])"
      unfolding filter_filter using \<open>t \<le> now\<close> by (intro filter_cong) auto
    have "det_ring (record_all (h # hs) d) = det_ring (record_all hs (Detector_Record t ok d))"
      by (simp add: h)
    also have "\<dots> = filter (\<lambda>s. now - ?W \<le> sm_t s) (det_ring d @ [?new])
        @ filter (\<lambda>s. now - ?W \<le> sm_t s) (map (\<lambda>(t, ok). \<lparr>sm_t = t, sm_ok = ok\<rparr>) hs)"
      by (simp only: IH filter_append [of _ ?ring] still)
    also have "\<dots> = filter (\<lambda>s. now - ?W \<le> sm_t s)
        (det_ring d @ map (\<lambda>(t, ok). \<lparr>sm_t = t, sm_ok = ok\<rparr>) (h # hs))"
      by (simp add: h)
    finally show ?thesis .
  qed
qed simp

text \<open>
  A detector counts a sliding window: after any history of dial outcomes with
  non-decreasing times, its ring holds exactly the outcomes of the last \<open>window\<close>
  nanoseconds, in order, so the ratio it tests is the failure ratio of that window.
\<close>

theorem Detector_sliding_window:
  assumes "0 < sc_Window cfg" and "sorted (map fst hs)" and "hs \<noteq> []"
  shows "det_ring (record_all hs \<lparr>det_cfg = cfg, det_ring = []\<rparr>) =
    map (\<lambda>(t, ok). \<lparr>sm_t = t, sm_ok = ok\<rparr>)
      (filter (\<lambda>(t, ok). fst (last hs) - sc_Window cfg \<le> t) hs)"
proof -
  have "det_ring (record_all hs \<lparr>det_cfg = cfg, det_ring = []\<rparr>) =
      filter (\<lambda>s. fst (last hs) - sc_Window cfg \<le> sm_t s)
        (map (\<lambda>(t, ok). \<lparr>sm_t = t, sm_ok = ok\<rparr>) hs)"
    using record_all_filter [of "\<lparr>det_cfg = cfg, det_ring = []\<rparr>" hs "fst (last hs)"] assms
    by (simp add: last_map)
  then show ?thesis
    by (simp add: filter_map comp_def case_prod_unfold)
qed

definition example_sig_config :: SignatureConfig where
  "example_sig_config = \<lparr>sc_Enabled = True, sc_Window = 10, sc_MinSamples = 2,
     sc_FailedHandshakeRatio = 3 / 4\<rparr>"

theorem Detector_sliding_window_witness:
  "det_ring (record_all [(0, True), (5, False), (12, False)]
      \<lparr>det_cfg = example_sig_config, det_ring = []\<rparr>)
    = [\<lparr>sm_t = 5, sm_ok = False\<rparr>, \<lparr>sm_t = 12, sm_ok = False\<rparr>]"
  by (subst Detector_sliding_window) (simp_all add: example_sig_config_def)

text \<open>
  The detector fires on a window of failures only: with a threshold above 0 a window
  without a failed dial never matches, and with a threshold of at most 1 a non-empty
  window of failures alone, of at least the minimum size, always does.
\<close>

theorem Detector_Match_extremes:
  assumes "sc_Window (det_cfg d) \<noteq> 0" and "det_ring d \<noteq> []"
    and "sc_MinSamples (det_cfg d) \<le> int (length (det_ring d))"
    and "0 < sc_FailedHandshakeRatio (det_cfg d)" "sc_FailedHandshakeRatio (det_cfg d) \<le> 1"
  shows "(list_all sm_ok (det_ring d) \<longrightarrow> \<not> Detector_Match d)
    \<and> (list_all (\<lambda>s. \<not> sm_ok s) (det_ring d) \<longrightarrow> Detector_Match d)"
proof -
  have "filter (\<lambda>s. \<not> sm_ok s) (det_ring d) = []" if "list_all sm_ok (det_ring d)"
    using that by (simp add: filter_empty_conv list_all_iff)
  moreover have "filter (\<lambda>s. \<not> sm_ok s) (det_ring d) = det_ring d" if "list_all (\<lambda>s. \<not> sm_ok s) (det_ring d)"
    using that by (simp add: filter_id_conv list_all_iff)
  ultimately show ?thesis
    using assms by (simp add: Detector_Match_def)
qed

theorem Detector_Match_extremes_witness:
  "Detector_Match \<lparr>det_cfg = example_sig_config,
     det_ring = [\<lparr>sm_t = 1, sm_ok = False\<rparr>, \<lparr>sm_t = 2, sm_ok = False\<rparr>]\<rparr>"
  using Detector_Match_extremes [of "\<lparr>det_cfg = example_sig_config,
     det_ring = [\<lparr>sm_t = 1, sm_ok = False\<rparr>, \<lparr>sm_t = 2, sm_ok = False\<rparr>]\<rparr>"]
  by (simp add: example_sig_config_def)

text \<open>The inert detector never matches, whatever is recorded on it.\<close>

lemma nopDetector_inert: "\<not> Detector_Match (record_all hs nopDetector)"
proof -
  have "sc_Window (det_cfg (record_all hs d)) = sc_Window (det_cfg d)" for d
    by (induction hs arbitrary: d) auto
  then show ?thesis
    by (simp add: Detector_Match_def nopDetector_def zeroSignatureConfig_def)
qed

end
