(* ===== verification/DNS_Cache.thy ===== *)
theory DNS_Cache
  imports Wisp_Config
begin

text \<open>
  The DNS cache (\<open>wisp/dnscache.go\<close>): answers and failures are kept for the time to live,
  literal addresses never reach the resolver, and answers are ordered by family. The
  resolver is a parameter: a function from host names to a result.
\<close>

section \<open>State\<close>

datatype ('e, 'a) dns_result = DnsErr 'e | DnsOk 'a

record 'e dnsEntry =
  dns_ips :: "ip list"
  dns_expiresAt :: time
  dns_err :: "'e option"

datatype resolver_kind = DefaultResolver | UdpResolver string

record 'e DNSCache =
  dc_servers :: "string list"
  dc_resolver :: resolver_kind
  dc_ttl :: duration
  dc_resultOrder :: string
  dc_cache :: "string \<rightharpoonup> 'e dnsEntry"

section \<open>Construction\<close>

definition normalizeDNSServer :: "string \<Rightarrow> string" where
  "normalizeDNSServer server =
     (case SplitHostPort server of Some _ \<Rightarrow> server | None \<Rightarrow> JoinHostPort server ''53'')"

fun firstDNSServer :: "string list \<Rightarrow> string" where
  "firstDNSServer [] = []"
| "firstDNSServer (s # ss) =
     (if strings_TrimSpace s = [] then firstDNSServer ss
      else normalizeDNSServer (strings_TrimSpace s))"

definition initResolver :: "string \<Rightarrow> string list \<Rightarrow> resolver_kind" where
  "initResolver meth servers =
     (if strings_ToLower (strings_TrimSpace meth) = ''resolve'' \<and> servers \<noteq> [] then
        (if firstDNSServer servers = [] then DefaultResolver
         else UdpResolver (firstDNSServer servers))
      else DefaultResolver)"

definition NewDNSCache :: "string list \<Rightarrow> int \<Rightarrow> string \<Rightarrow> string \<Rightarrow> 'e DNSCache" where
  "NewDNSCache servers ttlSeconds meth resultOrder =
     (let ttl = go_int (ttlSeconds * second) in
      \<lparr>dc_servers = servers, dc_resolver = initResolver meth servers,
       dc_ttl = (if ttl \<le> 0 then 120 * second else ttl),
       dc_resultOrder = resultOrder, dc_cache = Map.empty\<rparr>)"

text \<open>The interval of the goroutine that runs \<open>expire\<close>.\<close>

definition cleanup_interval :: "'e DNSCache \<Rightarrow> duration" where
  "cleanup_interval d = (if dc_ttl d div 2 < 60 * second then 60 * second else dc_ttl d div 2)"

definition dns_expire :: "time \<Rightarrow> 'e DNSCache \<Rightarrow> 'e DNSCache" where
  "dns_expire now d =
     d\<lparr>dc_cache := (\<lambda>h. case dc_cache d h of None \<Rightarrow> None
         | Some e \<Rightarrow> if dns_expiresAt e < now then None else Some e)\<rparr>"

section \<open>Lookup\<close>

definition reorderIPs :: "ip list \<Rightarrow> string \<Rightarrow> ip list" where
  "reorderIPs ips order0 =
     (if length ips \<le> 1 then ips
      else
        let order = strings_ToLower (strings_TrimSpace order0);
            v4 = filter (\<lambda>p. IP_To4 p \<noteq> []) ips;
            v6 = filter (\<lambda>p. IP_To4 p = []) ips in
        if order = ''verbatim'' \<or> order = [] then ips
        else if order = ''ipv4first'' then v4 @ v6
        else if order = ''ipv6first'' then v6 @ v4
        else ips)"

text \<open>
  \<open>LookupIPAddr\<close>: \<open>now\<close> is the time of the cache check, \<open>now'\<close> the time after the
  resolver's answer. The single-flight group only merges concurrent calls for one host.
\<close>

definition LookupIPAddr ::
  "(string \<Rightarrow> ('e, ip list) dns_result) \<Rightarrow> time \<Rightarrow> time \<Rightarrow> string \<Rightarrow> 'e DNSCache
   \<Rightarrow> ('e, ip list) dns_result \<times> 'e DNSCache" where
  "LookupIPAddr resolve now now' host d =
     (if ParseIP host \<noteq> [] then (DnsOk [ParseIP host], d)
      else (case (case dc_cache d host of
                    Some e \<Rightarrow> if now < dns_expiresAt e then Some e else None
                  | None \<Rightarrow> None) of
          Some e \<Rightarrow>
            ((case dns_err e of Some x \<Rightarrow> DnsErr x | None \<Rightarrow> DnsOk (dns_ips e)), d)
        | None \<Rightarrow>
            (case resolve host of
               DnsErr x \<Rightarrow>
                 (DnsErr x, d\<lparr>dc_cache := (dc_cache d)(host \<mapsto>
                    \<lparr>dns_ips = [], dns_expiresAt = now' + dc_ttl d, dns_err = Some x\<rparr>)\<rparr>)
             | DnsOk ips \<Rightarrow>
                 (DnsOk (reorderIPs ips (dc_resultOrder d)),
                  d\<lparr>dc_cache := (dc_cache d)(host \<mapsto>
                    \<lparr>dns_ips = reorderIPs ips (dc_resultOrder d),
                     dns_expiresAt = now' + dc_ttl d, dns_err = None\<rparr>)\<rparr>))))"

section \<open>Properties\<close>

lemma mset_filter_split:
  "mset (filter P xs) + mset (filter (\<lambda>x. \<not> P x) xs) = mset xs"
  by (induction xs) auto

lemma mset_reorderIPs: "mset (reorderIPs ips order) = mset ips"
  using mset_filter_split [of "\<lambda>p. IP_To4 p \<noteq> []" ips] mset_filter_split [of "\<lambda>p. IP_To4 p = []" ips]
  by (simp add: reorderIPs_def Let_def)

lemma set_reorderIPs [simp]: "set (reorderIPs ips order) = set ips"
  by (metis mset_reorderIPs set_mset_mset)

lemma reorderIPs_families:
  "filter (\<lambda>p. IP_To4 p \<noteq> []) (reorderIPs ips order) = filter (\<lambda>p. IP_To4 p \<noteq> []) ips"
  "filter (\<lambda>p. IP_To4 p = []) (reorderIPs ips order) = filter (\<lambda>p. IP_To4 p = []) ips"
  by (simp_all add: reorderIPs_def Let_def filter_empty_conv)

text \<open>
  Reordering an answer loses and invents no address, and within a family the
  resolver's order is kept; with \<open>ipv4first\<close> no IPv4 address comes behind an IPv6
  address.
\<close>

theorem reorderIPs_stable:
  "mset (reorderIPs ips order) = mset ips
   \<and> filter (\<lambda>p. IP_To4 p \<noteq> []) (reorderIPs ips order) = filter (\<lambda>p. IP_To4 p \<noteq> []) ips
   \<and> filter (\<lambda>p. IP_To4 p = []) (reorderIPs ips order) = filter (\<lambda>p. IP_To4 p = []) ips
   \<and> sorted_wrt (\<lambda>p q. IP_To4 q \<noteq> [] \<longrightarrow> IP_To4 p \<noteq> []) (reorderIPs ips ''ipv4first'')"
proof -
  have s4: "sorted_wrt (\<lambda>p q. IP_To4 q \<noteq> [] \<longrightarrow> IP_To4 p \<noteq> []) (filter (\<lambda>p. IP_To4 p \<noteq> []) xs)" for xs
    by (induction xs) auto
  have s6: "sorted_wrt (\<lambda>p q. IP_To4 q \<noteq> [] \<longrightarrow> IP_To4 p \<noteq> []) (filter (\<lambda>p. IP_To4 p = []) xs)" for xs
    by (induction xs) auto
  have "sorted_wrt (\<lambda>p q. IP_To4 q \<noteq> [] \<longrightarrow> IP_To4 p \<noteq> []) (reorderIPs ips ''ipv4first'')"
  proof (cases "1 < length ips")
    case True
    then have "reorderIPs ips ''ipv4first'' = filter (\<lambda>p. IP_To4 p \<noteq> []) ips @ filter (\<lambda>p. IP_To4 p = []) ips"
      by (auto simp: reorderIPs_def Let_def go_eval)
    then show ?thesis using s4 [of ips] s6 [of ips] by (simp add: sorted_wrt_append)
  next
    case False
    moreover have "length (reorderIPs ips ''ipv4first'') = length ips"
      by (rule mset_eq_length [OF mset_reorderIPs])
    ultimately have "length (reorderIPs ips ''ipv4first'') < 2" by simp
    then show ?thesis
      by (cases "reorderIPs ips ''ipv4first''"; cases "tl (reorderIPs ips ''ipv4first'')") auto
  qed
  then show ?thesis
    by (simp add: mset_reorderIPs reorderIPs_families)
qed

theorem reorderIPs_stable_witness:
  "sorted_wrt (\<lambda>p q. IP_To4 q \<noteq> [] \<longrightarrow> IP_To4 p \<noteq> [])
     (reorderIPs [replicate 16 1, [192, 0, 2, 1]] ''ipv4first'')"
  using reorderIPs_stable [of "[replicate 16 1, [192, 0, 2, 1]]" "[]"] by blast

text \<open>
  C34: Within the time to live a host is resolved once: after a lookup at \<open>now'\<close>, any
  lookup of the same host before the answer expires gives the same answer or error, with
  no regard to the resolver, and leaves the cache unchanged.
\<close>

theorem LookupIPAddr_cached:
  assumes miss: "dc_cache d host = None \<or> (\<exists>e. dc_cache d host = Some e \<and> dns_expiresAt e \<le> now)"
    and within: "later < now' + dc_ttl d"
  shows "LookupIPAddr other later later' host (snd (LookupIPAddr resolve now now' host d))
     = (fst (LookupIPAddr resolve now now' host d), snd (LookupIPAddr resolve now now' host d))"
proof (cases "ParseIP host = []")
  case True
  have "(case dc_cache d host of
           Some e \<Rightarrow> if now < dns_expiresAt e then Some e else None | None \<Rightarrow> None) = None"
    using miss by auto
  with True within show ?thesis
    by (cases "resolve host") (simp_all add: LookupIPAddr_def)
qed (simp add: LookupIPAddr_def)

theorem LookupIPAddr_cached_witness:
  "fst (LookupIPAddr (\<lambda>h. DnsErr ()) 60000000000 60000000000 ''example.org''
      (snd (LookupIPAddr (\<lambda>h. DnsOk [[192, 0, 2, 1]]) 0 5 ''example.org''
        (NewDNSCache [] 0 ''resolve'' ''ipv4first''))))
    = DnsOk [[192, 0, 2, 1]]"
proof -
  have "ParseIP ''example.org'' = []"
    by (simp add: go_eval)
  then show ?thesis
    using LookupIPAddr_cached [of "NewDNSCache [] 0 ''resolve'' ''ipv4first''" "''example.org''" 0
        60000000000 5 "\<lambda>h. DnsErr ()" 60000000000 "\<lambda>h. DnsOk [[192, 0, 2, 1]]"]
    by (simp add: NewDNSCache_def second_def LookupIPAddr_def reorderIPs_def go_int_def)
qed

text \<open>
  A literal address is answered by itself: neither the resolver nor the cache can turn
  it into another address.
\<close>

theorem LookupIPAddr_literal:
  assumes "ParseIP host \<noteq> []"
  shows "LookupIPAddr resolve now now' host d = (DnsOk [ParseIP host], d)"
  using assms by (simp add: LookupIPAddr_def)

theorem LookupIPAddr_literal_witness:
  "fst (LookupIPAddr (\<lambda>h. DnsErr ()) 0 0 ''127.0.0.1'' (NewDNSCache [] 0 [] []))
     = DnsOk [ParseIP ''127.0.0.1'']"
  by (subst LookupIPAddr_literal) (simp_all add: go_eval)

text \<open>
  The background expiry is invisible to lookups: an entry it removes at \<open>now\<close> would not
  have been used by any lookup from then on.
\<close>

lemma LookupIPAddr_expire:
  "t \<le> now \<Longrightarrow>
   fst (LookupIPAddr resolve now now' host (dns_expire t d)) = fst (LookupIPAddr resolve now now' host d)"
  by (auto simp: LookupIPAddr_def dns_expire_def split: option.split dns_result.split)

lemma NewDNSCache_ttl_pos: "0 < dc_ttl (NewDNSCache servers s meth order)"
  by (simp add: NewDNSCache_def Let_def second_def)

lemma cleanup_interval_pos: "0 < cleanup_interval d"
  by (simp add: cleanup_interval_def second_def)

end
