(* ===== verification/Wisp_State.thy ===== *)
theory Wisp_State
  imports Conn_Wire Egress Rate_Limits Reputation Signature DNS_Cache
begin

text \<open>
  The state of one connection (\<open>wisp/types.go\<close>) and its elementary operations: the streams
  and their registry, the per-connection counters, the terminals, the globals it shares
  with the other connections, and the goroutines it has started. A stream is reached by a
  pointer, an index into \<open>wc_heap\<close>; the registry and the lookup cache hold pointers, so
  their aliasing is explicit.
\<close>

section \<open>Types\<close>

datatype ingressPool = ingressPoolNone | ingressPoolWS | ingressPoolCopy

record ingressJob =
  ij_payload :: bytes
  ij_bufp :: "nat option"
  ij_pool :: ingressPool

text \<open>\<open>connReady\<close> is closed exactly when \<open>connReadyDone\<close> is set.\<close>

record wispStream =
  ws_streamId :: u32
  ws_streamType :: u8
  ws_conn :: "go_conn option"
  ws_bufferRemaining :: u32
  ws_hostname :: string
  ws_portNum :: int
  ws_connReadyDone :: bool
  ws_isOpen :: bool
  ws_pendingData :: "bytes list"
  ws_pendingBytes :: int
  ws_ingressActive :: bool
  ws_pendingIngress :: "ingressJob list"
  ws_ingressWriting :: bool

record twispStream =
  ts_streamId :: u32
  ts_ptmx :: go_conn
  ts_isOpen :: bool
  ts_killed :: bool
  ts_winsize :: "u16 \<times> u16"

record Globals =
  g_PerSource :: "SlidingWindow option"
  g_PerDestSec :: "SlidingWindow option"
  g_PerDestMin :: "SlidingWindow option"
  g_InFlightSyns :: "Semaphore option"
  g_Connections :: "Semaphore option"
  g_Egress :: EgressPolicy
  g_Reputation :: "Reputation option"
  g_Signature :: "Signatures option"

text \<open>
  The goroutines a connection starts, each with the point it has reached: \<open>handleConnect\<close>
  before its checks, waiting for the dial, writing the data that arrived meanwhile, about
  to signal, reading; the closings and the terminals.
\<close>

datatype task =
    ConnectTask nat u8 string string
  | DialTask nat u8 string string bool
  | FlushTask nat "bytes list"
  | ReadyTask nat
  | ReadTask nat
  | CloseTask nat u8
  | TwispTask u32 string
  | PtyTask nat
  | WaitTask nat
  | TwispCloseTask nat u8

text \<open>An outgoing connection attempt: directly to an address, or through the proxy.\<close>

datatype dial = DirectDial string string | ProxyDial string string

text \<open>
  The connection. \<open>wc_globals\<close>, \<open>wc_dns\<close> and the buffer pools are shared with the other
  connections and carried along as this connection sees them; \<open>wc_wsPool\<close> and
  \<open>wc_copyPool\<close> record the payload buffers put back, \<open>wc_tasks\<close> the goroutines running,
  \<open>wc_dials\<close> the connection attempts made, \<open>wc_panic\<close> a dereferenced nil connection.
\<close>

record wispConnection =
  wc_wire :: wire
  wc_streams :: "u32 \<rightharpoonup> nat"
  wc_heap :: "wispStream list"
  wc_streamCache :: "(u32 \<times> nat option) list"
  wc_streamCount :: int
  wc_config :: Config
  wc_twispStreams :: "(u32 \<rightharpoonup> nat) option"
  wc_theap :: "twispStream list"
  wc_remoteIP :: string
  wc_isV2 :: bool
  wc_handshakeDone :: "bool option"
  wc_streamConfirm :: bool
  wc_authenticated :: bool
  wc_connID :: u64
  wc_violations :: int
  wc_globals :: "Globals option"
  wc_dns :: "string DNSCache"
  wc_tasks :: "task list"
  wc_dials :: "dial list"
  wc_wsPool :: "nat list"
  wc_copyPool :: "nat list"
  wc_panic :: bool

text \<open>What the outside world answers in a step: the time, the resolver, the proxy library.\<close>

record env =
  e_now :: time
  e_later :: time
  e_resolve :: "string \<Rightarrow> (string, ip list) dns_result"
  e_socks5_ok :: "string \<Rightarrow> bool"

section \<open>Elementary operations\<close>

abbreviation stream_at :: "nat \<Rightarrow> wispConnection \<Rightarrow> wispStream" where
  "stream_at p c \<equiv> wc_heap c ! p"

definition upd_stream :: "nat \<Rightarrow> (wispStream \<Rightarrow> wispStream) \<Rightarrow> wispConnection \<Rightarrow> wispConnection" where
  "upd_stream p f c = c\<lparr>wc_heap := (wc_heap c)[p := f (wc_heap c ! p)]\<rparr>"

definition on_wire :: "(wire \<Rightarrow> wire) \<Rightarrow> wispConnection \<Rightarrow> wispConnection" where
  "on_wire f c = c\<lparr>wc_wire := f (wc_wire c)\<rparr>"

definition spawn :: "task \<Rightarrow> wispConnection \<Rightarrow> wispConnection" where
  "spawn t c = c\<lparr>wc_tasks := wc_tasks c @ [t]\<rparr>"

text \<open>The pool operations of \<open>releaseIngressJob\<close>, and the buffer of a frame put back.\<close>

definition put_ws_buf :: "nat option \<Rightarrow> wispConnection \<Rightarrow> wispConnection" where
  "put_ws_buf b c = (case b of None \<Rightarrow> c | Some i \<Rightarrow> c\<lparr>wc_wsPool := wc_wsPool c @ [i]\<rparr>)"

definition releaseIngressJob :: "ingressJob \<Rightarrow> wispConnection \<Rightarrow> wispConnection" where
  "releaseIngressJob j c =
     (case ij_bufp j of
        None \<Rightarrow> c
      | Some i \<Rightarrow>
          (case ij_pool j of
             ingressPoolWS \<Rightarrow> c\<lparr>wc_wsPool := wc_wsPool c @ [i]\<rparr>
           | ingressPoolCopy \<Rightarrow> c\<lparr>wc_copyPool := wc_copyPool c @ [i]\<rparr>
           | ingressPoolNone \<Rightarrow> c))"

subsection \<open>Counters and reputation\<close>

definition violation :: "wispConnection \<Rightarrow> wispConnection" where
  "violation c =
     (case cfg_FloodProtection (wc_config c) of
        None \<Rightarrow> c
      | Some fp \<Rightarrow>
          if fp_WsCloseAfterViolations fp \<le> 0 then c
          else if go_int32 (fp_WsCloseAfterViolations fp) \<le> go_int32 (wc_violations c + 1)
          then on_wire wire_close (c\<lparr>wc_violations := go_int32 (wc_violations c + 1)\<rparr>)
          else c\<lparr>wc_violations := go_int32 (wc_violations c + 1)\<rparr>)"

definition repAddSource :: "time \<Rightarrow> string \<Rightarrow> wispConnection \<Rightarrow> wispConnection" where
  "repAddSource now reason c =
     (case wc_globals c of
        None \<Rightarrow> c
      | Some g \<Rightarrow>
          c\<lparr>wc_globals := Some (g\<lparr>g_Reputation :=
              map_option (AddSource now (wc_remoteIP c) reason) (g_Reputation g)\<rparr>)\<rparr>)"

definition repAddDest :: "time \<Rightarrow> string \<Rightarrow> int \<Rightarrow> string \<Rightarrow> wispConnection \<Rightarrow> wispConnection" where
  "repAddDest now ip port reason c =
     (case wc_globals c of
        None \<Rightarrow> c
      | Some g \<Rightarrow>
          c\<lparr>wc_globals := Some (g\<lparr>g_Reputation :=
              map_option (AddDest now ip port reason (ParseIP (wc_remoteIP c))) (g_Reputation g)\<rparr>)\<rparr>)"

subsection \<open>The registry of streams\<close>

definition streamCacheSize :: nat where "streamCacheSize = 32"

definition cache_slot :: "u32 \<Rightarrow> nat" where
  "cache_slot streamId = unat (streamId AND 31)"

definition deleteWispStream :: "u32 \<Rightarrow> wispConnection \<Rightarrow> wispConnection" where
  "deleteWispStream streamId c =
     c\<lparr>wc_streams := (wc_streams c)(streamId := None),
       wc_streamCache :=
         (if fst (wc_streamCache c ! cache_slot streamId) = streamId
          then (wc_streamCache c)[cache_slot streamId := (streamId, None)]
          else wc_streamCache c),
       wc_streamCount := go_int32 (wc_streamCount c - 1)\<rparr>"

subsection \<open>Closing a stream\<close>

definition signalConnReady :: "nat \<Rightarrow> wispConnection \<Rightarrow> wispConnection" where
  "signalConnReady p c =
     (if ws_connReadyDone (stream_at p c) then c
      else upd_stream p (\<lambda>s. s\<lparr>ws_connReadyDone := True\<rparr>) c)"

definition stream_close_conn :: "nat \<Rightarrow> wispConnection \<Rightarrow> wispConnection" where
  "stream_close_conn p c = upd_stream p (\<lambda>s. s\<lparr>ws_conn := map_option nc_Close (ws_conn s)\<rparr>) c"

definition stream_drain :: "nat \<Rightarrow> wispConnection \<Rightarrow> wispConnection" where
  "stream_drain p c =
     (if ws_ingressActive (stream_at p c) then
        (if \<not> ws_ingressWriting (stream_at p c) then
           fold releaseIngressJob (ws_pendingIngress (stream_at p c))
             (upd_stream p (\<lambda>s. s\<lparr>ws_ingressActive := False, ws_pendingIngress := []\<rparr>) c)
         else upd_stream p (\<lambda>s. s\<lparr>ws_ingressActive := False\<rparr>) c)
      else c)"

text \<open>
  \<open>wispStream.close\<close>: the first caller marks the stream closed, wakes the waiters, removes
  it from the registry, closes its connection, drains its queue and tells the client.
\<close>

definition stream_close :: "nat \<Rightarrow> u8 \<Rightarrow> wispConnection \<Rightarrow> wispConnection" where
  "stream_close p reason c =
     (if \<not> ws_isOpen (stream_at p c) then c
      else
        on_wire (sendClosePacket (ws_streamId (stream_at p c)) reason)
          (stream_drain p
            (stream_close_conn p
              (deleteWispStream (ws_streamId (stream_at p c))
                (signalConnReady p (upd_stream p (\<lambda>s. s\<lparr>ws_isOpen := False\<rparr>) c))))))"

subsection \<open>Terminals\<close>

definition twisp_get :: "u32 \<Rightarrow> wispConnection \<Rightarrow> nat option" where
  "twisp_get streamId c =
     (case wc_twispStreams c of None \<Rightarrow> None | Some m \<Rightarrow> m streamId)"

definition twisp_add :: "u32 \<Rightarrow> nat \<Rightarrow> wispConnection \<Rightarrow> wispConnection" where
  "twisp_add streamId q c =
     c\<lparr>wc_twispStreams := map_option (\<lambda>m. m(streamId \<mapsto> q)) (wc_twispStreams c)\<rparr>"

definition twisp_remove :: "u32 \<Rightarrow> wispConnection \<Rightarrow> wispConnection" where
  "twisp_remove streamId c =
     c\<lparr>wc_twispStreams := map_option (\<lambda>m. m(streamId := None)) (wc_twispStreams c)\<rparr>"

definition upd_twisp :: "nat \<Rightarrow> (twispStream \<Rightarrow> twispStream) \<Rightarrow> wispConnection \<Rightarrow> wispConnection" where
  "upd_twisp q f c = c\<lparr>wc_theap := (wc_theap c)[q := f (wc_theap c ! q)]\<rparr>"

definition twisp_close :: "nat \<Rightarrow> u8 \<Rightarrow> wispConnection \<Rightarrow> wispConnection" where
  "twisp_close q reason c =
     (if \<not> ts_isOpen (wc_theap c ! q) then c
      else
        on_wire (sendClosePacket (ts_streamId (wc_theap c ! q)) reason)
          (upd_twisp q (\<lambda>t. t\<lparr>ts_ptmx := nc_Close (ts_ptmx t), ts_killed := True\<rparr>)
            (twisp_remove (ts_streamId (wc_theap c ! q))
              (upd_twisp q (\<lambda>t. t\<lparr>ts_isOpen := False\<rparr>) c))))"

definition twisp_resize :: "nat \<Rightarrow> u16 \<Rightarrow> u16 \<Rightarrow> wispConnection \<Rightarrow> wispConnection" where
  "twisp_resize q rows cols c = upd_twisp q (\<lambda>t. t\<lparr>ts_winsize := (rows, cols)\<rparr>) c"

end
