(* ===== verification/Stream_Connect.thy ===== *)
theory Stream_Connect
  imports Wisp_State
begin

text \<open>
  The goroutine of a stream (\<open>wispStream.handleConnect\<close> of \<open>wisp/wisp-stream.go\<close>): the host
  and port filters, the resolution of the target under the egress policy, the limits, the
  dial, and what follows it. The function is cut where it can block: before the dial, after
  it, after the flush of the data that came meanwhile, and at each read from the target.
\<close>

section \<open>Filters and resolution\<close>

text \<open>Names are folded and trimmed as ASCII; see \<open>Go_Strings\<close> for what this leaves out.\<close>

definition NormalizeTargetHostname :: "string \<Rightarrow> string" where
  "NormalizeTargetHostname host =
     strings_TrimSuffix (strings_TrimSpace (strings_ToLower host)) ''.''"

text \<open>The whitelist, when there is one, takes the place of the blacklist.\<close>

definition hostname_blocked :: "Config \<Rightarrow> string \<Rightarrow> bool" where
  "hostname_blocked cfg host =
     (if Hostnames (cfg_Whitelist cfg) \<noteq> {} then host \<notin> Hostnames (cfg_Whitelist cfg)
      else if Hostnames (cfg_Blacklist cfg) \<noteq> {} then host \<in> Hostnames (cfg_Blacklist cfg)
      else False)"

definition port_blocked :: "Config \<Rightarrow> u16 \<Rightarrow> bool" where
  "port_blocked cfg port =
     (if Ports (cfg_Whitelist cfg) \<noteq> {} then port \<notin> Ports (cfg_Whitelist cfg)
      else if Ports (cfg_Blacklist cfg) \<noteq> {} then port \<in> Ports (cfg_Blacklist cfg)
      else False)"

datatype resolution = TargetBlocked | TargetUnreachable | Target string

text \<open>The first address of the answer that the policy allows.\<close>

definition pick_address :: "EgressPolicy \<Rightarrow> ip list \<Rightarrow> ip option" where
  "pick_address policy ips = find (\<lambda>ip. fst (Evaluate (Some policy) ip)) ips"

definition resolve_target ::
    "Config \<Rightarrow> env \<Rightarrow> string \<Rightarrow> string DNSCache \<Rightarrow> resolution \<times> string DNSCache" where
  "resolve_target cfg e hostname dns =
     (if ParseIP hostname \<noteq> [] then
        (if \<not> cfg_AllowDirectIP cfg then (TargetBlocked, dns)
         else if \<not> fst (Evaluate (Some (PolicyFromConfig cfg)) (ParseIP hostname))
         then (TargetBlocked, dns)
         else (Target (IP_String (ParseIP hostname)), dns))
      else if cfg_hasDNSCache cfg \<and> hostname \<notin> Hostnames (cfg_Whitelist cfg) then
        (case LookupIPAddr (e_resolve e) (e_now e) (e_later e) hostname dns of
           (DnsErr _, dns') \<Rightarrow> (TargetUnreachable, dns')
         | (DnsOk ips, dns') \<Rightarrow>
             if ips = [] then (TargetUnreachable, dns')
             else (case pick_address (PolicyFromConfig cfg) ips of
                 Some ip \<Rightarrow> (Target (IP_String ip), dns')
               | None \<Rightarrow> (TargetBlocked, dns')))
      else (Target hostname, dns))"

section \<open>Limits\<close>

text \<open>
  The shared limiters as seen from a connection: each consults and updates one field of the
  globals; without globals, or without the limiter, everything passes.
\<close>

definition allow_per_source :: "time \<Rightarrow> string \<Rightarrow> wispConnection \<Rightarrow> bool \<times> wispConnection" where
  "allow_per_source now key c =
     (case wc_globals c of
        None \<Rightarrow> (True, c)
      | Some g \<Rightarrow> (fst (Allow now key (g_PerSource g)),
          c\<lparr>wc_globals := Some (g\<lparr>g_PerSource := snd (Allow now key (g_PerSource g))\<rparr>)\<rparr>))"

definition allow_dest_sec :: "time \<Rightarrow> string \<Rightarrow> wispConnection \<Rightarrow> bool \<times> wispConnection" where
  "allow_dest_sec now key c =
     (case wc_globals c of
        None \<Rightarrow> (True, c)
      | Some g \<Rightarrow> (fst (Allow now key (g_PerDestSec g)),
          c\<lparr>wc_globals := Some (g\<lparr>g_PerDestSec := snd (Allow now key (g_PerDestSec g))\<rparr>)\<rparr>))"

definition allow_dest_min :: "time \<Rightarrow> string \<Rightarrow> wispConnection \<Rightarrow> bool \<times> wispConnection" where
  "allow_dest_min now key c =
     (case wc_globals c of
        None \<Rightarrow> (True, c)
      | Some g \<Rightarrow> (fst (Allow now key (g_PerDestMin g)),
          c\<lparr>wc_globals := Some (g\<lparr>g_PerDestMin := snd (Allow now key (g_PerDestMin g))\<rparr>)\<rparr>))"

definition dest_strict :: "string \<Rightarrow> int \<Rightarrow> wispConnection \<Rightarrow> bool" where
  "dest_strict host port c =
     (case wc_globals c of
        None \<Rightarrow> False
      | Some g \<Rightarrow> (case g_Reputation g of
            None \<Rightarrow> False
          | Some r \<Rightarrow> Tier r (DestScore host port r) = TierStrict))"

text \<open>The slot for a TCP dial: granted or not, and whether one must be given back.\<close>

definition acquire_syn :: "u8 \<Rightarrow> wispConnection \<Rightarrow> bool \<times> bool \<times> wispConnection" where
  "acquire_syn streamType c =
     (case wc_globals c of
        None \<Rightarrow> (True, False, c)
      | Some g \<Rightarrow>
          if g_InFlightSyns g \<noteq> None \<and> streamType = streamTypeTCP then
            (fst (TryAcquire (g_InFlightSyns g)), fst (TryAcquire (g_InFlightSyns g)),
             c\<lparr>wc_globals := Some (g\<lparr>g_InFlightSyns := snd (TryAcquire (g_InFlightSyns g))\<rparr>)\<rparr>)
          else (True, False, c))"

definition release_syn :: "bool \<Rightarrow> wispConnection \<Rightarrow> wispConnection" where
  "release_syn acquired c =
     (if acquired then
        (case wc_globals c of
           None \<Rightarrow> c
         | Some g \<Rightarrow> c\<lparr>wc_globals := Some (g\<lparr>g_InFlightSyns := Release (g_InFlightSyns g)\<rparr>)\<rparr>)
      else c)"

section \<open>Dialling\<close>

definition stripScheme :: "string \<Rightarrow> string" where
  "stripScheme url =
     (case strings_Index url ''://'' of Some i \<Rightarrow> drop (i + 3) url | None \<Rightarrow> url)"

definition proxy_address :: "string \<Rightarrow> string" where
  "proxy_address p =
     stripScheme (strings_Replace1
       (strings_Replace1 p ''socks5h://'' ''socks5://'') ''socks4a://'' ''socks4://'')"

text \<open>The choice of the dial; \<open>Inl\<close> is the reason for which the stream is closed instead.\<close>

definition choose_dial :: "Config \<Rightarrow> env \<Rightarrow> u8 \<Rightarrow> string \<Rightarrow> string \<Rightarrow> string \<Rightarrow> u8 + dial" where
  "choose_dial cfg e streamType hostname resolved port =
     (if streamType = streamTypeTCP then
        (if cfg_Proxy cfg \<noteq> [] then
           (if \<not> e_socks5_ok e (proxy_address (cfg_Proxy cfg)) then Inl closeReasonNetworkError
            else Inr (ProxyDial (proxy_address (cfg_Proxy cfg)) (JoinHostPort hostname port)))
         else Inr (DirectDial ''tcp'' (JoinHostPort resolved port)))
      else if streamType = streamTypeUDP then
        (if cfg_Proxy cfg \<noteq> [] \<or> \<not> cfg_AllowUDP cfg then Inl closeReasonBlocked
         else Inr (DirectDial ''udp'' (JoinHostPort resolved port)))
      else Inl closeReasonInvalidInfo)"

definition connect_dial ::
    "env \<Rightarrow> nat \<Rightarrow> u8 \<Rightarrow> string \<Rightarrow> string \<Rightarrow> bool \<Rightarrow> wispConnection \<Rightarrow> wispConnection" where
  "connect_dial e p streamType resolved port acquired c0 =
     (let c = upd_stream p (\<lambda>s. s\<lparr>ws_streamType := streamType,
                ws_bufferRemaining := cfg_BufferRemainingLength (wc_config c0)\<rparr>) c0
      in case choose_dial (wc_config c) e streamType (ws_hostname (stream_at p c)) resolved port of
           Inl reason \<Rightarrow> signalConnReady p (stream_close p reason (release_syn acquired c))
         | Inr d \<Rightarrow> spawn (DialTask p streamType resolved port acquired)
             (c\<lparr>wc_dials := wc_dials c @ [d]\<rparr>))"

text \<open>The limits on a destination, in the order of the code, and then the dial.\<close>

definition connect_limits ::
    "env \<Rightarrow> nat \<Rightarrow> u8 \<Rightarrow> string \<Rightarrow> string \<Rightarrow> wispConnection \<Rightarrow> wispConnection" where
  "connect_limits e p streamType port resolved c =
     (case allow_dest_sec (e_now e) (JoinHostPort resolved port) c of (ok1, c1) \<Rightarrow>
        if \<not> ok1 then
          signalConnReady p (stream_close p closeReasonThrottled
            (repAddDest (e_now e) resolved (ws_portNum (stream_at p c)) ''burstRate''
              (repAddSource (e_now e) ''burstRate'' (violation c1))))
        else case allow_dest_min (e_now e) (JoinHostPort resolved port) c1 of (ok2, c2) \<Rightarrow>
          if \<not> ok2 then signalConnReady p (stream_close p closeReasonThrottled (violation c2))
          else if dest_strict resolved (ws_portNum (stream_at p c)) c2 then
            signalConnReady p (stream_close p closeReasonBlocked
              (repAddSource (e_now e) ''requestKnownBadDest'' c2))
          else case acquire_syn streamType c2 of (ok3, acquired, c3) \<Rightarrow>
            if \<not> ok3 then signalConnReady p (stream_close p closeReasonThrottled (violation c3))
            else connect_dial e p streamType resolved port acquired c3)"

definition connect_start ::
    "env \<Rightarrow> nat \<Rightarrow> u8 \<Rightarrow> string \<Rightarrow> string \<Rightarrow> wispConnection \<Rightarrow> wispConnection" where
  "connect_start e p streamType port hostname c0 =
     (let c = upd_stream p (\<lambda>s. s\<lparr>ws_hostname := NormalizeTargetHostname hostname\<rparr>) c0;
          cfg = wc_config c
      in if hostname_blocked cfg (NormalizeTargetHostname hostname)
            \<or> port_blocked cfg (of_int (ws_portNum (stream_at p c)))
         then signalConnReady p (stream_close p closeReasonBlocked c)
         else case resolve_target cfg e hostname (wc_dns c) of
             (TargetBlocked, dns) \<Rightarrow>
               signalConnReady p (stream_close p closeReasonBlocked (c\<lparr>wc_dns := dns\<rparr>))
           | (TargetUnreachable, dns) \<Rightarrow>
               signalConnReady p (stream_close p closeReasonUnreachable (c\<lparr>wc_dns := dns\<rparr>))
           | (Target resolved, dns) \<Rightarrow> connect_limits e p streamType port resolved (c\<lparr>wc_dns := dns\<rparr>))"

section \<open>After the dial\<close>

definition mapDialError :: "string option \<Rightarrow> u8" where
  "mapDialError err =
     (case err of
        None \<Rightarrow> closeReasonUnspecified
      | Some errStr \<Rightarrow>
          if strings_Contains errStr ''connection refused'' then closeReasonConnectionRefused
          else if strings_Contains errStr ''no such host'' \<or> strings_Contains errStr ''no address''
          then closeReasonUnreachable
          else if strings_Contains errStr ''timeout'' \<or> strings_Contains errStr ''deadline exceeded''
          then closeReasonTimeout
          else if strings_Contains errStr ''network is unreachable''
                  \<or> strings_Contains errStr ''host is unreachable''
          then closeReasonUnreachable
          else closeReasonNetworkError)"

text \<open>The SYN-flood detector: the outcome is recorded; \<open>True\<close> when the pattern matches.\<close>

definition record_dial ::
    "time \<Rightarrow> u8 \<Rightarrow> string \<Rightarrow> int \<Rightarrow> bool \<Rightarrow> wispConnection \<Rightarrow> bool \<times> wispConnection" where
  "record_dial now streamType resolved port success c =
     (case wc_globals c of
        None \<Rightarrow> (False, c)
      | Some g \<Rightarrow> (case g_Signature g of
            None \<Rightarrow> (False, c)
          | Some sg \<Rightarrow>
              if streamType \<noteq> streamTypeTCP then (False, c)
              else (case Signatures_For (wc_connID c) resolved port sg of (det, sg1) \<Rightarrow>
                (Signatures_Match det (Signatures_Record now success det sg1),
                 c\<lparr>wc_globals := Some (g\<lparr>g_Signature :=
                     Some (Signatures_Record now success det sg1)\<rparr>)\<rparr>))))"

text \<open>
  The outcome of the dial is an error text or a connection. On success the stream gets the
  connection, a confirmation is sent if the client asked for it, and the data received so
  far is taken over for writing.
\<close>

definition connect_dialed ::
    "env \<Rightarrow> nat \<Rightarrow> u8 \<Rightarrow> string \<Rightarrow> bool \<Rightarrow> string + go_conn \<Rightarrow> wispConnection \<Rightarrow> wispConnection" where
  "connect_dialed e p streamType resolved acquired outcome c0 =
     (let c1 = release_syn acquired
            (upd_stream p (\<lambda>s. s\<lparr>ws_conn := (case outcome of Inl _ \<Rightarrow> None | Inr k \<Rightarrow> Some k)\<rparr>) c0)
      in case record_dial (e_now e) streamType resolved (ws_portNum (stream_at p c0))
                (\<not> isl outcome) c1 of (matched, c2) \<Rightarrow>
        if matched then
          signalConnReady p (on_wire wire_close (stream_close p closeReasonBlocked
            (stream_close_conn p
              (repAddDest (e_now e) resolved (ws_portNum (stream_at p c0)) ''synSignature''
                (repAddSource (e_now e) ''synSignature'' c2)))))
        else (case outcome of
            Inl err \<Rightarrow> signalConnReady p (stream_close p (mapDialError (Some err)) c2)
          | Inr _ \<Rightarrow>
              (let c3 = (if wc_streamConfirm c2 \<and> streamType = streamTypeTCP
                         then on_wire (sendPacket (ws_streamId (stream_at p c2))
                                (ws_bufferRemaining (stream_at p c2))) c2
                         else c2)
               in spawn (FlushTask p (ws_pendingData (stream_at p c3)))
                    (upd_stream p (\<lambda>s. s\<lparr>ws_pendingData := [], ws_pendingBytes := 0\<rparr>) c3))))"

text \<open>Writing one piece to the target: \<open>None\<close> would be a nil connection.\<close>

definition stream_write :: "nat \<Rightarrow> bytes \<Rightarrow> wispConnection \<Rightarrow> bool \<times> wispConnection" where
  "stream_write p d c =
     (case ws_conn (stream_at p c) of
        None \<Rightarrow> (False, c\<lparr>wc_panic := True\<rparr>)
      | Some k \<Rightarrow> (fst (nc_Write d k),
          upd_stream p (\<lambda>s. s\<lparr>ws_conn := Some (snd (nc_Write d k))\<rparr>) c))"

fun connect_flush :: "nat \<Rightarrow> bytes list \<Rightarrow> wispConnection \<Rightarrow> wispConnection" where
  "connect_flush p [] c =
     spawn (ReadyTask p)
       (if ws_streamType (stream_at p c) = streamTypeTCP
        then upd_stream p (\<lambda>s. s\<lparr>ws_ingressActive := True\<rparr>) c else c)"
| "connect_flush p (d # ds) c =
     (if \<not> ws_isOpen (stream_at p c) then signalConnReady p c
      else if fst (stream_write p d c) then connect_flush p ds (snd (stream_write p d c))
      else signalConnReady p (stream_close p closeReasonNetworkError (snd (stream_write p d c))))"

definition connect_ready :: "nat \<Rightarrow> wispConnection \<Rightarrow> wispConnection" where
  "connect_ready p c = spawn (ReadTask p) (signalConnReady p c)"

section \<open>Reading from the target\<close>

datatype read_error = EOF | OtherError

text \<open>
  One round of \<open>readFromConnection\<close>: a read gave the bytes \<open>d\<close> (into the buffer number \<open>b\<close>
  behind the 15 bytes \<open>hdr\<close> its header space contained), possibly an error as well. A
  buffer with data is handed to the writer and \<open>b'\<close> taken from the pool in its place; on an
  error the buffer held goes back.
\<close>

definition stream_read ::
    "nat \<Rightarrow> nat \<Rightarrow> nat \<Rightarrow> bytes \<Rightarrow> bytes \<Rightarrow> read_error option \<Rightarrow> wispConnection \<Rightarrow> wispConnection" where
  "stream_read p b b' hdr d err c =
     (let c1 = (if 0 < length d
                then on_wire (queueWritePooled
                       (dataFrame (ws_streamId (stream_at p c)) (length d) (hdr @ d)) b) c
                else c);
          held = (if 0 < length d then b' else b)
      in case err of
           None \<Rightarrow> spawn (ReadTask p) c1
         | Some EOF \<Rightarrow>
             signalConnReady p (stream_close p closeReasonVoluntary (on_wire (put_read_buf held) c1))
         | Some OtherError \<Rightarrow>
             signalConnReady p (stream_close p closeReasonNetworkError (on_wire (put_read_buf held) c1)))"

section \<open>Writing to the target\<close>

text \<open>
  The ingress writer of a stream, the counterpart of \<open>runWriter\<close>: it drains the queue in
  batches; once the stream is closed it only releases the buffers. The result lists the
  jobs released and tells whether the stream must be closed.
\<close>

definition ingress_batch :: "wispStream \<Rightarrow> bool \<times> wispStream" where
  "ingress_batch s =
     (case ws_conn s of
        None \<Rightarrow> (False, s\<lparr>ws_pendingIngress := []\<rparr>)
      | Some k \<Rightarrow> (case nc_Write (concat (map ij_payload (ws_pendingIngress s))) k of (ok, k') \<Rightarrow>
          (ok, s\<lparr>ws_pendingIngress := [], ws_conn := Some k'\<rparr>)))"

function ingress_loop :: "wispStream \<Rightarrow> wispStream \<times> ingressJob list \<times> bool" where
  "ingress_loop s =
     (if ws_pendingIngress s = [] then (s\<lparr>ws_ingressWriting := False\<rparr>, [], False)
      else if \<not> ws_isOpen s then
        (s\<lparr>ws_pendingIngress := [], ws_ingressWriting := False\<rparr>, ws_pendingIngress s, False)
      else if fst (ingress_batch s) then
        (case ingress_loop (snd (ingress_batch s)) of (s', released, failed) \<Rightarrow>
           (s', ws_pendingIngress s @ released, failed))
      else ((snd (ingress_batch s))\<lparr>ws_ingressWriting := False\<rparr>, ws_pendingIngress s, True))"
  by pat_completeness auto
termination
  by (relation "measure (\<lambda>s. length (ws_pendingIngress s))")
    (auto simp: ingress_batch_def split: option.splits prod.splits)

declare ingress_loop.simps [simp del]

definition runIngressWriter :: "nat \<Rightarrow> wispConnection \<Rightarrow> wispConnection" where
  "runIngressWriter p c =
     (case ingress_loop (stream_at p c) of (s, released, failed) \<Rightarrow>
        let c0 = c\<lparr>wc_panic := wc_panic c \<or> ws_conn (stream_at p c) = None\<rparr>;
            c1 = fold releaseIngressJob released (upd_stream p (\<lambda>_. s) c0)
        in if failed then stream_close p closeReasonNetworkError c1 else c1)"

definition submitIngress :: "nat \<Rightarrow> ingressJob \<Rightarrow> wispConnection \<Rightarrow> bool \<times> wispConnection" where
  "submitIngress p job c =
     (if \<not> ws_ingressActive (stream_at p c) \<or> \<not> ws_isOpen (stream_at p c)
      then (False, releaseIngressJob job c)
      else if ws_ingressWriting (stream_at p c) then
        (True, upd_stream p (\<lambda>s. s\<lparr>ws_pendingIngress := ws_pendingIngress s @ [job]\<rparr>) c)
      else (True, runIngressWriter p
          (upd_stream p (\<lambda>s. s\<lparr>ws_pendingIngress := ws_pendingIngress s @ [job],
             ws_ingressWriting := True\<rparr>) c)))"

definition queueIngressOwned :: "nat \<Rightarrow> bytes \<Rightarrow> nat \<Rightarrow> wispConnection \<Rightarrow> bool \<times> wispConnection" where
  "queueIngressOwned p payload bufp c =
     (if \<not> ws_ingressActive (stream_at p c) \<or> \<not> ws_isOpen (stream_at p c)
      then (False, put_ws_buf (Some bufp) c)
      else submitIngress p
        \<lparr>ij_payload = payload, ij_bufp = Some bufp, ij_pool = ingressPoolWS\<rparr> c)"

end
