(* ===== verification/V2_Info.thy ===== *)
theory V2_Info
  imports Ws_Frames
begin

text \<open>
  The INFO packets of Wisp v2 (\<open>wisp/v2.go\<close>): the server's announcement, the parser of the
  client's answer and the password check.
\<close>

section \<open>Passwords\<close>

text \<open>\<open>bcrypt.CompareHashAndPassword\<close> is a parameter.\<close>

definition checkPassword :: "(string \<Rightarrow> string \<Rightarrow> bool) \<Rightarrow> string \<Rightarrow> string \<Rightarrow> bool" where
  "checkPassword bcrypt stored provided =
     (if strings_HasPrefix stored ''$2a$'' \<or> strings_HasPrefix stored ''$2b$''
         \<or> strings_HasPrefix stored ''$2y$''
      then bcrypt stored provided
      else length stored = length provided \<and> list_all2 (=) stored provided)"

lemma checkPassword_plain:
  "\<not> strings_HasPrefix stored ''$2'' \<Longrightarrow> checkPassword bcrypt stored provided \<longleftrightarrow> stored = provided"
proof -
  assume a: "\<not> strings_HasPrefix stored ''$2''"
  then have "\<not> strings_HasPrefix stored ''$2a$'' \<and> \<not> strings_HasPrefix stored ''$2b$''
      \<and> \<not> strings_HasPrefix stored ''$2y$''"
    by (cases stored; cases "tl stored") (auto simp: strings_HasPrefix_def)
  then show ?thesis
    by (auto simp: checkPassword_def list.rel_eq)
qed

section \<open>Building the announcement\<close>

definition addExtension :: "bytes \<Rightarrow> u8 \<Rightarrow> bytes \<Rightarrow> bytes" where
  "addExtension buf i metadata = buf @ i # le32_bytes (of_nat (length metadata)) @ metadata"

definition serverExtensions :: "Config \<Rightarrow> bytes" where
  "serverExtensions cfg =
     (let e0 = [];
          e1 = (if cfg_AllowUDP cfg then addExtension e0 extensionUDP [] else e0);
          e2 = (if cfg_PasswordAuth cfg
                then addExtension e1 extensionPasswordAuth [if cfg_PasswordAuthRequired cfg then 1 else 0]
                else e1)
      in if cfg_Motd cfg \<noteq> [] then addExtension e2 extensionMotd (bytes_of_string (cfg_Motd cfg))
         else e2)"

definition buildServerInfoPacket :: "Config \<Rightarrow> bytes" where
  "buildServerInfoPacket cfg =
     [packetTypeInfo, 0, 0, 0, 0, wispMajorVersion, wispMinorVersion] @ serverExtensions cfg"

section \<open>Parsing the answer\<close>

record Extensions =
  ex_udp :: bool
  ex_streamConfirm :: bool
  ex_passwordUsername :: string
  ex_passwordPassword :: string
  ex_certificateUsername :: string
  ex_certificateSelected :: u8
  ex_certificatePubkeyHash :: bytes
  ex_certificateSig :: bytes

definition noExtensions :: Extensions where
  "noExtensions = \<lparr>ex_udp = False, ex_streamConfirm = False, ex_passwordUsername = [],
     ex_passwordPassword = [], ex_certificateUsername = [], ex_certificateSelected = 0,
     ex_certificatePubkeyHash = replicate 32 0, ex_certificateSig = []\<rparr>"

text \<open>The body of the \<open>switch\<close>; \<open>None\<close> is \<open>errorInvalid\<close>.\<close>

definition apply_extension :: "u8 \<Rightarrow> bytes \<Rightarrow> Extensions \<Rightarrow> Extensions option" where
  "apply_extension extID meta exts =
     (if extID = extensionUDP then Some (exts\<lparr>ex_udp := True\<rparr>)
      else if extID = extensionPasswordAuth then
        (if length meta < 1 then None
         else if length meta < 1 + unat (meta ! 0) then None
         else Some (exts\<lparr>
           ex_passwordUsername := string_of_bytes (take (unat (meta ! 0)) (drop 1 meta)),
           ex_passwordPassword := string_of_bytes (drop (1 + unat (meta ! 0)) meta)\<rparr>))
      else if extID = extensionCertificateAuth then
        (if length meta < 1 then None
         else if length meta < 1 + unat (meta ! 0) + 1 + 32 then None
         else Some (exts\<lparr>
           ex_certificateUsername := string_of_bytes (take (unat (meta ! 0)) (drop 1 meta)),
           ex_certificateSelected := meta ! (1 + unat (meta ! 0)),
           ex_certificatePubkeyHash := take 32 (drop (1 + unat (meta ! 0) + 1) meta),
           ex_certificateSig :=
             (if 1 + unat (meta ! 0) + 1 + 32 < length meta
              then drop (1 + unat (meta ! 0) + 1 + 32) meta else ex_certificateSig exts)\<rparr>))
      else if extID = extensionStreamConfirm then Some (exts\<lparr>ex_streamConfirm := True\<rparr>)
      else Some exts)"

function parse_extensions :: "bytes \<Rightarrow> Extensions \<Rightarrow> Extensions option" where
  "parse_extensions data exts =
     (if length data < 5 then Some exts
      else if of_nat (length (drop 5 data)) < le32_of (take 4 (drop 1 data)) then None
      else case apply_extension (data ! 0)
                  (take (unat (le32_of (take 4 (drop 1 data)))) (drop 5 data)) exts of
          None \<Rightarrow> None
        | Some exts' \<Rightarrow>
            parse_extensions (drop (unat (le32_of (take 4 (drop 1 data)))) (drop 5 data)) exts')"
  by pat_completeness auto
termination
  by (relation "measure (\<lambda>(data, _). length data)") auto

declare parse_extensions.simps [simp del]

definition parseClientInfo :: "bytes \<Rightarrow> Extensions option" where
  "parseClientInfo payload =
     (if length payload < 2 then None else parse_extensions (drop 2 payload) noExtensions)"

section \<open>Properties\<close>

text \<open>One extension on the wire, and a list of them applied in order.\<close>

definition ext_entry :: "u8 \<times> bytes \<Rightarrow> bytes" where
  "ext_entry e = addExtension [] (fst e) (snd e)"

fun apply_all :: "(u8 \<times> bytes) list \<Rightarrow> Extensions \<Rightarrow> Extensions option" where
  "apply_all [] exts = Some exts"
| "apply_all ((i, m) # es) exts =
     (case apply_extension i m exts of None \<Rightarrow> None | Some exts' \<Rightarrow> apply_all es exts')"

lemma addExtension_entry: "addExtension buf i m = buf @ ext_entry (i, m)"
  by (simp add: addExtension_def ext_entry_def)

lemma parse_extensions_entry:
  assumes "length m + length rest < 2 ^ 32"
  shows "parse_extensions (ext_entry (i, m) @ rest) exts =
     (case apply_extension i m exts of None \<Rightarrow> None | Some exts' \<Rightarrow> parse_extensions rest exts')"
proof -
  let ?d = "i # le32_bytes (of_nat (length m)) @ m @ rest"
  have e: "ext_entry (i, m) @ rest = ?d"
    by (simp add: ext_entry_def addExtension_def)
  have len: "le32_of (take 4 (drop 1 ?d)) = of_nat (length m)"
    using le32.take_enc [of "of_nat (length m)" "m @ rest"] by (simp add: codec_simps)
  have d5: "drop 5 ?d = m @ rest"
    using le32.drop_enc [of "of_nat (length m)" "m @ rest"] by simp
  have ge: "\<not> length ?d < 5"
    by (simp add: le32.length_enc)
  have fits: "\<not> (of_nat (length (m @ rest)) :: u32) < of_nat (length m)"
    using assms by (simp add: word_less_nat_alt unat_of_nat flip: of_nat_add)
  have un: "unat (of_nat (length m) :: u32) = length m"
    using assms by (simp add: unat_of_nat)
  have parts: "take (length m) (m @ rest) = m" "drop (length m) (m @ rest) = rest"
    by simp_all
  show ?thesis
    unfolding e
    by (subst parse_extensions.simps) (simp only: len d5 un ge fits parts if_False nth_Cons_0)
qed

lemma length_ext_entry [simp]: "length (ext_entry (i, m)) = 5 + length m"
  by (simp add: ext_entry_def addExtension_def le32.length_enc)

lemma apply_password:
  assumes "length user < 256"
  shows "apply_extension extensionPasswordAuth
       (of_nat (length user) # bytes_of_string user @ bytes_of_string password) exts
     = Some (exts\<lparr>ex_passwordUsername := user, ex_passwordPassword := password\<rparr>)"
  using assms by (simp add: apply_extension_def extension_defs unat_of_nat_byte)

text \<open>
  The client's side: what it may say in an INFO packet and how the v2 extension format puts
  it into bytes. The parser ignores the metadata of the two flags and extensions it does not
  know.
\<close>

datatype client_ext =
    Udp bytes
  | Password string string
  | Certificate string u8 bytes bytes
  | Confirm bytes
  | Unknown u8 bytes

fun ext_wf :: "client_ext \<Rightarrow> bool" where
  "ext_wf (Password user pw) = (length user < 256)"
| "ext_wf (Certificate user sel hash sig) = (length user < 256 \<and> length hash = 32)"
| "ext_wf (Unknown i m) = (i \<noteq> 1 \<and> i \<noteq> 2 \<and> i \<noteq> 3 \<and> i \<noteq> 5)"
| "ext_wf _ = True"

fun ext_code :: "client_ext \<Rightarrow> u8 \<times> bytes" where
  "ext_code (Udp m) = (1, m)"
| "ext_code (Password user pw) = (2, of_nat (length user) # bytes_of_string user @ bytes_of_string pw)"
| "ext_code (Certificate user sel hash sig) =
     (3, of_nat (length user) # bytes_of_string user @ [sel] @ hash @ sig)"
| "ext_code (Confirm m) = (5, m)"
| "ext_code (Unknown i m) = (i, m)"

text \<open>
  What the server should have understood: a flag if it was sent at all, of passwords and
  certificates the last one, and of signatures the last that is not empty.
\<close>

definition last_or :: "'a \<Rightarrow> 'a list \<Rightarrow> 'a" where
  "last_or d xs = (if xs = [] then d else last xs)"

fun passwords :: "client_ext \<Rightarrow> (string \<times> string) list" where
  "passwords (Password user pw) = [(user, pw)]"
| "passwords _ = []"

fun certificates :: "client_ext \<Rightarrow> (string \<times> u8 \<times> bytes) list" where
  "certificates (Certificate user sel hash sig) = [(user, sel, hash)]"
| "certificates _ = []"

fun signatures :: "client_ext \<Rightarrow> bytes list" where
  "signatures (Certificate user sel hash sig) = (if sig = [] then [] else [sig])"
| "signatures _ = []"

definition client_says :: "client_ext list \<Rightarrow> Extensions" where
  "client_says xs =
     (let (user, pw) = last_or ([], []) (concat (map passwords xs));
          (cuser, sel, hash) = last_or ([], 0, replicate 32 0) (concat (map certificates xs)) in
      \<lparr>ex_udp = (\<exists>m. Udp m \<in> set xs), ex_streamConfirm = (\<exists>m. Confirm m \<in> set xs),
        ex_passwordUsername = user, ex_passwordPassword = pw,
        ex_certificateUsername = cuser, ex_certificateSelected = sel, ex_certificatePubkeyHash = hash,
        ex_certificateSig = last_or [] (concat (map signatures xs))\<rparr>)"

text \<open>Metadata that ends before the fields it announces.\<close>

definition ext_truncated :: "u8 \<Rightarrow> bytes \<Rightarrow> bool" where
  "ext_truncated i m =
     (i = 2 \<and> (m = [] \<or> length m < 1 + unat (hd m))
      \<or> i = 3 \<and> (m = [] \<or> length m < 34 + unat (hd m)))"

lemma last_or_simps [simp]: "last_or d [] = d" "last_or d (xs @ [x]) = x"
  by (simp_all add: last_or_def)

lemma apply_ext_code:
  assumes "ext_wf x"
  shows "apply_extension (fst (ext_code x)) (snd (ext_code x)) (client_says xs) = Some (client_says (xs @ [x]))"
  using assms
  by (cases x) (auto simp: apply_extension_def extension_defs client_says_def unat_of_nat_byte
      nth_append drop_Cons' split: prod.splits)

lemma apply_all_append:
  "apply_all (es @ fs) exts = (case apply_all es exts of None \<Rightarrow> None | Some e \<Rightarrow> apply_all fs e)"
  by (induction es exts rule: apply_all.induct) (auto split: option.split)

lemma apply_all_codes: "\<forall>x \<in> set xs. ext_wf x \<Longrightarrow> apply_all (map ext_code xs) noExtensions = Some (client_says xs)"
proof (induction xs rule: rev_induct)
  case Nil
  then show ?case by (simp add: client_says_def noExtensions_def)
next
  case (snoc x xs)
  then show ?case
    using apply_ext_code [of x xs] by (cases "ext_code x") (auto simp: apply_all_append)
qed

lemma apply_truncated: "ext_truncated i m \<Longrightarrow> apply_extension i m exts = None"
  by (cases m) (auto simp: ext_truncated_def apply_extension_def extension_defs)

lemma parse_extensions_prefix:
  "length (concat (map ext_entry es)) + length rest < 2 ^ 32 \<Longrightarrow>
   parse_extensions (concat (map ext_entry es) @ rest) exts
     = (case apply_all es exts of None \<Rightarrow> None | Some e \<Rightarrow> parse_extensions rest e)"
proof (induction es exts rule: apply_all.induct)
  case (1 exts)
  then show ?case by simp
next
  case (2 i m es exts)
  have "parse_extensions (ext_entry (i, m) @ (concat (map ext_entry es) @ rest)) exts =
     (case apply_extension i m exts of None \<Rightarrow> None
      | Some exts' \<Rightarrow> parse_extensions (concat (map ext_entry es) @ rest) exts')"
    by (rule parse_extensions_entry) (use "2.prems" in simp)
  with 2 show ?case
    by (auto split: option.splits)
qed

lemma parse_extensions_list:
  "length (concat (map ext_entry es)) + length rest < 2 ^ 32 \<Longrightarrow> length rest < 5 \<Longrightarrow>
   parse_extensions (concat (map ext_entry es) @ rest) exts = apply_all es exts"
  by (simp add: parse_extensions_prefix parse_extensions.simps [of rest] split: option.split)

text \<open>
  C27: The parser understands what a client says: the INFO payload of a client, two version
  bytes followed by its extensions in the wire format, is read as the flags it set, its
  last password, its last certificate and its last signature, with every field in its
  place; unknown extensions and up to four bytes behind the last one are passed over. If a
  password or certificate extension ends before the fields it announces, or an entry before
  its announced length, the packet is refused, whatever follows.
\<close>

theorem parseClientInfo_encoded:
  assumes "\<forall>x \<in> set xs. ext_wf x"
    and "length (concat (map (ext_entry \<circ> ext_code) xs)) + length rest < 2 ^ 32"
  shows "(length rest < 5 \<longrightarrow>
      parseClientInfo ([major, minor] @ concat (map (ext_entry \<circ> ext_code) xs) @ rest) = Some (client_says xs))
    \<and> (\<forall>i m tail. rest = ext_entry (i, m) @ tail \<and> ext_truncated i m \<longrightarrow>
      parseClientInfo ([major, minor] @ concat (map (ext_entry \<circ> ext_code) xs) @ rest) = None)
    \<and> (\<forall>i n tail. rest = i # le32_bytes n @ tail \<and> length tail < unat n \<longrightarrow>
      parseClientInfo ([major, minor] @ concat (map (ext_entry \<circ> ext_code) xs) @ rest) = None)"
proof -
  have p: "parseClientInfo ([major, minor] @ concat (map (ext_entry \<circ> ext_code) xs) @ rest)
      = parse_extensions rest (client_says xs)"
    using parse_extensions_prefix [of "map ext_code xs" rest noExtensions] assms apply_all_codes [of xs]
    by (simp add: parseClientInfo_def)
  have "parse_extensions (ext_entry (i, m) @ tail) e = None"
    if "rest = ext_entry (i, m) @ tail" "ext_truncated i m" for i m tail e
    using that assms(2) by (subst parse_extensions_entry) (simp_all add: apply_truncated)
  moreover have "parse_extensions (i # le32_bytes n @ tail) e = None"
    if "rest = i # le32_bytes n @ tail" "length tail < unat n" for i n tail e
  proof -
    have "length tail < 2 ^ 32" using assms(2) that by simp
    then have "(of_nat (length tail) :: u32) < n"
      using that by (simp add: word_less_nat_alt unat_of_nat)
    then show ?thesis
      using le32.take_enc [of n tail] le32.drop_enc [of n tail]
      by (subst parse_extensions.simps) (simp add: codec_simps le32.length_enc)
  qed
  ultimately show ?thesis
    unfolding p by (auto simp: parse_extensions.simps [of rest])
qed

theorem parseClientInfo_encoded_witness:
  "parseClientInfo ([2, 1] @ concat (map (ext_entry \<circ> ext_code) [Password ''u'' ''pw'', Confirm []]) @ [9])
   = Some (noExtensions\<lparr>ex_passwordUsername := ''u'', ex_passwordPassword := ''pw'',
       ex_streamConfirm := True\<rparr>)"
  using parseClientInfo_encoded [of "[Password ''u'' ''pw'', Confirm []]" "[9]" 2 1]
  by (simp add: client_says_def noExtensions_def last_or_def)

text \<open>
  The announcement of the server in the same format: a Wisp packet on stream 0 with the
  version and exactly the extensions the configuration turns on.
\<close>

definition announced :: "Config \<Rightarrow> (u8 \<times> bytes) list" where
  "announced cfg =
     (if cfg_AllowUDP cfg then [(extensionUDP, [])] else [])
     @ (if cfg_PasswordAuth cfg
        then [(extensionPasswordAuth, [if cfg_PasswordAuthRequired cfg then 1 else 0])] else [])
     @ (if cfg_Motd cfg \<noteq> [] then [(extensionMotd, bytes_of_string (cfg_Motd cfg))] else [])"

text \<open>
  What the server announces is what it enforces: the INFO packet is the packet type on
  stream 0, the version, and exactly the extensions of the configuration: UDP if it is
  allowed, password authentication with its required flag, and the message of the day.
\<close>

theorem buildServerInfoPacket_announces:
  "buildServerInfoPacket cfg =
     wispPacket packetTypeInfo 0
       ([wispMajorVersion, wispMinorVersion] @ concat (map ext_entry (announced cfg)))"
  by (simp add: buildServerInfoPacket_def serverExtensions_def announced_def addExtension_entry
      wispPacket_def le32_bytes_def Let_def)

end
