(* ===== verification/Twisp.thy ===== *)
theory Twisp
  imports Wisp_State
begin

text \<open>
  Terminals over Wisp (\<open>wisp/twisp.go\<close>; \<open>wisp/windows.go\<close> is the stub that refuses them):
  the command-line splitter, starting a terminal, forwarding its output, its end.
\<close>

section \<open>Splitting a command line\<close>

text \<open>The state of the scan: arguments so far, current argument, in single quotes, in double quotes, escaped.\<close>

record shell_state =
  sh_args :: "string list"
  sh_current :: string
  sh_inSingle :: bool
  sh_inDouble :: bool
  sh_escaped :: bool

definition shell_step :: "char \<Rightarrow> shell_state \<Rightarrow> shell_state" where
  "shell_step ch st =
     (if sh_escaped st then st\<lparr>sh_current := sh_current st @ [ch], sh_escaped := False\<rparr>
      else if ch = CHR 0x5C \<and> \<not> sh_inSingle st then st\<lparr>sh_escaped := True\<rparr>
      else if ch = CHR 0x27 \<and> \<not> sh_inDouble st then st\<lparr>sh_inSingle := \<not> sh_inSingle st\<rparr>
      else if ch = CHR 0x22 \<and> \<not> sh_inSingle st then st\<lparr>sh_inDouble := \<not> sh_inDouble st\<rparr>
      else if ch = CHR '' '' \<and> \<not> sh_inSingle st \<and> \<not> sh_inDouble st then
        (if 0 < length (sh_current st)
         then st\<lparr>sh_args := sh_args st @ [sh_current st], sh_current := []\<rparr> else st)
      else st\<lparr>sh_current := sh_current st @ [ch]\<rparr>)"

definition shell_start :: shell_state where
  "shell_start = \<lparr>sh_args = [], sh_current = [], sh_inSingle = False, sh_inDouble = False,
     sh_escaped = False\<rparr>"

definition shell_finish :: "shell_state \<Rightarrow> string list option" where
  "shell_finish st =
     (if sh_inSingle st \<or> sh_inDouble st then None
      else if 0 < length (sh_current st) then Some (sh_args st @ [sh_current st])
      else Some (sh_args st))"

text \<open>\<open>None\<close> is \<open>io.ErrUnexpectedEOF\<close>.\<close>

definition splitShell :: "string \<Rightarrow> string list option" where
  "splitShell s = shell_finish (fold shell_step s shell_start)"

text \<open>
  The inverse direction, for the round trip: an argument in single quotes, with quotes and
  backslashes inside it escaped outside of them.
\<close>

fun quote_char :: "char \<Rightarrow> string" where
  "quote_char ch =
     (if ch = CHR 0x27 \<or> ch = CHR 0x5C then [CHR 0x5C, ch] else [CHR 0x27, ch, CHR 0x27])"

definition quote_arg :: "string \<Rightarrow> string" where
  "quote_arg a = concat (map quote_char a)"

definition command_line :: "string list \<Rightarrow> string" where
  "command_line args = concat (map (\<lambda>a. quote_arg a @ '' '') args)"

definition plain :: "shell_state \<Rightarrow> bool" where
  "plain st = (\<not> sh_inSingle st \<and> \<not> sh_inDouble st \<and> \<not> sh_escaped st)"

lemma fold_quote_char:
  "plain st \<Longrightarrow> fold shell_step (quote_char ch) st = st\<lparr>sh_current := sh_current st @ [ch]\<rparr>"
  by (cases st) (auto simp: shell_step_def plain_def)

lemma fold_quote_arg:
  "plain st \<Longrightarrow> fold shell_step (quote_arg a) st = st\<lparr>sh_current := sh_current st @ a\<rparr>"
proof (induction a arbitrary: st)
  case Nil
  then show ?case by (simp add: quote_arg_def)
next
  case (Cons ch a)
  have "plain (st\<lparr>sh_current := sh_current st @ [ch]\<rparr>)"
    using Cons.prems by (simp add: plain_def)
  from Cons.IH [OF this] fold_quote_char [OF Cons.prems, of ch] show ?case
    by (simp add: quote_arg_def)
qed

lemma fold_command_line:
  assumes "list_all (\<lambda>a. a \<noteq> []) args" and "plain st" and "sh_current st = []"
  shows "fold shell_step (command_line args) st = st\<lparr>sh_args := sh_args st @ args\<rparr>"
  using assms
proof (induction args arbitrary: st)
  case Nil
  then show ?case by (simp add: command_line_def)
next
  case (Cons a args)
  let ?s = "st\<lparr>sh_args := sh_args st @ [a]\<rparr>"
  have "fold shell_step (quote_arg a @ '' '') st = ?s"
    using Cons.prems fold_quote_arg [OF Cons.prems(2), of a]
    by (cases st) (auto simp: shell_step_def plain_def)
  moreover have "plain ?s" "sh_current ?s = []" "list_all (\<lambda>a. a \<noteq> []) args"
    using Cons.prems by (simp_all add: plain_def)
  ultimately show ?case
    using Cons.IH [of ?s] by (simp add: command_line_def)
qed

text \<open>
  Splitting undoes quoting: any list of non-empty arguments, whatever blanks, quotes and
  backslashes they contain, is recovered from its quoted command line; a command run through
  a terminal receives exactly the arguments the client quoted.
\<close>

theorem splitShell_command_line:
  assumes "list_all (\<lambda>a. a \<noteq> []) args"
  shows "splitShell (command_line args) = Some args"
  using fold_command_line [OF assms, of shell_start]
  by (simp add: splitShell_def shell_finish_def shell_start_def plain_def)

theorem splitShell_command_line_witness:
  "splitShell (command_line [''sh'', ''-c'', ''echo a b'', [CHR 0x27, CHR 0x5C]])
     = Some [''sh'', ''-c'', ''echo a b'', [CHR 0x27, CHR 0x5C]]"
  using splitShell_command_line [of "[''sh'', ''-c'', ''echo a b'', [CHR 0x27, CHR 0x5C]]"] by simp

lemma splitShell_examples:
  "splitShell ''ls -l'' = Some [''ls'', ''-l'']"
  "splitShell ''  '' = Some []"
  "splitShell [CHR 0x22, CHR ''a''] = None"
  by (simp_all add: splitShell_def shell_step_def shell_start_def shell_finish_def)

section \<open>A terminal\<close>

text \<open>
  \<open>handleTwisp\<close>: \<open>start\<close> is the outcome of \<open>pty.StartWithSize\<close>, a pseudo-terminal or an
  error.
\<close>

definition handleTwisp :: "u32 \<Rightarrow> string \<Rightarrow> go_conn option \<Rightarrow> wispConnection \<Rightarrow> wispConnection" where
  "handleTwisp streamId command start c =
     (case splitShell command of
        None \<Rightarrow> on_wire (sendClosePacket streamId closeReasonInvalidInfo) c
      | Some args \<Rightarrow>
          if args = [] then on_wire (sendClosePacket streamId closeReasonInvalidInfo) c
          else (case start of
              None \<Rightarrow> on_wire (sendClosePacket streamId closeReasonNetworkError) c
            | Some ptmx \<Rightarrow>
                spawn (WaitTask (length (wc_theap c)))
                  (spawn (PtyTask (length (wc_theap c)))
                    (twisp_add streamId (length (wc_theap c))
                      (c\<lparr>wc_theap := wc_theap c @ [\<lparr>ts_streamId = streamId, ts_ptmx = ptmx,
                           ts_isOpen = True, ts_killed = False, ts_winsize = (24, 80)\<rparr>]\<rparr>)))))"

definition writePty :: "nat \<Rightarrow> bytes \<Rightarrow> wispConnection \<Rightarrow> bool \<times> wispConnection" where
  "writePty q data c =
     (fst (nc_Write data (ts_ptmx (wc_theap c ! q))),
      upd_twisp q (\<lambda>t. t\<lparr>ts_ptmx := snd (nc_Write data (ts_ptmx t))\<rparr>) c)"

text \<open>
  One round of \<open>readPty\<close>: the frame is built in place and copied, so the buffer, number \<open>b\<close>,
  stays with the goroutine until it ends; \<open>eof\<close> tells which error ended the terminal, if one
  did.
\<close>

definition readPty :: "nat \<Rightarrow> nat \<Rightarrow> bytes \<Rightarrow> bytes \<Rightarrow> bool option \<Rightarrow> wispConnection \<Rightarrow> wispConnection" where
  "readPty q b hdr d eof c =
     (let c1 = (if 0 < length d
                then on_wire (queueWrite
                       (dataFrame (ts_streamId (wc_theap c ! q)) (length d) (hdr @ d))) c
                else c)
      in case eof of
           None \<Rightarrow> spawn (PtyTask q) c1
         | Some False \<Rightarrow> on_wire (put_read_buf b) (twisp_close q closeReasonNetworkError c1)
         | Some True \<Rightarrow> on_wire (put_read_buf b) (twisp_close q closeReasonVoluntary c1))"

section \<open>The build for Windows\<close>

text \<open>It refuses every terminal; its streams have no process, so nothing is written or resized.\<close>

definition handleTwisp_windows :: "u32 \<Rightarrow> string \<Rightarrow> wispConnection \<Rightarrow> wispConnection" where
  "handleTwisp_windows streamId command c = on_wire (sendClosePacket streamId closeReasonBlocked) c"

definition writePty_windows :: "nat \<Rightarrow> bytes \<Rightarrow> wispConnection \<Rightarrow> bool \<times> wispConnection" where
  "writePty_windows q data c = (True, c)"

definition twisp_resize_windows :: "nat \<Rightarrow> u16 \<Rightarrow> u16 \<Rightarrow> wispConnection \<Rightarrow> wispConnection" where
  "twisp_resize_windows q rows cols c = c"

definition twisp_close_windows :: "nat \<Rightarrow> u8 \<Rightarrow> wispConnection \<Rightarrow> wispConnection" where
  "twisp_close_windows q reason c =
     (if \<not> ts_isOpen (wc_theap c ! q) then c
      else
        on_wire (sendClosePacket (ts_streamId (wc_theap c ! q)) reason)
          (twisp_remove (ts_streamId (wc_theap c ! q))
            (upd_twisp q (\<lambda>t. t\<lparr>ts_isOpen := False\<rparr>) c)))"

lemma windows_no_terminal:
  "wc_theap (handleTwisp_windows i cmd c) = wc_theap c" "wc_tasks (handleTwisp_windows i cmd c) = wc_tasks c"
  by (simp_all add: handleTwisp_windows_def on_wire_def)

end
