(* ===== verification/Frame_Reader.thy ===== *)
theory Frame_Reader
  imports Ws_Frames
begin

text \<open>
  The buffered reader of client frames (\<open>frameReader\<close> of \<open>wisp/wsreader.go\<close>) over a network
  connection that delivers its bytes in pieces of any size, and the frame parser of
  \<open>readLoop\<close> on top of it. The reader is shown to be a view of the flat byte stream: what a
  client's bytes mean does not depend on how the network cut them up.
\<close>

section \<open>The connection as a source of bytes\<close>

text \<open>
  \<open>net.Conn.Read(p)\<close>: the pieces that will arrive, and whether the final error comes with
  the last piece or by itself. A read returns at most as many bytes as the slice has room
  for; a piece may be empty.
\<close>

record net_in =
  ni_chunks :: "bytes list"
  ni_err_with_last :: bool

definition conn_Read :: "nat \<Rightarrow> net_in \<Rightarrow> bytes \<times> bool \<times> net_in" where
  "conn_Read k ni =
     (case ni_chunks ni of
        [] \<Rightarrow> ([], True, ni)
      | c # cs \<Rightarrow>
          if length c \<le> k then (c, cs = [] \<and> ni_err_with_last ni, ni\<lparr>ni_chunks := cs\<rparr>)
          else (take k c, False, ni\<lparr>ni_chunks := drop k c # cs\<rparr>))"

definition ni_stream :: "net_in \<Rightarrow> bytes" where
  "ni_stream ni = concat (ni_chunks ni)"

definition ni_size :: "net_in \<Rightarrow> nat" where
  "ni_size ni = sum_list (map (\<lambda>c. Suc (length c)) (ni_chunks ni))"

lemma conn_Read_stream:
  "conn_Read k ni = (d, e, ni') \<Longrightarrow>
     ni_stream ni = d @ ni_stream ni' \<and> length d \<le> k \<and> (e \<longrightarrow> ni_stream ni' = [])"
  by (auto simp: conn_Read_def ni_stream_def split: list.splits if_splits)

lemma conn_Read_size:
  "conn_Read k ni = (d, e, ni') \<Longrightarrow> \<not> e \<Longrightarrow> 0 < k \<Longrightarrow> ni_size ni' < ni_size ni"
  by (auto simp: conn_Read_def ni_size_def split: list.splits if_splits)

text \<open>\<open>io.ReadFull\<close>: read until the slice is full; an error counts only if it is not.\<close>

function io_ReadFull :: "nat \<Rightarrow> net_in \<Rightarrow> bytes option \<times> net_in" where
  "io_ReadFull k ni =
     (if k = 0 then (Some [], ni)
      else case conn_Read k ni of (d, e, ni') \<Rightarrow>
        if k \<le> length d then (Some d, ni')
        else if e then (None, ni')
        else case io_ReadFull (k - length d) ni' of (r, ni'') \<Rightarrow> (map_option ((@) d) r, ni''))"
  by pat_completeness auto
termination
  by (relation "measure (\<lambda>(k, ni). ni_size ni)") (auto intro: conn_Read_size [OF sym])

declare io_ReadFull.simps [simp del]

lemma io_ReadFull_stream:
  "io_ReadFull k ni = (r, ni') \<Longrightarrow>
     (if k \<le> length (ni_stream ni)
      then r = Some (take k (ni_stream ni)) \<and> ni_stream ni' = drop k (ni_stream ni)
      else r = None)"
proof (induction k ni arbitrary: r ni' rule: io_ReadFull.induct)
  case (1 k ni)
  show ?case
  proof (cases "k = 0")
    case True
    with "1.prems" show ?thesis by (simp add: io_ReadFull.simps [of 0 ni])
  next
    case False
    obtain d e n1 where rd: "conn_Read k ni = (d, e, n1)" by (metis prod_cases3)
    note st = conn_Read_stream [OF rd]
    obtain r2 n2 where rec: "io_ReadFull (k - length d) n1 = (r2, n2)" by fastforce
    consider "k \<le> length d" | "\<not> k \<le> length d" "e" | "\<not> k \<le> length d" "\<not> e" by blast
    then show ?thesis
    proof cases
      case 1
      then have "length d = k" using st by simp
      with "1.prems" False rd 1 st show ?thesis
        by (auto simp: io_ReadFull.simps [of k ni])
    next
      case 2
      with "1.prems" False rd st show ?thesis
        by (auto simp: io_ReadFull.simps [of k ni])
    next
      case 3
      from "1.IH" [OF False rd [symmetric] refl 3 rec] "1.prems" False rd rec 3 st show ?thesis
        by (auto simp: io_ReadFull.simps [of k ni] split: if_splits)
    qed
  qed
qed

section \<open>The buffered reader\<close>

definition readFrameBufSize :: nat where "readFrameBufSize = 64 * 1024"

record frameReader =
  fr_conn :: net_in
  fr_buf :: bytes
  fr_r :: nat
  fr_w :: nat

definition newFrameReader :: "net_in \<Rightarrow> frameReader" where
  "newFrameReader conn = \<lparr>fr_conn = conn, fr_buf = replicate readFrameBufSize 0, fr_r = 0, fr_w = 0\<rparr>"

text \<open>\<open>copy(f.buf, f.buf[f.r:f.w])\<close> and the two index updates.\<close>

definition fr_compact :: "frameReader \<Rightarrow> frameReader" where
  "fr_compact f =
     (if 0 < fr_r f then
        f\<lparr>fr_buf := take (fr_w f - fr_r f) (drop (fr_r f) (fr_buf f))
                     @ drop (fr_w f - fr_r f) (fr_buf f),
          fr_w := fr_w f - fr_r f, fr_r := 0\<rparr>
      else f)"

text \<open>One read into the free end of the buffer.\<close>

definition fr_read :: "frameReader \<Rightarrow> bool \<times> frameReader" where
  "fr_read f =
     (case conn_Read (length (fr_buf f) - fr_w f) (fr_conn f) of
        (d, e, conn) \<Rightarrow>
          (e, f\<lparr>fr_conn := conn,
                fr_buf := take (fr_w f) (fr_buf f) @ d @ drop (fr_w f + length d) (fr_buf f),
                fr_w := fr_w f + length d\<rparr>))"

text \<open>
  The loop of \<open>fill\<close>. With a full buffer it would read into an empty slice for ever, so it
  is a partial function; its result is \<open>False\<close> for an error.
\<close>

partial_function (option) fill_loop :: "nat \<Rightarrow> frameReader \<Rightarrow> (bool \<times> frameReader) option" where
  "fill_loop need f =
     (if need \<le> fr_w f - fr_r f then Some (True, f)
      else case fr_read f of (e, f') \<Rightarrow>
        if e then Some (need \<le> fr_w f' - fr_r f', f')
        else fill_loop need f')"

definition fill :: "nat \<Rightarrow> frameReader \<Rightarrow> (bool \<times> frameReader) option" where
  "fill need f =
     (if need \<le> fr_w f - fr_r f then Some (True, f) else fill_loop need (fr_compact f))"

definition peek :: "nat \<Rightarrow> frameReader \<Rightarrow> (bytes option \<times> frameReader) option" where
  "peek n f =
     map_option (\<lambda>(ok, f'). (if ok then Some (take n (drop (fr_r f') (fr_buf f'))) else None, f'))
       (fill n f)"

definition consume :: "nat \<Rightarrow> frameReader \<Rightarrow> frameReader" where
  "consume n f =
     (if fr_r f + n = fr_w f then f\<lparr>fr_r := 0, fr_w := 0\<rparr> else f\<lparr>fr_r := fr_r f + n\<rparr>)"

text \<open>\<open>readPayload(dst)\<close> for a slice of \<open>n\<close> bytes; \<open>None\<close> is an error.\<close>

definition readPayload :: "nat \<Rightarrow> frameReader \<Rightarrow> bytes option \<times> frameReader" where
  "readPayload n f =
     (if 0 < fr_w f - fr_r f \<and> n \<le> fr_w f - fr_r f then
        (Some (take n (drop (fr_r f) (fr_buf f))), consume n f)
      else if 0 < fr_w f - fr_r f then
        (case io_ReadFull (n - (fr_w f - fr_r f)) (fr_conn f) of (r, conn) \<Rightarrow>
           (map_option ((@) (take (fr_w f - fr_r f) (drop (fr_r f) (fr_buf f)))) r,
            f\<lparr>fr_conn := conn, fr_r := 0, fr_w := 0\<rparr>))
      else
        (case io_ReadFull n (fr_conn f) of (r, conn) \<Rightarrow> (r, f\<lparr>fr_conn := conn\<rparr>)))"

subsection \<open>The reader as a view of the stream\<close>

definition fr_ok :: "frameReader \<Rightarrow> bool" where
  "fr_ok f = (fr_r f \<le> fr_w f \<and> fr_w f \<le> length (fr_buf f))"

definition fr_buffered :: "frameReader \<Rightarrow> bytes" where
  "fr_buffered f = take (fr_w f - fr_r f) (drop (fr_r f) (fr_buf f))"

definition fr_stream :: "frameReader \<Rightarrow> bytes" where
  "fr_stream f = fr_buffered f @ ni_stream (fr_conn f)"

lemma length_fr_buffered: "fr_ok f \<Longrightarrow> length (fr_buffered f) = fr_w f - fr_r f"
  by (auto simp: fr_ok_def fr_buffered_def min_def)

lemma newFrameReader_ok [inv_intros]: "fr_ok (newFrameReader conn)"
  by (simp add: newFrameReader_def fr_ok_def)

lemma newFrameReader_stream [simp]: "fr_stream (newFrameReader conn) = ni_stream conn"
  by (simp add: newFrameReader_def fr_stream_def fr_buffered_def)

lemma fr_compact_ok:
  "fr_ok f \<Longrightarrow> fr_ok (fr_compact f) \<and> fr_stream (fr_compact f) = fr_stream f
     \<and> fr_w (fr_compact f) - fr_r (fr_compact f) = fr_w f - fr_r f \<and> fr_r (fr_compact f) = 0
     \<and> length (fr_buf (fr_compact f)) = length (fr_buf f)"
  by (auto simp: fr_compact_def fr_ok_def fr_stream_def fr_buffered_def)

lemma fr_read_ok:
  assumes "fr_ok f" and "fr_read f = (e, f')"
  shows "fr_ok f'" and "fr_stream f' = fr_stream f" and "fr_r f' = fr_r f"
    and "length (fr_buf f') = length (fr_buf f)" and "fr_w f \<le> fr_w f'"
    and "e \<Longrightarrow> fr_stream f = fr_buffered f'"
    and "\<not> e \<Longrightarrow> fr_w f < length (fr_buf f) \<Longrightarrow> ni_size (fr_conn f') < ni_size (fr_conn f)"
proof -
  obtain d conn where rd: "conn_Read (length (fr_buf f) - fr_w f) (fr_conn f) = (d, e, conn)"
    and f': "f' = f\<lparr>fr_conn := conn,
      fr_buf := take (fr_w f) (fr_buf f) @ d @ drop (fr_w f + length d) (fr_buf f),
      fr_w := fr_w f + length d\<rparr>"
    using assms(2) by (auto simp: fr_read_def split: prod.splits)
  note st = conn_Read_stream [OF rd]
  have len: "length d \<le> length (fr_buf f) - fr_w f" using st by blast
  have wr: "fr_w f + length d - fr_r f = (fr_w f - fr_r f) + length d"
    using assms(1) by (simp add: fr_ok_def)
  have pre: "drop (fr_r f) (take (fr_w f) (fr_buf f) @ x) = fr_buffered f @ x" for x
    using assms(1) by (simp add: fr_buffered_def drop_take fr_ok_def)
  have "fr_buffered f' = take ((fr_w f - fr_r f) + length d)
      (drop (fr_r f) (take (fr_w f) (fr_buf f) @ d @ drop (fr_w f + length d) (fr_buf f)))"
    unfolding f' by (simp add: fr_buffered_def [where f = "frameReader.fr_w_update _ _"] wr)
  also have "\<dots> = fr_buffered f @ d"
    unfolding pre using length_fr_buffered [OF assms(1)] by simp
  finally have buf: "fr_buffered f' = fr_buffered f @ d" .
  show "fr_ok f'" "fr_r f' = fr_r f" "length (fr_buf f') = length (fr_buf f)" "fr_w f \<le> fr_w f'"
    using assms(1) len by (auto simp: f' fr_ok_def)
  show "fr_stream f' = fr_stream f"
    using st buf by (simp add: fr_stream_def) (simp add: f')
  show "e \<Longrightarrow> fr_stream f = fr_buffered f'"
    using st buf by (simp add: fr_stream_def)
  show "\<not> e \<Longrightarrow> fr_w f < length (fr_buf f) \<Longrightarrow> ni_size (fr_conn f') < ni_size (fr_conn f)"
    using conn_Read_size [OF rd] by (simp add: f')
qed


lemma fill_loop_result:
  assumes "fr_ok f" and "fr_r f = 0" and "need \<le> length (fr_buf f)"
  shows "\<exists>f'. fill_loop need f = Some (need \<le> length (fr_stream f), f')
      \<and> fr_ok f' \<and> fr_stream f' = fr_stream f \<and> length (fr_buf f') = length (fr_buf f)
      \<and> (need \<le> length (fr_stream f) \<longrightarrow> need \<le> fr_w f' - fr_r f')"
  using assms
proof (induction "ni_size (fr_conn f)" arbitrary: f rule: less_induct)
  case less
  have st: "length (fr_stream f) = fr_w f - fr_r f + length (ni_stream (fr_conn f))"
    using length_fr_buffered [OF less.prems(1)] by (simp add: fr_stream_def)
  show ?case
  proof (cases "need \<le> fr_w f - fr_r f")
    case True
    with less.prems st show ?thesis
      by (auto simp: fill_loop.simps [of need f])
  next
    case False
    obtain e f1 where rd: "fr_read f = (e, f1)" by fastforce
    note ok = fr_read_ok [OF less.prems(1) rd]
    show ?thesis
    proof (cases e)
      case True
      have "length (fr_stream f) = fr_w f1 - fr_r f1"
        using ok(6) [OF True] length_fr_buffered [OF ok(1)] by simp
      with False True rd ok(1,2,4) show ?thesis
        by (auto simp: fill_loop.simps [of need f])
    next
      case ne: False
      have "fr_w f < length (fr_buf f)"
        using False less.prems by simp
      from less.hyps [OF ok(7) [OF ne this] ok(1)] ok(2-4) less.prems
      obtain f' where "fill_loop need f1 = Some (need \<le> length (fr_stream f1), f')"
        and "fr_ok f'" "fr_stream f' = fr_stream f1" "length (fr_buf f') = length (fr_buf f1)"
          "need \<le> length (fr_stream f1) \<longrightarrow> need \<le> fr_w f' - fr_r f'"
        by auto
      with False ne rd ok(2,4) show ?thesis
        by (auto simp: fill_loop.simps [of need f])
    qed
  qed
qed

lemma fill_result:
  assumes "fr_ok f" and "need \<le> length (fr_buf f)"
  shows "\<exists>f'. fill need f = Some (need \<le> length (fr_stream f), f')
      \<and> fr_ok f' \<and> fr_stream f' = fr_stream f \<and> length (fr_buf f') = length (fr_buf f)
      \<and> (need \<le> length (fr_stream f) \<longrightarrow> need \<le> fr_w f' - fr_r f')"
proof (cases "need \<le> fr_w f - fr_r f")
  case True
  moreover have "need \<le> length (fr_stream f)"
    using True length_fr_buffered [OF assms(1)] by (simp add: fr_stream_def)
  ultimately show ?thesis
    using assms by (auto simp: fill_def)
next
  case False
  note c = fr_compact_ok [OF assms(1)]
  from False c fill_loop_result [of "fr_compact f" need] assms(2) show ?thesis
    by (auto simp: fill_def)
qed

section \<open>The interface the frame parser relies on\<close>

text \<open>
  A byte source: \<open>peek\<close> shows the next bytes without taking them, \<open>consume\<close> takes peeked
  bytes, \<open>read\<close> takes bytes beyond what was peeked. All three are views of one stream; a
  failure means that the stream is shorter than what was asked for. \<open>cap\<close> bounds a peek.
\<close>

locale byte_source =
  fixes ok :: "'s \<Rightarrow> bool"
    and stream :: "'s \<Rightarrow> bytes"
    and peekable :: "'s \<Rightarrow> nat"
    and pk :: "nat \<Rightarrow> 's \<Rightarrow> (bytes option \<times> 's) option"
    and take_n :: "nat \<Rightarrow> 's \<Rightarrow> 's"
    and rd :: "nat \<Rightarrow> 's \<Rightarrow> bytes option \<times> 's"
    and cap :: nat
  assumes pk_ok: "ok s \<Longrightarrow> n \<le> cap \<Longrightarrow>
      \<exists>s'. pk n s = Some (if n \<le> length (stream s) then Some (take n (stream s)) else None, s')
        \<and> ok s' \<and> stream s' = stream s \<and> (n \<le> length (stream s) \<longrightarrow> n \<le> peekable s')"
    and take_ok: "ok s \<Longrightarrow> n \<le> peekable s \<Longrightarrow> ok (take_n n s) \<and> stream (take_n n s) = drop n (stream s)"
    and rd_ok: "ok s \<Longrightarrow> rd n s = (r, s') \<Longrightarrow>
      (if n \<le> length (stream s)
       then r = Some (take n (stream s)) \<and> ok s' \<and> stream s' = drop n (stream s)
       else r = None)"
begin

lemma pk_Some:
  assumes "ok s" and "n \<le> cap" and "n \<le> length (stream s)"
  obtains s' where "pk n s = Some (Some (take n (stream s)), s')" "ok s'" "stream s' = stream s"
    "n \<le> peekable s'"
  using pk_ok [OF assms(1,2)] assms(3) by auto

lemma pk_None:
  assumes "ok s" and "n \<le> cap" and "length (stream s) < n"
  obtains s' where "pk n s = Some (None, s')"
  using pk_ok [OF assms(1,2)] assms(3) by auto

lemma pk_total: "ok s \<Longrightarrow> n \<le> cap \<Longrightarrow> pk n s \<noteq> None"
  using pk_ok [of s n] by auto

end

definition reader_ok :: "frameReader \<Rightarrow> bool" where
  "reader_ok f = (fr_ok f \<and> 14 \<le> length (fr_buf f))"

lemma peek_result:
  assumes "reader_ok f" and "n \<le> 14"
  shows "\<exists>f'. peek n f = Some (if n \<le> length (fr_stream f) then Some (take n (fr_stream f)) else None, f')
        \<and> reader_ok f' \<and> fr_stream f' = fr_stream f
        \<and> (n \<le> length (fr_stream f) \<longrightarrow> n \<le> fr_w f' - fr_r f')"
proof -
  obtain f' where f: "fill n f = Some (n \<le> length (fr_stream f), f')"
    and ok: "fr_ok f'" "fr_stream f' = fr_stream f" "length (fr_buf f') = length (fr_buf f)"
    and n: "n \<le> length (fr_stream f) \<longrightarrow> n \<le> fr_w f' - fr_r f'"
    using fill_result [of f n] assms by (auto simp: reader_ok_def)
  have "take n (drop (fr_r f') (fr_buf f')) = take n (fr_stream f)" if "n \<le> length (fr_stream f)"
  proof -
    have le: "n \<le> fr_w f' - fr_r f'" using n that by blast
    have "take n (fr_stream f') = take n (fr_buffered f')"
      using le length_fr_buffered [OF ok(1)] by (simp add: fr_stream_def)
    also have "\<dots> = take n (drop (fr_r f') (fr_buf f'))"
      using le by (simp add: fr_buffered_def min_def)
    finally show ?thesis using ok(2) by simp
  qed
  with f ok n assms(1) show ?thesis
    by (auto simp: peek_def reader_ok_def)
qed

lemma consume_result:
  assumes "reader_ok f" and "n \<le> fr_w f - fr_r f"
  shows "reader_ok (consume n f) \<and> fr_stream (consume n f) = drop n (fr_stream f)"
proof -
  have "fr_buffered (consume n f) = drop n (fr_buffered f)"
    using assms by (auto simp: consume_def fr_buffered_def reader_ok_def fr_ok_def drop_take
        add.commute)
  moreover have "n \<le> length (fr_buffered f)"
    using assms length_fr_buffered by (simp add: reader_ok_def)
  ultimately show ?thesis
    using assms by (auto simp: fr_stream_def consume_def reader_ok_def fr_ok_def)
qed

lemma readPayload_result:
  assumes "reader_ok f" and "readPayload n f = (r, f')"
  shows "if n \<le> length (fr_stream f)
     then r = Some (take n (fr_stream f)) \<and> reader_ok f' \<and> fr_stream f' = drop n (fr_stream f)
     else r = None"
proof -
  let ?k = "fr_w f - fr_r f"
  have len: "length (fr_buffered f) = ?k"
    using assms(1) length_fr_buffered by (simp add: reader_ok_def)
  obtain r1 c1 where rd: "io_ReadFull (n - ?k) (fr_conn f) = (r1, c1)" by fastforce
  note st = io_ReadFull_stream [OF rd]
  consider "0 < ?k" "n \<le> ?k" | "0 < ?k" "\<not> n \<le> ?k" | "?k = 0" by blast
  then show ?thesis
  proof cases
    case 1
    with assms consume_result [of f n] len show ?thesis
      by (auto simp: readPayload_def fr_stream_def fr_buffered_def min_def)
  next
    case 2
    with assms rd st len show ?thesis
      by (auto simp: readPayload_def fr_stream_def reader_ok_def fr_ok_def split: if_splits)
        (auto simp: fr_buffered_def)
  next
    case 3
    then have "fr_buffered f = []" using len by simp
    with 3 assms rd st show ?thesis
      by (auto simp: readPayload_def fr_stream_def reader_ok_def fr_ok_def fr_buffered_def
          split: if_splits)
  qed
qed

interpretation reader: byte_source reader_ok fr_stream "\<lambda>f. fr_w f - fr_r f" peek consume
  readPayload 14
  by unfold_locales (simp_all only: peek_result consume_result, rule readPayload_result)


section \<open>Reading one frame\<close>

text \<open>
  The part of \<open>readLoop\<close> that reads a frame: the checks of the first two bytes, the length
  of the header and of the payload, the limits, the unmasking. A refused frame carries the
  WebSocket close code that is sent, an error ends the loop silently.
\<close>

datatype frame_result = ReadError | Refuse u16 | Frame byte bytes

definition header_len :: "byte \<Rightarrow> nat" where
  "header_len lengthCode =
     2 + (if lengthCode = 126 then 2 else if lengthCode = 127 then 8 else 0) + 4"

definition payload_len :: "byte \<Rightarrow> bytes \<Rightarrow> u64" where
  "payload_len lengthCode hdr =
     (if lengthCode \<le> 125 then ucast lengthCode
      else if lengthCode = 126 then ucast (be16_of (drop 2 hdr))
      else be64_of (drop 2 hdr))"

definition bad_first_bytes :: "byte \<Rightarrow> byte \<Rightarrow> bool" where
  "bad_first_bytes b0 b1 = (b0 AND 0x70 \<noteq> 0 \<or> b1 AND 0x80 = 0 \<or> b0 AND 0x80 = 0)"

definition read_body ::
    "(nat \<Rightarrow> 's \<Rightarrow> 's) \<Rightarrow> (nat \<Rightarrow> 's \<Rightarrow> bytes option \<times> 's) \<Rightarrow> u64 \<Rightarrow> byte \<Rightarrow> u64 \<Rightarrow> bytes \<Rightarrow> nat \<Rightarrow> 's
       \<Rightarrow> frame_result \<times> 's" where
  "read_body cons rdp maxPayload opcode payloadLen maskKey headerLen s =
     (if 0x8 \<le> opcode \<and> 125 < payloadLen then (Refuse 1002, s)
      else if maxPayload < payloadLen then (Refuse 1009, cons headerLen s)
      else if 0 < payloadLen then
        (case rdp (unat payloadLen) (cons headerLen s) of
           (None, s') \<Rightarrow> (ReadError, s')
         | (Some payload, s') \<Rightarrow> (Frame opcode (maskXOR maskKey payload), s'))
      else (Frame opcode [], cons headerLen s))"

definition read_frame ::
    "(nat \<Rightarrow> 's \<Rightarrow> (bytes option \<times> 's) option) \<Rightarrow> (nat \<Rightarrow> 's \<Rightarrow> 's) \<Rightarrow> (nat \<Rightarrow> 's \<Rightarrow> bytes option \<times> 's)
       \<Rightarrow> u64 \<Rightarrow> 's \<Rightarrow> (frame_result \<times> 's) option" where
  "read_frame pk cons rdp maxPayload s =
     (case pk 2 s of
        None \<Rightarrow> None
      | Some (None, s1) \<Rightarrow> Some (ReadError, s1)
      | Some (Some h, s1) \<Rightarrow>
          if bad_first_bytes (h ! 0) (h ! 1) then Some (Refuse 1002, s1)
          else (case pk (header_len (h ! 1 AND 0x7F)) s1 of
             None \<Rightarrow> None
           | Some (None, s2) \<Rightarrow> Some (ReadError, s2)
           | Some (Some hdr, s2) \<Rightarrow>
               Some (read_body cons rdp maxPayload (h ! 0 AND 0x0F)
                 (payload_len (h ! 1 AND 0x7F) hdr)
                 (take 4 (drop (header_len (h ! 1 AND 0x7F) - 4) hdr))
                 (header_len (h ! 1 AND 0x7F)) s2)))"

definition readFrame :: "u64 \<Rightarrow> frameReader \<Rightarrow> (frame_result \<times> frameReader) option" where
  "readFrame = read_frame peek consume readPayload"

text \<open>\<open>maxPayloadSize\<close>, with the default of 256 KiB.\<close>

definition DefaultMaxPayloadSize :: u64 where "DefaultMaxPayloadSize = 256 * 1024"

definition maxPayloadSize :: "Config \<Rightarrow> u64" where
  "maxPayloadSize cfg =
     (if 0 < cfg_MaxMessageSize cfg then of_int (cfg_MaxMessageSize cfg) else DefaultMaxPayloadSize)"

subsection \<open>The reference: parsing the flat stream\<close>

definition flat_peek :: "nat \<Rightarrow> bytes \<Rightarrow> (bytes option \<times> bytes) option" where
  "flat_peek n b = Some (if n \<le> length b then Some (take n b) else None, b)"

definition flat_read :: "nat \<Rightarrow> bytes \<Rightarrow> bytes option \<times> bytes" where
  "flat_read n b = (if n \<le> length b then (Some (take n b), drop n b) else (None, []))"

definition parse_frame :: "u64 \<Rightarrow> bytes \<Rightarrow> (frame_result \<times> bytes) option" where
  "parse_frame = read_frame flat_peek drop flat_read"

interpretation flat: byte_source "\<lambda>_. True" "\<lambda>b. b" length flat_peek drop flat_read 14
  by unfold_locales (auto simp: flat_peek_def flat_read_def split: if_splits)

lemma header_len_le: "header_len c \<le> 14"
  by (simp add: header_len_def)

lemma ex_pair: "(\<exists>y. x = (a, y) \<and> P y) \<longleftrightarrow> fst x = a \<and> P (snd x)"
  by (cases x) auto

context byte_source
begin

lemma read_body_stream:
  assumes "ok s" and "n \<le> peekable s"
  shows "fst (read_body take_n rd mx op len key n s) = fst (read_body drop flat_read mx op len key n (stream s))
     \<and> (\<forall>o' p. fst (read_body take_n rd mx op len key n s) = Frame o' p \<longrightarrow>
          ok (snd (read_body take_n rd mx op len key n s))
          \<and> stream (snd (read_body take_n rd mx op len key n s))
            = snd (read_body drop flat_read mx op len key n (stream s)))"
proof -
  note t = take_ok [OF assms]
  obtain r s' where r: "rd (unat len) (take_n n s) = (r, s')" by fastforce
  from rd_ok [OF conjunct1 [OF t] r] t r show ?thesis
    by (auto simp: read_body_def flat_read_def split: option.splits if_splits)
qed

text \<open>Reading a frame through any byte source is parsing the stream it stands for.\<close>

lemma read_frame_stream:
  assumes "ok s" and cap: "14 \<le> cap"
  shows "\<exists>s'. read_frame pk take_n rd mx s = Some (fst (the (parse_frame mx (stream s))), s')
     \<and> (\<forall>o' p. fst (the (parse_frame mx (stream s))) = Frame o' p \<longrightarrow>
          ok s' \<and> stream s' = snd (the (parse_frame mx (stream s))))"
proof (cases "2 \<le> length (stream s)")
  case False
  moreover have "2 \<le> cap" using cap by simp
  ultimately obtain s1 where "pk 2 s = Some (None, s1)"
    using pk_None [OF assms(1)] by (metis not_le)
  with False show ?thesis
    by (simp add: read_frame_def parse_frame_def flat_peek_def)
next
  case True
  let ?h = "take 2 (stream s)"
  have "2 \<le> cap" using cap by simp
  then obtain s1 where s1: "pk 2 s = Some (Some ?h, s1)" "ok s1" "stream s1 = stream s"
    using pk_Some [OF assms(1) _ True] by metis
  show ?thesis
  proof (cases "bad_first_bytes (?h ! 0) (?h ! 1)")
    case bad: True
    with True s1 show ?thesis
      by (simp add: read_frame_def parse_frame_def flat_peek_def)
  next
    case good: False
    let ?n = "header_len (?h ! 1 AND 0x7F)"
    have n: "?n \<le> cap"
      using header_len_le cap by (rule le_trans)
    show ?thesis
    proof (cases "?n \<le> length (stream s)")
      case False
      then obtain s2 where "pk ?n s1 = Some (None, s2)"
        using pk_None [OF s1(2) n] s1(3) by (metis not_le)
      with True False good s1 show ?thesis
        by (simp add: read_frame_def parse_frame_def flat_peek_def)
    next
      case len: True
      then obtain s2 where s2: "pk ?n s1 = Some (Some (take ?n (stream s1)), s2)" "ok s2"
          "stream s2 = stream s1" "?n \<le> peekable s2"
        using pk_Some [OF s1(2) n] s1(3) by metis
      with True len good s1 show ?thesis
        using read_body_stream [OF s2(2) s2(4)]
        by (simp add: read_frame_def parse_frame_def flat_peek_def ex_pair)
    qed
  qed
qed

end

lemma parse_frame_total: "\<exists>res rest. parse_frame mx b = Some (res, rest)"
  using flat.read_frame_stream [of mx b] by (auto simp: parse_frame_def)

lemma readFrame_parse:
  assumes "reader_ok f"
  shows "\<exists>f'. readFrame mx f = Some (fst (the (parse_frame mx (fr_stream f))), f')
     \<and> (\<forall>o' p. fst (the (parse_frame mx (fr_stream f))) = Frame o' p \<longrightarrow>
          reader_ok f' \<and> fr_stream f' = snd (the (parse_frame mx (fr_stream f))))"
  unfolding readFrame_def by (rule reader.read_frame_stream [OF assms]) simp


subsection \<open>Frames of a client\<close>

lemma byte_le_125: "n \<le> 125 \<Longrightarrow> (of_nat n :: byte) \<le> 125"
  by (simp add: word_le_nat_alt unat_of_nat_byte)

lemma header_len_of_frame:
  fixes b0 :: byte and key r :: bytes and n :: nat
  assumes "length key = 4"
  defines "w \<equiv> ws_header b0 True n @ key @ r"
  shows "header_len (w ! 1 AND 0x7F) = length (ws_header b0 True n) + 4"
    and "n < 2 ^ 64 \<Longrightarrow> payload_len (w ! 1 AND 0x7F) (take (header_len (w ! 1 AND 0x7F)) w) = of_nat n"
proof -
  note k4 = list_of_length4 [OF assms(1)]
  consider "n \<le> 125" | "125 < n" "n \<le> 65535" | "65535 < n" by linarith
  then have "header_len (w ! 1 AND 0x7F) = length (ws_header b0 True n) + 4
    \<and> (n < 2 ^ 64 \<longrightarrow> payload_len (w ! 1 AND 0x7F) (take (header_len (w ! 1 AND 0x7F)) w) = of_nat n)"
  proof cases
    case 1
    then have "w ! 1 AND 0x7F = of_nat n"
      using length_code_byte [of n True] by (simp add: w_def ws_header_def)
    moreover have "(of_nat n :: byte) \<noteq> 126" "(of_nat n :: byte) \<noteq> 127" "(of_nat n :: byte) \<le> 125"
      using 1 of_nat_byte_code byte_le_125 by blast+
    moreover have "(ucast (of_nat n :: byte) :: u64) = of_nat n"
      using 1 by (simp add: unsigned_of_nat take_bit_nat_eq_self)
    ultimately show ?thesis
      using 1 by (simp add: header_len_def payload_len_def ws_header_def)
  next
    case 2
    then have "w ! 1 AND 0x7F = 126"
      using length_code_byte [of 126 True] by (simp add: w_def ws_header_def)
    moreover have "(ucast (of_nat n :: u16) :: u64) = of_nat n"
      using 2 by (simp add: unsigned_of_nat take_bit_nat_eq_self)
    moreover have "drop 2 (take 8 w) = be16_bytes (of_nat n) @ key"
      using 2 assms(1) by (simp add: w_def ws_header_def be16.length_enc)
    ultimately show ?thesis
      using 2 by (simp add: header_len_def payload_len_def ws_header_def codec_simps)
  next
    case 3
    then have "w ! 1 AND 0x7F = 127"
      using length_code_byte [of 127 True] by (simp add: w_def ws_header_def)
    moreover have "drop 2 (take 14 w) = be64_bytes (of_nat n) @ key"
      using 3 assms(1) by (simp add: w_def ws_header_def be64.length_enc)
    ultimately show ?thesis
      using 3 by (simp add: header_len_def payload_len_def ws_header_def codec_simps)
  qed
  then show "header_len (w ! 1 AND 0x7F) = length (ws_header b0 True n) + 4"
    and "n < 2 ^ 64 \<Longrightarrow> payload_len (w ! 1 AND 0x7F) (take (header_len (w ! 1 AND 0x7F)) w) = of_nat n"
    by blast+
qed

lemma ws_header_01:
  "(ws_header b0 m n @ r) ! 0 = b0" "2 \<le> length (ws_header b0 m n)"
  "(ws_header b0 True n @ r) ! 1 AND 0x80 \<noteq> 0"
proof -
  show "(ws_header b0 m n @ r) ! 0 = b0" "2 \<le> length (ws_header b0 m n)"
    by (simp_all add: ws_header_def)
  consider "n \<le> 125" | "125 < n" "n \<le> 65535" | "65535 < n" by linarith
  then show "(ws_header b0 True n @ r) ! 1 AND 0x80 \<noteq> 0"
    by cases (use length_code_byte(2) [of n True] length_code_byte(2) [of 126 True]
        length_code_byte(2) [of 127 True] in \<open>simp_all add: ws_header_def\<close>)
qed

lemma parse_frame_step:
  assumes "2 \<le> length b" and "\<not> bad_first_bytes (b ! 0) (b ! 1)"
    and "n = header_len (b ! 1 AND 0x7F)" and "n \<le> length b"
  shows "parse_frame mx b = Some (read_body drop flat_read mx (b ! 0 AND 0x0F)
     (payload_len (b ! 1 AND 0x7F) (take n b)) (take 4 (drop (n - 4) (take n b))) n b)"
  using assms by (simp add: parse_frame_def read_frame_def flat_peek_def)

lemma parse_frame_client:
  assumes key: "length key = 4" and fin: "b0 AND 0x80 \<noteq> 0" "b0 AND 0x70 = 0"
    and len: "length p \<le> unat mx" and ctl: "8 \<le> b0 AND 0x0F \<Longrightarrow> length p \<le> 125"
  shows "parse_frame mx (ws_frame b0 (Some key) (maskXOR key p) @ rest)
     = Some (Frame (b0 AND 0x0F) p, rest)"
proof -
  let ?r = "maskXOR key p @ rest"
  let ?b = "ws_header b0 True (length p) @ key @ ?r"
  let ?n = "header_len (?b ! 1 AND 0x7F)"
  have lt: "length p < 2 ^ 64"
    using len unsigned_less [of mx, where ?'a = nat] by simp
  note hl = header_len_of_frame [OF key, where ?b0.0 = b0 and n = "length p" and r = ?r]
  have b: "ws_frame b0 (Some key) (maskXOR key p) @ rest = ?b"
    by (simp add: ws_frame_def)
  have n2: "2 \<le> ?n" "?n \<le> length ?b"
    using hl(1) ws_header_01(2) [of b0 True "length p"] key by simp_all
  have drop_n: "drop ?n ?b = ?r"
    unfolding hl(1) using key by simp
  have key': "take 4 (drop (?n - 4) (take ?n ?b)) = key"
    unfolding hl(1) using key by simp
  have good: "\<not> bad_first_bytes (?b ! 0) (?b ! 1)"
    using ws_header_01(1) [of b0 True "length p" "key @ ?r"] ws_header_01(3) fin
    by (simp add: bad_first_bytes_def)
  have le: "of_nat (length p) \<le> mx"
    using len lt by (simp add: word_le_nat_alt unat_of_nat)
  have ctl': "\<not> (8 \<le> b0 AND 0x0F \<and> (125 :: u64) < of_nat (length p))"
    using ctl lt by (auto simp: word_less_nat_alt unat_of_nat)
  have zero: "(0 :: u64) < of_nat (length p) \<longleftrightarrow> p \<noteq> []"
    using lt by (simp add: word_less_nat_alt unat_of_nat)
  have body: "read_body drop flat_read mx (b0 AND 0x0F) (of_nat (length p)) key ?n ?b
      = (Frame (b0 AND 0x0F) p, rest)"
    using ctl' le zero lt drop_n
    by (auto simp: read_body_def flat_read_def unat_of_nat not_less maskXOR_twice)
  have "2 \<le> length ?b" using n2 by (rule le_trans)
  note step = parse_frame_step [OF this good refl n2(2), of mx]
  show ?thesis
    unfolding b step key' hl(2) [OF lt]
    using body ws_header_01(1) [of b0 True "length p" "key @ ?r"] by simp
qed


lemma header_len_ge: "6 \<le> header_len c"
  by (simp add: header_len_def)

lemma read_body_flat_Frame:
  "read_body drop flat_read mx op len key n b = (Frame o' p, rest) \<Longrightarrow>
     o' = op \<and> length p \<le> unat mx \<and> (8 \<le> op \<longrightarrow> length p \<le> 125) \<and> length rest \<le> length b - n"
  by (auto simp: read_body_def flat_read_def word_le_nat_alt word_less_nat_alt not_less min_def
      split: if_splits)

lemma parse_frame_Frame:
  assumes "parse_frame mx b = Some (Frame op p, rest)"
  shows "b ! 0 AND 0x80 \<noteq> 0" "b ! 0 AND 0x70 = 0" "b ! 1 AND 0x80 \<noteq> 0" "op = b ! 0 AND 0x0F"
    and "length p \<le> unat mx" "8 \<le> op \<Longrightarrow> length p \<le> 125" "length rest + 6 \<le> length b"
proof -
  have two: "2 \<le> length b"
    using assms by (auto simp: parse_frame_def read_frame_def flat_peek_def split: if_splits)
  have good: "\<not> bad_first_bytes (b ! 0) (b ! 1)"
    using assms two by (auto simp: parse_frame_def read_frame_def flat_peek_def split: if_splits)
  have n: "header_len (b ! 1 AND 0x7F) \<le> length b"
    using assms two good by (auto simp: parse_frame_def read_frame_def flat_peek_def split: if_splits)
  from assms parse_frame_step [OF two good refl n, of mx]
  have "read_body drop flat_read mx (b ! 0 AND 0x0F)
     (payload_len (b ! 1 AND 0x7F) (take (header_len (b ! 1 AND 0x7F)) b))
     (take 4 (drop (header_len (b ! 1 AND 0x7F) - 4) (take (header_len (b ! 1 AND 0x7F)) b)))
     (header_len (b ! 1 AND 0x7F)) b = (Frame op p, rest)"
    by simp
  note body = read_body_flat_Frame [OF this]
  show "b ! 0 AND 0x80 \<noteq> 0" "b ! 0 AND 0x70 = 0" "b ! 1 AND 0x80 \<noteq> 0" "op = b ! 0 AND 0x0F"
    "length p \<le> unat mx" "8 \<le> op \<Longrightarrow> length p \<le> 125" "length rest + 6 \<le> length b"
    using good body n header_len_ge [of "b ! 1 AND 0x7F"] by (auto simp: bad_first_bytes_def)
qed

text \<open>
  C12: Reading a frame always returns, and its outcome depends on the bytes of the stream
  only: two readers whose buffered and outstanding bytes agree, however they are cut into
  pieces, deliver the same frame, close code or error, and after a frame they agree again.
\<close>

theorem readFrame_chunking:
  assumes "reader_ok f" and "reader_ok g" and "fr_stream f = fr_stream g"
  shows "\<exists>res f' g'. readFrame mx f = Some (res, f') \<and> readFrame mx g = Some (res, g')
     \<and> (\<forall>op p. res = Frame op p \<longrightarrow> reader_ok f' \<and> reader_ok g' \<and> fr_stream f' = fr_stream g')"
  using readFrame_parse [OF assms(1), of mx] readFrame_parse [OF assms(2), of mx] assms(3)
  by fastforce

text \<open>
  Every frame a conforming client sends is understood: a final frame without reserved
  bits, masked with any key, in any of the three length forms and within the limits, is
  read as its opcode and its unmasked payload, whatever follows it in the stream and in
  whatever pieces it arrives.
\<close>

theorem readFrame_client_frame:
  assumes "reader_ok f" and "fr_stream f = ws_frame b0 (Some key) (maskXOR key p) @ rest"
    and "length key = 4" and "b0 AND 0x80 \<noteq> 0" and "b0 AND 0x70 = 0"
    and "length p \<le> unat mx" and "8 \<le> b0 AND 0x0F \<Longrightarrow> length p \<le> 125"
  shows "\<exists>f'. readFrame mx f = Some (Frame (b0 AND 0x0F) p, f') \<and> reader_ok f' \<and> fr_stream f' = rest"
  using readFrame_parse [OF assms(1), of mx] parse_frame_client [OF assms(3-7), of rest] assms(2)
  by auto

text \<open>
  What the reader accepts is within the limits: the payload is no longer than the
  configured maximum, a control frame no longer than 125 bytes, the first bytes were final,
  without reserved bits and masked, and at least six bytes were taken from the stream.
\<close>

theorem readFrame_sound:
  assumes "reader_ok f" and "readFrame mx f = Some (Frame op p, f')"
  shows "length p \<le> unat mx \<and> (8 \<le> op \<longrightarrow> length p \<le> 125)
     \<and> fr_stream f ! 0 AND 0x80 \<noteq> 0 \<and> fr_stream f ! 0 AND 0x70 = 0 \<and> fr_stream f ! 1 AND 0x80 \<noteq> 0
     \<and> op = fr_stream f ! 0 AND 0x0F \<and> length (fr_stream f') + 6 \<le> length (fr_stream f)"
proof -
  obtain rest where "parse_frame mx (fr_stream f) = Some (Frame op p, rest)"
    and "fr_stream f' = rest"
    using readFrame_parse [OF assms(1), of mx] assms(2) parse_frame_total [of mx "fr_stream f"]
    by auto
  with parse_frame_Frame [OF this(1)] show ?thesis by blast
qed

text \<open>A masked text frame \<open>hi\<close> that arrives in three pieces, one of them empty.\<close>

definition example_reader :: frameReader where
  "example_reader = \<lparr>fr_conn = \<lparr>ni_chunks = [[0x81], [], [0x82, 1, 2], [3, 4, 105, 107]],
     ni_err_with_last = True\<rparr>, fr_buf = replicate 14 0, fr_r = 0, fr_w = 0\<rparr>"

definition example_flat_reader :: frameReader where
  "example_flat_reader = \<lparr>fr_conn = \<lparr>ni_chunks = [], ni_err_with_last = False\<rparr>,
     fr_buf = [0, 0, 0x81, 0x82, 1, 2, 3, 4, 105, 107, 0, 0, 0, 0], fr_r = 2, fr_w = 10\<rparr>"

lemma example_readers:
  "reader_ok example_reader" "reader_ok example_flat_reader"
  "fr_stream example_reader = [0x81, 0x82, 1, 2, 3, 4, 105, 107]"
  "fr_stream example_flat_reader = [0x81, 0x82, 1, 2, 3, 4, 105, 107]"
  by (simp_all add: example_reader_def example_flat_reader_def reader_ok_def fr_ok_def fr_stream_def
      fr_buffered_def ni_stream_def)

theorem readFrame_chunking_witness:
  "\<exists>res f' g'. readFrame 16 example_reader = Some (res, f')
     \<and> readFrame 16 example_flat_reader = Some (res, g')"
  using readFrame_chunking [OF example_readers(1,2), of 16] example_readers by auto

lemma example_frame:
  "[0x81, 0x82, 1, 2, 3, 4, 105, 107] = ws_frame 0x81 (Some [1, 2, 3, 4]) (maskXOR [1, 2, 3, 4] [104, 105])"
  by (simp add: ws_frame_def ws_header_def maskXOR_eq mask_tail_def upt_rec)

theorem readFrame_client_frame_witness:
  "\<exists>f'. readFrame 16 example_reader = Some (Frame 1 [104, 105], f') \<and> reader_ok f' \<and> fr_stream f' = []"
  using readFrame_client_frame [OF example_readers(1), where ?b0.0 = "0x81" and key = "[1, 2, 3, 4]"
      and p = "[104, 105]" and rest = "[]" and mx = 16]
    example_readers(3) example_frame by simp

lemma example_read: "\<exists>f'. readFrame 16 example_flat_reader = Some (Frame 1 [104, 105], f')"
  using readFrame_parse [OF example_readers(2), of 16]
    parse_frame_client [where ?b0.0 = "0x81" and key = "[1, 2, 3, 4]" and p = "[104, 105]" and mx = 16
      and rest = "[]"]
    example_readers(4) example_frame by auto

theorem readFrame_sound_witness: "length [104, 105 :: byte] \<le> unat (16 :: u64)"
proof -
  obtain f' where "readFrame 16 example_flat_reader = Some (Frame 1 [104, 105], f')"
    using example_read by blast
  from readFrame_sound [OF example_readers(2) this] show ?thesis by blast
qed

section \<open>The payload buffers\<close>

text \<open>
  \<open>getWSPayloadBuf\<close> and \<open>getIngressBuf\<close>: a pooled buffer, given by its capacity, is used if
  it is large enough; otherwise a new one is made. The result is the capacity and the
  length of the slice. \<open>putWSPayloadBuf\<close> and \<open>putIngressBuf\<close> keep all but nil and empty
  buffers.
\<close>

definition wsPayloadPoolSize :: nat where "wsPayloadPoolSize = 256 * 1024"

definition getWSPayloadBuf :: "nat \<Rightarrow> nat \<Rightarrow> nat \<times> nat" where
  "getWSPayloadBuf sz pooledCap = (if pooledCap < sz then (sz, sz) else (pooledCap, sz))"

definition putWSPayloadBuf :: "nat option \<Rightarrow> nat list \<Rightarrow> nat list" where
  "putWSPayloadBuf bufp pool =
     (case bufp of None \<Rightarrow> pool | Some c \<Rightarrow> if c = 0 then pool else c # pool)"

definition getIngressBuf :: "nat \<Rightarrow> nat \<Rightarrow> nat \<times> nat" where
  "getIngressBuf sz pooledCap = (if pooledCap < sz then (sz, sz) else (pooledCap, sz))"

definition putIngressBuf :: "nat option \<Rightarrow> nat list \<Rightarrow> nat list" where
  "putIngressBuf bufp pool =
     (case bufp of None \<Rightarrow> pool | Some c \<Rightarrow> if c = 0 then pool else c # pool)"

lemma getWSPayloadBuf_fits:
  "snd (getWSPayloadBuf n c) = n" "n \<le> fst (getWSPayloadBuf n c)" "c \<le> fst (getWSPayloadBuf n c)"
  by (auto simp: getWSPayloadBuf_def)

end
