(* ===== verification/Conn_Handlers.thy ===== *)
theory Conn_Handlers
  imports Stream_Connect V2_Info Twisp Frame_Reader
begin

text \<open>
  The packet handlers of a connection (\<open>wisp/wisp-connection.go\<close>, \<open>wisp/v2.go\<close>) and the
  read loop that drives them (\<open>wisp/wsreader.go\<close>).
\<close>

section \<open>Opening streams\<close>

definition twispAuthorized :: "wispConnection \<Rightarrow> bool" where
  "twispAuthorized c = (wc_isV2 c \<and> wc_authenticated c)"

definition handleTwispConnect :: "time \<Rightarrow> u32 \<Rightarrow> string \<Rightarrow> wispConnection \<Rightarrow> wispConnection" where
  "handleTwispConnect now streamId command c =
     (if \<not> cfg_EnableTwisp (wc_config c) then
        on_wire (sendClosePacket streamId closeReasonBlocked) c
      else if \<not> wc_isV2 c then
        on_wire (sendClosePacket streamId closeReasonBlocked) (repAddSource now ''twispNoAuth'' c)
      else if \<not> cfg_PasswordAuth (wc_config c) then
        on_wire (sendClosePacket streamId closeReasonBlocked) (repAddSource now ''twispNoAuth'' c)
      else if \<not> twispAuthorized c then
        on_wire (sendClosePacket streamId closeReasonBlocked) (repAddSource now ''twispNoAuth'' c)
      else spawn (TwispTask streamId command) c)"

definition newStream :: "u32 \<Rightarrow> u16 \<Rightarrow> string \<Rightarrow> wispStream" where
  "newStream streamId port hostname =
     \<lparr>ws_streamId = streamId, ws_streamType = 0, ws_conn = None, ws_bufferRemaining = 0,
      ws_hostname = strings_ToLower (strings_TrimSpace hostname), ws_portNum = uint port,
      ws_connReadyDone = False, ws_isOpen = True, ws_pendingData = [], ws_pendingBytes = 0,
      ws_ingressActive = False, ws_pendingIngress = [], ws_ingressWriting = False\<rparr>"

text \<open>The limit on the streams of one connection: \<open>True\<close> when it is reached.\<close>

definition stream_limit_reached :: "wispConnection \<Rightarrow> bool" where
  "stream_limit_reached c =
     (case cfg_FloodProtection (wc_config c) of
        None \<Rightarrow> False
      | Some fp \<Rightarrow> 0 < fp_MaxConcurrentStreamsPerConnection fp
          \<and> go_int32 (fp_MaxConcurrentStreamsPerConnection fp) \<le> wc_streamCount c)"

text \<open>\<open>LoadOrStore\<close>, the count and the goroutine; a stream id in use is left alone.\<close>

definition register_stream :: "u32 \<Rightarrow> u8 \<Rightarrow> u16 \<Rightarrow> string \<Rightarrow> wispConnection \<Rightarrow> wispConnection" where
  "register_stream streamId streamType port hostname c =
     (case wc_streams c streamId of
        Some _ \<Rightarrow> c
      | None \<Rightarrow>
          spawn (ConnectTask (length (wc_heap c)) streamType (itoa (unat port)) hostname)
            (c\<lparr>wc_heap := wc_heap c @ [newStream streamId port hostname],
               wc_streams := (wc_streams c)(streamId \<mapsto> length (wc_heap c)),
               wc_streamCount := go_int32 (wc_streamCount c + 1)\<rparr>))"

definition handleConnectPacket :: "time \<Rightarrow> u32 \<Rightarrow> bytes \<Rightarrow> wispConnection \<Rightarrow> wispConnection" where
  "handleConnectPacket now streamId payload c =
     (if length payload < 3 then c
      else if stream_limit_reached c then
        on_wire (sendClosePacket streamId closeReasonThrottled) (violation c)
      else case allow_per_source now (wc_remoteIP c) c of (ok, c1) \<Rightarrow>
        if \<not> ok then
          on_wire (sendClosePacket streamId closeReasonThrottled)
            (repAddSource now ''burstRate'' (violation c1))
        else if payload ! 0 = streamTypeTerm then
          handleTwispConnect now streamId (string_of_bytes (drop 3 payload)) c1
        else register_stream streamId (payload ! 0) (le16_of (take 2 (drop 1 payload)))
               (string_of_bytes (drop 3 payload)) c1)"

section \<open>Data\<close>

text \<open>
  Finding the stream of a DATA packet: the direct-mapped cache first, then the registry,
  which fills the cache. Both accesses in one step; \<open>race_step\<close> of \<open>Close_Race\<close> has them apart.
\<close>

definition lookup_stream :: "u32 \<Rightarrow> wispConnection \<Rightarrow> nat option \<times> wispConnection" where
  "lookup_stream streamId c =
     (case wc_streamCache c ! cache_slot streamId of (i, sp) \<Rightarrow>
        if i = streamId \<and> sp \<noteq> None then (sp, c)
        else (case wc_streams c streamId of
            None \<Rightarrow> (None, c)
          | Some p \<Rightarrow> (Some p, c\<lparr>wc_streamCache :=
              (wc_streamCache c)[cache_slot streamId := (streamId, Some p)]\<rparr>)))"

definition maxPendingBytes :: int where "maxPendingBytes = 16 * 1024 * 1024"

text \<open>A stream that is not connected yet keeps a copy of the data.\<close>

definition buffer_data :: "nat \<Rightarrow> bytes \<Rightarrow> wispConnection \<Rightarrow> wispConnection" where
  "buffer_data p payload c =
     (if maxPendingBytes < ws_pendingBytes (stream_at p c) + int (length payload)
      then stream_close p closeReasonThrottled c
      else upd_stream p (\<lambda>s. s\<lparr>ws_pendingData := ws_pendingData s @ [payload],
             ws_pendingBytes := ws_pendingBytes s + int (length payload)\<rparr>) c)"

text \<open>Flow control: each packet takes one credit, and the last one renews them.\<close>

definition use_credit :: "u32 \<Rightarrow> nat \<Rightarrow> wispConnection \<Rightarrow> wispConnection" where
  "use_credit streamId p c =
     (if ws_bufferRemaining (stream_at p c) - 1 = 0 then
        on_wire (sendPacket streamId (cfg_BufferRemainingLength (wc_config c)))
          (upd_stream p (\<lambda>s. s\<lparr>ws_bufferRemaining := cfg_BufferRemainingLength (wc_config c)\<rparr>) c)
      else upd_stream p (\<lambda>s. s\<lparr>ws_bufferRemaining := ws_bufferRemaining s - 1\<rparr>) c)"

text \<open>
  The queue of a TCP stream takes over the buffer; the result tells whether it did. Here
  nothing happens between the two looks at the state of the queue; \<open>data_step\<close> of
  \<open>Data_Race\<close> has them apart.
\<close>

definition deliver_queued :: "u32 \<Rightarrow> nat \<Rightarrow> bytes \<Rightarrow> nat \<Rightarrow> wispConnection \<Rightarrow> bool \<times> wispConnection" where
  "deliver_queued streamId p payload bufp c =
     (case queueIngressOwned p payload bufp c of (queued, c1) \<Rightarrow>
        if \<not> queued then (False, c1) else (True, use_credit streamId p c1))"

definition deliver_direct :: "u32 \<Rightarrow> nat \<Rightarrow> bytes \<Rightarrow> wispConnection \<Rightarrow> wispConnection" where
  "deliver_direct streamId p payload c =
     (case stream_write p payload c of (ok, c1) \<Rightarrow>
        if \<not> ok then stream_close p closeReasonNetworkError c1
        else if ws_streamType (stream_at p c1) = streamTypeTCP then use_credit streamId p c1
        else c1)"

definition twisp_data :: "u32 \<Rightarrow> bytes \<Rightarrow> wispConnection \<Rightarrow> wispConnection" where
  "twisp_data streamId payload c =
     (case twisp_get streamId c of
        None \<Rightarrow> on_wire (sendClosePacket streamId closeReasonInvalidInfo) c
      | Some q \<Rightarrow>
          if ts_isOpen (wc_theap c ! q) then
            (case writePty q payload c of (ok, c1) \<Rightarrow>
               if ok then c1 else twisp_close q closeReasonNetworkError c1)
          else on_wire (sendClosePacket streamId closeReasonInvalidInfo) c)"

text \<open>
  The whole handler, as the goroutine of the read loop runs it when no other goroutine closes
  the stream meanwhile (\<open>handleDataPacket_statements\<close> of \<open>Data_Race\<close> says so; \<open>data_step\<close> there is
  the handler statement by statement among closings).
\<close>

definition handleDataPacket ::
    "u32 \<Rightarrow> bytes \<Rightarrow> nat \<Rightarrow> wispConnection \<Rightarrow> bool \<times> wispConnection" where
  "handleDataPacket streamId payload bufp c =
     (case lookup_stream streamId c of
        (None, c1) \<Rightarrow> (False, twisp_data streamId payload c1)
      | (Some p, c1) \<Rightarrow>
          if \<not> ws_isOpen (stream_at p c1) then (False, c1)
          else if \<not> ws_connReadyDone (stream_at p c1) then (False, buffer_data p payload c1)
          else if ws_streamType (stream_at p c1) = streamTypeTCP \<and> ws_ingressActive (stream_at p c1)
          then deliver_queued streamId p payload bufp c1
          else (False, deliver_direct streamId p payload c1))"

section \<open>Closing and control packets\<close>

definition handleClosePacket :: "u32 \<Rightarrow> bytes \<Rightarrow> wispConnection \<Rightarrow> wispConnection" where
  "handleClosePacket streamId payload c =
     (if length payload < 1 then c
      else (case wc_streams c streamId of
          Some p \<Rightarrow> spawn (CloseTask p closeReasonVoluntary) c
        | None \<Rightarrow> (case twisp_get streamId c of
              Some q \<Rightarrow> spawn (TwispCloseTask q closeReasonVoluntary) c
            | None \<Rightarrow> c)))"

text \<open>
  \<open>handleInfo\<close>: the answer of a v2 client. A refusal sends a CLOSE on stream 0 and closes
  the connection; success records the authentication, sends the first credit and ends the
  handshake.
\<close>

definition refuse_client :: "u8 \<Rightarrow> wispConnection \<Rightarrow> wispConnection" where
  "refuse_client reason c = on_wire wire_close (on_wire (sendClosePacket 0 reason) c)"

definition password_ok :: "(string \<Rightarrow> string \<Rightarrow> bool) \<Rightarrow> Config \<Rightarrow> Extensions \<Rightarrow> bool" where
  "password_ok bcrypt cfg exts =
     (case cfg_PasswordUsers cfg (ex_passwordUsername exts) of
        None \<Rightarrow> False
      | Some stored \<Rightarrow> checkPassword bcrypt stored (ex_passwordPassword exts))"

definition accept_client :: "bool \<Rightarrow> Extensions \<Rightarrow> wispConnection \<Rightarrow> wispConnection" where
  "accept_client authPassed exts c =
     (on_wire (sendPacket 0 (cfg_BufferRemainingLength (wc_config c)))
        (c\<lparr>wc_authenticated := authPassed, wc_streamConfirm := ex_streamConfirm exts\<rparr>))
       \<lparr>wc_handshakeDone := None\<rparr>"

definition handleInfo ::
    "(string \<Rightarrow> string \<Rightarrow> bool) \<Rightarrow> u32 \<Rightarrow> bytes \<Rightarrow> wispConnection \<Rightarrow> wispConnection" where
  "handleInfo bcrypt streamId payload c =
     (if streamId \<noteq> 0 then c
      else if wc_handshakeDone c = None then c
      else case parseClientInfo payload of
          None \<Rightarrow> refuse_client closeReasonIncompatible c
        | Some exts \<Rightarrow>
            if cfg_PasswordAuth (wc_config c) \<and> ex_passwordUsername exts \<noteq> [] then
              (if password_ok bcrypt (wc_config c) exts then accept_client True exts c
               else refuse_client closeReasonAuthBadPassword c)
            else if cfg_PasswordAuthRequired (wc_config c) then
              refuse_client closeReasonAuthRequired c
            else accept_client False exts c)"

definition handleResize :: "u32 \<Rightarrow> bytes \<Rightarrow> wispConnection \<Rightarrow> wispConnection" where
  "handleResize streamId payload c =
     (if cfg_EnableTwisp (wc_config c) \<and> wc_twispStreams c \<noteq> None \<and> 4 \<le> length payload then
        (case twisp_get streamId c of
           None \<Rightarrow> c
         | Some q \<Rightarrow> twisp_resize q (le16_of (take 2 payload)) (le16_of (take 2 (drop 2 payload))) c)
      else c)"

definition handlePacket ::
    "(string \<Rightarrow> string \<Rightarrow> bool) \<Rightarrow> time \<Rightarrow> u8 \<Rightarrow> u32 \<Rightarrow> bytes \<Rightarrow> wispConnection \<Rightarrow> wispConnection" where
  "handlePacket bcrypt now packetType streamId payload c =
     (if packetType = packetTypeInfo then
        (if wc_isV2 c then handleInfo bcrypt streamId payload c else c)
      else if packetType = packetTypeConnect then handleConnectPacket now streamId payload c
      else if packetType = packetTypeClose then handleClosePacket streamId payload c
      else if packetType = twispExtensionID then handleResize streamId payload c
      else c)"

section \<open>Frames\<close>

text \<open>
  \<open>handleWispFrame\<close>: until the handshake of a v2 connection is done, only INFO packets and
  a CLOSE of stream 0 are looked at.
\<close>

definition handshake_pending :: "wispConnection \<Rightarrow> bool" where
  "handshake_pending c = (wc_isV2 c \<and> wc_handshakeDone c = Some False)"

definition handleWispFrame ::
    "(string \<Rightarrow> string \<Rightarrow> bool) \<Rightarrow> time \<Rightarrow> bytes \<Rightarrow> nat \<Rightarrow> wispConnection \<Rightarrow> bool \<times> wispConnection" where
  "handleWispFrame bcrypt now packet bufp c =
     (if length packet < 5 then (False, c)
      else
        let packetType = packet ! 0;
            streamId = le32_of (take 4 (drop 1 packet));
            payload = drop 5 packet
        in if handshake_pending c then
             (if packetType = packetTypeInfo \<or> packetType = packetTypeClose \<and> streamId = 0
              then (False, handlePacket bcrypt now packetType streamId payload c)
              else (False, c))
           else if packetType = packetTypeData then handleDataPacket streamId payload bufp c
           else (False, handlePacket bcrypt now packetType streamId payload c))"

text \<open>
  The \<open>switch\<close> of \<open>readLoop\<close>: the first component tells whether the loop goes on. \<open>bufp\<close>
  numbers the payload buffer of the frame; it is put back unless the handler kept it.
\<close>

definition dispatch_frame ::
    "(string \<Rightarrow> string \<Rightarrow> bool) \<Rightarrow> time \<Rightarrow> byte \<Rightarrow> bytes \<Rightarrow> nat \<Rightarrow> wispConnection \<Rightarrow> bool \<times> wispConnection" where
  "dispatch_frame bcrypt now opcode payload bufp c =
     (if opcode = 0x2 \<or> opcode = 0x1 then
        (case handleWispFrame bcrypt now payload bufp c of (keep, c1) \<Rightarrow>
           (True, if keep then c1 else put_ws_buf (Some bufp) c1))
      else if opcode = 0x9 then (True, put_ws_buf (Some bufp) (on_wire (writeRawPong payload) c))
      else if opcode = 0x8 then
        (False, put_ws_buf (Some bufp)
          (on_wire (sendWSClose (if 2 \<le> length payload then be16_of (take 2 payload) else 1000)) c))
      else (True, put_ws_buf (Some bufp) c))"

section \<open>The end of a connection\<close>

text \<open>
  \<open>deleteAllWispStreams\<close>: \<open>ps\<close> and \<open>qs\<close> are the registered streams and terminals in the
  order in which the registries are walked, which Go leaves open.
\<close>

definition forget_connection :: "wispConnection \<Rightarrow> wispConnection" where
  "forget_connection c =
     (case wc_globals c of
        None \<Rightarrow> c
      | Some g \<Rightarrow> c\<lparr>wc_globals := Some (g\<lparr>
          g_Connections := Release (g_Connections g),
          g_Signature := map_option (Signatures_Forget (wc_connID c)) (g_Signature g)\<rparr>)\<rparr>)"

definition deleteAllWispStreams :: "nat list \<Rightarrow> nat list \<Rightarrow> wispConnection \<Rightarrow> wispConnection" where
  "deleteAllWispStreams ps qs c =
     forget_connection
       (fold (\<lambda>q. twisp_close q closeReasonUnspecified) qs
         (fold (\<lambda>p. stream_close p closeReasonUnspecified) ps (on_wire wire_close c)))"

text \<open>
  The loop of \<open>readLoop\<close> among the other goroutines of the connection: \<open>es n\<close> is what the
  environment answers during frame \<open>n\<close>, and \<open>others n\<close> what the other goroutines do to the
  connection while the loop waits for frame \<open>n\<close>. A write to a target on the goroutine of the
  loop (an ingress writer without a predecessor) is taken to return, with or without an
  error.
\<close>

partial_function (option) readLoop_with ::
    "(string \<Rightarrow> string \<Rightarrow> bool) \<Rightarrow> (nat \<Rightarrow> time) \<Rightarrow> (nat \<Rightarrow> wispConnection \<Rightarrow> wispConnection)
      \<Rightarrow> nat \<Rightarrow> frameReader \<Rightarrow> wispConnection \<Rightarrow> wispConnection option" where
  "readLoop_with bcrypt es others n f c0 =
     (let c = others n c0 in
      case readFrame (maxPayloadSize (wc_config c)) f of
        None \<Rightarrow> None
      | Some (ReadError, f') \<Rightarrow> Some c
      | Some (Refuse reason, f') \<Rightarrow> Some (on_wire (sendWSClose reason) c)
      | Some (Frame opcode payload, f') \<Rightarrow>
          (case dispatch_frame bcrypt (es n) opcode payload n c of (continue, c') \<Rightarrow>
             if continue then readLoop_with bcrypt es others (Suc n) f' c' else Some c'))"

text \<open>
  The whole of it: the deferred \<open>deleteAllWispStreams\<close> runs on every way out, behind \<open>rest\<close>, what
  the other goroutines do between the last round and the clean-up.
\<close>

definition readLoop_among ::
    "(string \<Rightarrow> string \<Rightarrow> bool) \<Rightarrow> (nat \<Rightarrow> time) \<Rightarrow> (nat \<Rightarrow> wispConnection \<Rightarrow> wispConnection)
      \<Rightarrow> (wispConnection \<Rightarrow> wispConnection) \<Rightarrow> (wispConnection \<Rightarrow> nat list \<times> nat list)
      \<Rightarrow> net_in \<Rightarrow> wispConnection \<Rightarrow> wispConnection option" where
  "readLoop_among bcrypt es others rest order conn c =
     map_option (\<lambda>c'. let d = rest c' in deleteAllWispStreams (fst (order d)) (snd (order d)) d)
       (readLoop_with bcrypt es others 0 (newFrameReader conn) c)"

text \<open>
  The loop left to itself: \<open>readLoop_with\<close> where the other goroutines do nothing, for the
  statements about what one client makes of one stream.
\<close>

definition readLoop_from ::
    "(string \<Rightarrow> string \<Rightarrow> bool) \<Rightarrow> (nat \<Rightarrow> time) \<Rightarrow> nat \<Rightarrow> frameReader \<Rightarrow> wispConnection
      \<Rightarrow> wispConnection option" where
  "readLoop_from bcrypt es = readLoop_with bcrypt es (\<lambda>_ c. c)"

lemma readLoop_from_simps:
  "readLoop_from bcrypt es n f c =
     (case readFrame (maxPayloadSize (wc_config c)) f of
        None \<Rightarrow> None
      | Some (ReadError, f') \<Rightarrow> Some c
      | Some (Refuse reason, f') \<Rightarrow> Some (on_wire (sendWSClose reason) c)
      | Some (Frame opcode payload, f') \<Rightarrow>
          (case dispatch_frame bcrypt (es n) opcode payload n c of (continue, c') \<Rightarrow>
             if continue then readLoop_from bcrypt es (Suc n) f' c' else Some c'))"
  unfolding readLoop_from_def by (subst readLoop_with.simps) (simp only: Let_def)

definition readLoop ::
    "(string \<Rightarrow> string \<Rightarrow> bool) \<Rightarrow> (nat \<Rightarrow> time) \<Rightarrow> (wispConnection \<Rightarrow> nat list \<times> nat list)
      \<Rightarrow> net_in \<Rightarrow> wispConnection \<Rightarrow> wispConnection option" where
  "readLoop bcrypt es = readLoop_among bcrypt es (\<lambda>_ c. c) (\<lambda>c. c)"

definition v2Handshake ::
    "(string \<Rightarrow> string \<Rightarrow> bool) \<Rightarrow> (nat \<Rightarrow> time) \<Rightarrow> (wispConnection \<Rightarrow> nat list \<times> nat list)
      \<Rightarrow> net_in \<Rightarrow> wispConnection \<Rightarrow> wispConnection option" where
  "v2Handshake bcrypt es order conn c =
     readLoop bcrypt es order conn
       (on_wire (sendRawFrame (buildServerInfoPacket (wc_config c)))
         (c\<lparr>wc_handshakeDone := Some False\<rparr>))"

end
