(* ===== verification/Conn_Inv.thy ===== *)
theory Conn_Inv
  imports Conn_Handlers
begin

text \<open>
  The invariant of a connection and its preservation, operation by operation: the registry,
  the lookup cache and the counter agree with the open streams, every open stream has
  exactly one goroutine, each goroutine finds its stream in the state it relies on, and no
  nil connection is dereferenced.
\<close>

section \<open>The invariant\<close>

text \<open>The goroutine that runs \<open>handleConnect\<close> of a stream owns it.\<close>

fun owner :: "task \<Rightarrow> nat option" where
  "owner (ConnectTask p _ _ _) = Some p"
| "owner (DialTask p _ _ _ _) = Some p"
| "owner (FlushTask p _) = Some p"
| "owner (ReadyTask p) = Some p"
| "owner (ReadTask p) = Some p"
| "owner (CloseTask _ _) = None"
| "owner (TwispTask _ _) = None"
| "owner (PtyTask _) = None"
| "owner (WaitTask _) = None"
| "owner (TwispCloseTask _ _) = None"

definition owners :: "wispConnection \<Rightarrow> nat list" where
  "owners c = List.map_filter owner (wc_tasks c)"

lemma in_owners: "p \<in> set (owners c) \<longleftrightarrow> (\<exists>t \<in> set (wc_tasks c). owner t = Some p)"
  by (force simp: owners_def List.map_filter_def image_iff)

text \<open>What each goroutine relies on at the point it has reached.\<close>

definition stream_of_task :: "wispStream list \<Rightarrow> task \<Rightarrow> bool" where
  "stream_of_task heap t =
     (case t of
        ConnectTask p _ _ _ \<Rightarrow> p < length heap \<and> \<not> ws_ingressActive (heap ! p)
          \<and> (ws_isOpen (heap ! p) \<longrightarrow> \<not> ws_connReadyDone (heap ! p))
      | DialTask p _ _ _ _ \<Rightarrow> p < length heap \<and> \<not> ws_ingressActive (heap ! p)
          \<and> (ws_isOpen (heap ! p) \<longrightarrow> \<not> ws_connReadyDone (heap ! p))
      | FlushTask p _ \<Rightarrow> p < length heap \<and> ws_conn (heap ! p) \<noteq> None
          \<and> (ws_isOpen (heap ! p) \<longrightarrow> \<not> ws_connReadyDone (heap ! p))
      | ReadyTask p \<Rightarrow> p < length heap \<and> ws_conn (heap ! p) \<noteq> None
      | ReadTask p \<Rightarrow> p < length heap \<and> ws_conn (heap ! p) \<noteq> None
      | CloseTask p _ \<Rightarrow> p < length heap
      | _ \<Rightarrow> True)"

definition stream_ok :: "wispStream \<Rightarrow> bool" where
  "stream_ok s =
     ((ws_ingressActive s \<longrightarrow> ws_conn s \<noteq> None)
      \<and> (ws_isOpen s \<longrightarrow> ws_connReadyDone s \<longrightarrow> ws_conn s \<noteq> None)
      \<and> (\<not> ws_isOpen s \<longrightarrow> ws_connReadyDone s)
      \<and> ws_pendingIngress s = [] \<and> \<not> ws_ingressWriting s)"

definition registry_ok :: "wispConnection \<Rightarrow> bool" where
  "registry_ok c =
     ((\<forall>i p. wc_streams c i = Some p \<longrightarrow>
          p < length (wc_heap c) \<and> ws_streamId (stream_at p c) = i \<and> ws_isOpen (stream_at p c))
      \<and> (\<forall>p < length (wc_heap c). ws_isOpen (stream_at p c) \<longrightarrow>
          wc_streams c (ws_streamId (stream_at p c)) = Some p))"

definition cache_ok :: "wispConnection \<Rightarrow> bool" where
  "cache_ok c =
     (length (wc_streamCache c) = streamCacheSize
      \<and> (\<forall>k < streamCacheSize. \<forall>i p. wc_streamCache c ! k = (i, Some p) \<longrightarrow>
           wc_streams c i = Some p \<and> cache_slot i = k))"

definition count_ok :: "wispConnection \<Rightarrow> bool" where
  "count_ok c = (wc_streamCount c = go_int32 (int (card (dom (wc_streams c)))))"

text \<open>
  \<open>conn_inv q c\<close>: the invariant while the goroutine of stream \<open>q\<close> (if any) is running; its
  task is then not in the list.
\<close>

definition owned :: "nat option \<Rightarrow> wispConnection \<Rightarrow> bool" where
  "owned q c =
     (distinct (owners c)
      \<and> (\<forall>p. q = Some p \<longrightarrow> p \<notin> set (owners c) \<and> p < length (wc_heap c))
      \<and> (\<forall>p < length (wc_heap c). ws_isOpen (stream_at p c) \<longrightarrow> q = Some p \<or> p \<in> set (owners c)))"

definition conn_inv :: "nat option \<Rightarrow> wispConnection \<Rightarrow> bool" where
  "conn_inv q c =
     (registry_ok c \<and> cache_ok c \<and> count_ok c \<and> owned q c
      \<and> (\<forall>t \<in> set (wc_tasks c). stream_of_task (wc_heap c) t)
      \<and> (\<forall>s \<in> set (wc_heap c). stream_ok s) \<and> \<not> wc_panic c)"

lemma conn_invD:
  assumes "conn_inv q c"
  shows "registry_ok c" "cache_ok c" "count_ok c" "owned q c"
    "\<And>t. t \<in> set (wc_tasks c) \<Longrightarrow> stream_of_task (wc_heap c) t"
    "\<And>s. s \<in> set (wc_heap c) \<Longrightarrow> stream_ok s" "\<not> wc_panic c"
  using assms by (simp_all add: conn_inv_def)

text \<open>The invariant does not look at the sending side, the shared state and the pools.\<close>

lemma conn_inv_frame [simp]:
  "conn_inv q (c\<lparr>wc_wire := w\<rparr>) = conn_inv q c"
  "conn_inv q (c\<lparr>wc_globals := g\<rparr>) = conn_inv q c"
  "conn_inv q (c\<lparr>wc_dns := d\<rparr>) = conn_inv q c"
  "conn_inv q (c\<lparr>wc_dials := ds\<rparr>) = conn_inv q c"
  "conn_inv q (c\<lparr>wc_wsPool := ns\<rparr>) = conn_inv q c"
  "conn_inv q (c\<lparr>wc_copyPool := ns\<rparr>) = conn_inv q c"
  "conn_inv q (c\<lparr>wc_violations := v\<rparr>) = conn_inv q c"
  "conn_inv q (c\<lparr>wc_theap := th\<rparr>) = conn_inv q c"
  "conn_inv q (c\<lparr>wc_twispStreams := tr\<rparr>) = conn_inv q c"
  "conn_inv q (c\<lparr>wc_authenticated := b\<rparr>) = conn_inv q c"
  "conn_inv q (c\<lparr>wc_streamConfirm := b\<rparr>) = conn_inv q c"
  "conn_inv q (c\<lparr>wc_handshakeDone := hs\<rparr>) = conn_inv q c"
  by (simp_all add: conn_inv_def registry_ok_def cache_ok_def count_ok_def owned_def owners_def)

lemma on_wire_fields [simp]:
  "wc_heap (on_wire f c) = wc_heap c" "wc_streams (on_wire f c) = wc_streams c"
  "wc_tasks (on_wire f c) = wc_tasks c" "wc_config (on_wire f c) = wc_config c"
  "wc_globals (on_wire f c) = wc_globals c" "wc_streamCache (on_wire f c) = wc_streamCache c"
  "wc_dials (on_wire f c) = wc_dials c" "wc_streamCount (on_wire f c) = wc_streamCount c"
  "wc_isV2 (on_wire f c) = wc_isV2 c" "wc_authenticated (on_wire f c) = wc_authenticated c"
  "wc_handshakeDone (on_wire f c) = wc_handshakeDone c" "wc_theap (on_wire f c) = wc_theap c"
  "wc_twispStreams (on_wire f c) = wc_twispStreams c" "wc_wire (on_wire f c) = f (wc_wire c)"
  "wc_streamConfirm (on_wire f c) = wc_streamConfirm c" "wc_wsPool (on_wire f c) = wc_wsPool c"
  "wc_panic (on_wire f c) = wc_panic c" "wc_remoteIP (on_wire f c) = wc_remoteIP c"
  "wc_copyPool (on_wire f c) = wc_copyPool c" "wc_violations (on_wire f c) = wc_violations c"
  "conn_inv q (on_wire f c) = conn_inv q c"
  by (simp_all add: on_wire_def)

text \<open>
  An operation is quiet when it changes only what the invariant does not look at.
\<close>

definition quiet :: "wispConnection \<Rightarrow> wispConnection \<Rightarrow> bool" where
  "quiet c c' =
     (wc_heap c' = wc_heap c \<and> wc_streams c' = wc_streams c \<and> wc_tasks c' = wc_tasks c
      \<and> wc_config c' = wc_config c \<and> wc_streamCache c' = wc_streamCache c
      \<and> wc_streamCount c' = wc_streamCount c \<and> wc_isV2 c' = wc_isV2 c
      \<and> wc_authenticated c' = wc_authenticated c \<and> wc_handshakeDone c' = wc_handshakeDone c
      \<and> wc_theap c' = wc_theap c \<and> wc_dials c' = wc_dials c \<and> wc_panic c' = wc_panic c
      \<and> wc_remoteIP c' = wc_remoteIP c \<and> wc_streamConfirm c' = wc_streamConfirm c
      \<and> wc_twispStreams c' = wc_twispStreams c \<and> wc_connID c' = wc_connID c)"

lemma quiet_refl [simp]: "quiet c c"
  by (simp add: quiet_def)

lemma quiet_trans: "quiet a b \<Longrightarrow> quiet b c \<Longrightarrow> quiet a c"
  by (simp add: quiet_def)

lemma quiet_inv: "quiet c c' \<Longrightarrow> conn_inv q c' = conn_inv q c"
  by (simp add: quiet_def conn_inv_def registry_ok_def cache_ok_def count_ok_def owned_def owners_def)

lemma quiet_fields:
  assumes "quiet c c'"
  shows "wc_heap c' = wc_heap c" "wc_streams c' = wc_streams c" "wc_tasks c' = wc_tasks c"
    "wc_config c' = wc_config c" "wc_streamCache c' = wc_streamCache c"
    "wc_streamCount c' = wc_streamCount c" "wc_isV2 c' = wc_isV2 c"
    "wc_authenticated c' = wc_authenticated c" "wc_handshakeDone c' = wc_handshakeDone c"
    "wc_theap c' = wc_theap c" "wc_dials c' = wc_dials c" "wc_panic c' = wc_panic c"
    "wc_remoteIP c' = wc_remoteIP c" "wc_streamConfirm c' = wc_streamConfirm c"
    "wc_twispStreams c' = wc_twispStreams c" "wc_connID c' = wc_connID c"
  using assms by (simp_all add: quiet_def)

lemma quiet_ops [simp]:
  "quiet c (on_wire f c)" "quiet c (violation c)" "quiet c (repAddSource now r c)"
  "quiet c (repAddDest now h port r c)" "quiet c (put_ws_buf b c)" "quiet c (releaseIngressJob j c)"
  "quiet c (release_syn a c)" "quiet c (snd (allow_per_source now k c))"
  "quiet c (snd (allow_dest_sec now k c))" "quiet c (snd (allow_dest_min now k c))"
  "quiet c (snd (snd (acquire_syn ty c)))" "quiet c (snd (record_dial now ty h port ok c))"
  "quiet c (c\<lparr>wc_dns := d\<rparr>)" "quiet c (forget_connection c)"
  by (auto simp: quiet_def on_wire_def violation_def repAddSource_def repAddDest_def put_ws_buf_def
      releaseIngressJob_def release_syn_def allow_per_source_def allow_dest_sec_def
      allow_dest_min_def acquire_syn_def record_dial_def forget_connection_def
      split: option.splits ingressPool.splits prod.splits)

lemma quiet_fold_release [simp]: "quiet c (fold releaseIngressJob js c)"
  by (induction js arbitrary: c) (auto intro: quiet_trans quiet_ops(6))


section \<open>Closing a stream\<close>

definition shut :: "wispStream \<Rightarrow> wispStream" where
  "shut s = s\<lparr>ws_isOpen := False, ws_connReadyDone := True, ws_conn := map_option nc_Close (ws_conn s),
     ws_ingressActive := False,
     ws_pendingIngress := (if ws_ingressActive s \<and> \<not> ws_ingressWriting s then []
                           else ws_pendingIngress s)\<rparr>"

definition shut_stream :: "nat \<Rightarrow> wispConnection \<Rightarrow> wispConnection" where
  "shut_stream p c =
     (deleteWispStream (ws_streamId (stream_at p c)) c)
       \<lparr>wc_heap := (wc_heap c)[p := shut (stream_at p c)]\<rparr>"

definition drained :: "wispStream \<Rightarrow> wispStream" where
  "drained s = s\<lparr>ws_ingressActive := False,
     ws_pendingIngress := (if ws_ingressActive s \<and> \<not> ws_ingressWriting s then []
                           else ws_pendingIngress s)\<rparr>"

lemma shut_drained:
  "shut s = drained (s\<lparr>ws_isOpen := False, ws_connReadyDone := True,
     ws_conn := map_option nc_Close (ws_conn s)\<rparr>)"
  by (cases s) (simp add: shut_def drained_def)

lemma stream_drain_shape:
  assumes "p < length h"
  shows "quiet (b\<lparr>wc_heap := h[p := drained s]\<rparr>) (stream_drain p (b\<lparr>wc_heap := h[p := s]\<rparr>))"
proof -
  consider "\<not> ws_ingressActive s" | "ws_ingressActive s" "ws_ingressWriting s"
    | "ws_ingressActive s" "\<not> ws_ingressWriting s" by blast
  then show ?thesis
  proof cases
    case 1
    then have "drained s = s" by (cases s) (simp add: drained_def)
    with 1 assms show ?thesis by (simp add: stream_drain_def)
  next
    case 2
    then have "drained s = s\<lparr>ws_ingressActive := False\<rparr>" by (cases s) (simp add: drained_def)
    with 2 assms show ?thesis by (simp add: stream_drain_def upd_stream_def)
  next
    case 3
    with assms show ?thesis by (simp add: stream_drain_def upd_stream_def drained_def)
  qed
qed

lemma stream_close_shape:
  assumes "p < length (wc_heap c)" and "ws_isOpen (stream_at p c)"
  shows "quiet (shut_stream p c) (stream_close p reason c)"
proof -
  let ?s = "stream_at p c"
  let ?c1 = "signalConnReady p (upd_stream p (\<lambda>s. s\<lparr>ws_isOpen := False\<rparr>) c)"
  let ?c2 = "stream_close_conn p (deleteWispStream (ws_streamId ?s) ?c1)"
  have c1: "?c1 = c\<lparr>wc_heap := (wc_heap c)[p := ?s\<lparr>ws_isOpen := False, ws_connReadyDone := True\<rparr>]\<rparr>"
    using assms by (cases ?s) (simp add: signalConnReady_def upd_stream_def)
  have c2: "?c2 = (deleteWispStream (ws_streamId ?s) c)\<lparr>wc_heap := (wc_heap c)[p :=
      ?s\<lparr>ws_isOpen := False, ws_connReadyDone := True, ws_conn := map_option nc_Close (ws_conn ?s)\<rparr>]\<rparr>"
    using assms unfolding stream_close_conn_def c1
    by (simp add: upd_stream_def deleteWispStream_def)
  have "quiet (shut_stream p c) (stream_drain p ?c2)"
    unfolding c2 shut_stream_def shut_drained using stream_drain_shape assms(1) by blast
  then have drain: "quiet (shut_stream p c) (stream_drain p ?c2)" .
  have "stream_close p reason c = on_wire (sendClosePacket (ws_streamId ?s) reason) (stream_drain p ?c2)"
    using assms by (simp add: stream_close_def)
  then show ?thesis
    using drain by (auto intro: quiet_trans)
qed

lemma stream_close_closed [simp]: "\<not> ws_isOpen (stream_at p c) \<Longrightarrow> stream_close p reason c = c"
  by (simp add: stream_close_def)

lemma shut_simps [simp]:
  "ws_isOpen (shut s) = False" "ws_connReadyDone (shut s) = True"
  "ws_conn (shut s) = map_option nc_Close (ws_conn s)" "ws_ingressActive (shut s) = False"
  "ws_streamId (shut s) = ws_streamId s" "ws_ingressWriting (shut s) = ws_ingressWriting s"
  "ws_portNum (shut s) = ws_portNum s" "ws_streamType (shut s) = ws_streamType s"
  by (simp_all add: shut_def)

lemma stream_ok_shut: "stream_ok s \<Longrightarrow> stream_ok (shut s)"
  by (simp add: stream_ok_def shut_def)

lemma stream_of_task_shut:
  "stream_of_task heap t \<Longrightarrow> p < length heap \<Longrightarrow> stream_of_task (heap[p := shut (heap ! p)]) t"
  by (auto simp: stream_of_task_def nth_list_update split: task.splits)

lemma set_update_ok:
  "(\<forall>x \<in> set xs. P x) \<Longrightarrow> P y \<Longrightarrow> \<forall>x \<in> set (xs[i := y]). P x"
  using set_update_subset_insert [of xs i y] by blast

lemma go_int32_mod: "go_int32 (go_int32 x + y) = go_int32 (x + y)"
  unfolding go_int32_def by (simp add: signed_take_bit_eq_take_bit_shift take_bit_eq_mod
      mod_simps algebra_simps)

lemma finite_streams: "registry_ok c \<Longrightarrow> finite (dom (wc_streams c))"
proof -
  assume ok: "registry_ok c"
  have "dom (wc_streams c) \<subseteq> (\<lambda>p. ws_streamId (stream_at p c)) ` {..<length (wc_heap c)}"
    using ok by (auto simp: registry_ok_def image_iff)
  then show ?thesis by (rule finite_subset) simp
qed

lemma cache_slot_less: "cache_slot i < streamCacheSize"
proof -
  have "unat (i AND 31) \<le> unat (31 :: u32)"
    by (metis word_and_le1 word_le_nat_alt)
  then show ?thesis by (simp add: cache_slot_def streamCacheSize_def)
qed

lemma cache_ok_delete:
  assumes ok: "cache_ok c"
  shows "cache_ok (deleteWispStream sid c)"
proof -
  let ?k0 = "cache_slot sid"
  let ?cache' = "wc_streamCache (deleteWispStream sid c)"
  have len: "length (wc_streamCache c) = streamCacheSize"
    using ok by (simp add: cache_ok_def)
  have "wc_streams (deleteWispStream sid c) i = Some q \<and> cache_slot i = k"
    if k: "k < streamCacheSize" and e: "?cache' ! k = (i, Some q)" for k i q
  proof -
    have eq: "wc_streamCache c ! k = (i, Some q)" and ne: "i = sid \<Longrightarrow> k \<noteq> ?k0"
      using k e len cache_slot_less [of sid]
      by (auto simp: deleteWispStream_def nth_list_update split: if_splits)
    have "wc_streams c i = Some q \<and> cache_slot i = k"
      using ok k eq by (simp add: cache_ok_def)
    with ne show ?thesis by (auto simp: deleteWispStream_def)
  qed
  then show ?thesis
    using len by (simp add: cache_ok_def) (simp add: deleteWispStream_def)
qed

lemma shut_stream_inv:
  assumes inv: "conn_inv q c" and p: "p < length (wc_heap c)" and op: "ws_isOpen (stream_at p c)"
  shows "conn_inv q (shut_stream p c)"
proof -
  let ?i = "ws_streamId (stream_at p c)"
  note i = conn_invD [OF inv]
  have reg: "wc_streams c ?i = Some p"
    using i(1) p op by (simp add: registry_ok_def)
  have inj: "wc_streams c j = Some p \<Longrightarrow> j = ?i" for j
    using i(1) by (auto simp: registry_ok_def)
  have "registry_ok (shut_stream p c)"
    unfolding registry_ok_def
  proof (intro conjI allI impI)
    fix j k
    assume "wc_streams (shut_stream p c) j = Some k"
    then have jk: "wc_streams c j = Some k" "j \<noteq> ?i"
      by (auto simp: shut_stream_def deleteWispStream_def split: if_splits)
    then have "k \<noteq> p" using inj by blast
    with jk i(1) show "k < length (wc_heap (shut_stream p c))"
      "ws_streamId (stream_at k (shut_stream p c)) = j" "ws_isOpen (stream_at k (shut_stream p c))"
      by (auto simp: registry_ok_def shut_stream_def)
  next
    fix k
    assume k: "k < length (wc_heap (shut_stream p c))" "ws_isOpen (stream_at k (shut_stream p c))"
    then have "k \<noteq> p" using p by (auto simp: shut_stream_def)
    then have "wc_streams c (ws_streamId (stream_at k c)) = Some k"
      using k i(1) by (auto simp: registry_ok_def shut_stream_def)
    moreover from this have "ws_streamId (stream_at k c) \<noteq> ?i"
      using reg \<open>k \<noteq> p\<close> by auto
    ultimately show "wc_streams (shut_stream p c) (ws_streamId (stream_at k (shut_stream p c))) = Some k"
      using \<open>k \<noteq> p\<close> by (simp add: shut_stream_def deleteWispStream_def)
  qed
  moreover have "cache_ok (shut_stream p c)"
    using cache_ok_delete [OF i(2), of ?i] by (simp add: shut_stream_def cache_ok_def)
  moreover have "count_ok (shut_stream p c)"
  proof -
    have "card (dom (wc_streams c)) = Suc (card (dom (wc_streams c) - {?i}))"
      using reg finite_streams [OF i(1)] by (intro card.remove) auto
    then show ?thesis
      using i(3) go_int32_mod [of "int (card (dom (wc_streams c)))" "- 1"]
      by (simp add: count_ok_def shut_stream_def deleteWispStream_def)
  qed
  moreover have "owned q (shut_stream p c)"
    using i(4) p
    by (auto simp: owned_def owners_def shut_stream_def deleteWispStream_def nth_list_update)
  moreover have "\<forall>t \<in> set (wc_tasks (shut_stream p c)). stream_of_task (wc_heap (shut_stream p c)) t"
    using i(5) p stream_of_task_shut by (simp add: shut_stream_def deleteWispStream_def)
  moreover have "\<forall>s \<in> set (wc_heap (shut_stream p c)). stream_ok s"
    using i(6) set_update_ok [of "wc_heap c" stream_ok "shut (stream_at p c)" p]
      stream_ok_shut [OF i(6) [OF nth_mem [OF p]]]
    by (simp add: shut_stream_def)
  moreover have "\<not> wc_panic (shut_stream p c)"
    using i(7) by (simp add: shut_stream_def deleteWispStream_def)
  ultimately show ?thesis by (simp add: conn_inv_def)
qed

lemma stream_close_inv [inv_intros]:
  assumes "conn_inv q c" and "p < length (wc_heap c)"
  shows "conn_inv q (stream_close p reason c)"
proof (cases "ws_isOpen (stream_at p c)")
  case True
  from quiet_inv [OF stream_close_shape [OF assms(2) True]] shut_stream_inv [OF assms True]
  show ?thesis by simp
qed (use assms in simp)

text \<open>What \<open>close\<close> leaves behind, whether or not it was the first call.\<close>

lemma stream_close_fields:
  assumes "p < length (wc_heap c)"
  shows "wc_heap (stream_close p r c) =
      (if ws_isOpen (stream_at p c) then (wc_heap c)[p := shut (stream_at p c)] else wc_heap c)"
    and "wc_tasks (stream_close p r c) = wc_tasks c" "wc_config (stream_close p r c) = wc_config c"
    and "wc_isV2 (stream_close p r c) = wc_isV2 c" "wc_theap (stream_close p r c) = wc_theap c"
    and "wc_authenticated (stream_close p r c) = wc_authenticated c"
    and "wc_handshakeDone (stream_close p r c) = wc_handshakeDone c"
    and "wc_dials (stream_close p r c) = wc_dials c"
    and "length (wc_heap (stream_close p r c)) = length (wc_heap c)"
    and "\<not> ws_isOpen (stream_at p (stream_close p r c))"
    and "dom (wc_streams (stream_close p r c)) \<subseteq> dom (wc_streams c)"
proof -
  have "wc_heap (stream_close p r c) =
      (if ws_isOpen (stream_at p c) then (wc_heap c)[p := shut (stream_at p c)] else wc_heap c)
    \<and> wc_tasks (stream_close p r c) = wc_tasks c \<and> wc_config (stream_close p r c) = wc_config c
    \<and> wc_isV2 (stream_close p r c) = wc_isV2 c \<and> wc_theap (stream_close p r c) = wc_theap c
    \<and> wc_authenticated (stream_close p r c) = wc_authenticated c
    \<and> wc_handshakeDone (stream_close p r c) = wc_handshakeDone c
    \<and> wc_dials (stream_close p r c) = wc_dials c
    \<and> dom (wc_streams (stream_close p r c)) \<subseteq> dom (wc_streams c)"
  proof (cases "ws_isOpen (stream_at p c)")
    case True
    from quiet_fields [OF stream_close_shape [OF assms True, of r]] True show ?thesis
      by (auto simp: shut_stream_def deleteWispStream_def)
  qed simp
  moreover from this have "length (wc_heap (stream_close p r c)) = length (wc_heap c)"
    "\<not> ws_isOpen (stream_at p (stream_close p r c))"
    using assms by auto
  ultimately show "wc_heap (stream_close p r c) =
      (if ws_isOpen (stream_at p c) then (wc_heap c)[p := shut (stream_at p c)] else wc_heap c)"
    and "wc_tasks (stream_close p r c) = wc_tasks c" "wc_config (stream_close p r c) = wc_config c"
    and "wc_isV2 (stream_close p r c) = wc_isV2 c" "wc_theap (stream_close p r c) = wc_theap c"
    and "wc_authenticated (stream_close p r c) = wc_authenticated c"
    and "wc_handshakeDone (stream_close p r c) = wc_handshakeDone c"
    and "wc_dials (stream_close p r c) = wc_dials c"
    and "length (wc_heap (stream_close p r c)) = length (wc_heap c)"
    and "\<not> ws_isOpen (stream_at p (stream_close p r c))"
    and "dom (wc_streams (stream_close p r c)) \<subseteq> dom (wc_streams c)"
    by blast+
qed


section \<open>Goroutines and their streams\<close>

lemma mset_map_filter_remove1:
  "t \<in> set ts \<Longrightarrow> f t = Some p \<Longrightarrow>
     mset (List.map_filter f ts) = mset (p # List.map_filter f (remove1 t ts))"
proof (induction ts)
  case (Cons u ts)
  then show ?case
    by (cases "u = t"; cases "f u") (simp_all add: List.map_filter_simps add_mset_commute)
qed simp

lemma map_filter_remove1:
  assumes "t \<in> set ts" and "distinct (List.map_filter f ts)" and "f t = Some p"
  shows "p \<notin> set (List.map_filter f (remove1 t ts))" "distinct (List.map_filter f (remove1 t ts))"
    "set (List.map_filter f ts) = insert p (set (List.map_filter f (remove1 t ts)))"
proof -
  note eq = mset_map_filter_remove1 [where f = f and t = t and ts = ts and p = p, OF assms(1,3)]
  from mset_eq_imp_distinct_iff [OF eq] assms(2)
  show "p \<notin> set (List.map_filter f (remove1 t ts))" "distinct (List.map_filter f (remove1 t ts))"
    by simp_all
  from mset_eq_setD [OF eq]
  show "set (List.map_filter f ts) = insert p (set (List.map_filter f (remove1 t ts)))" by simp
qed

lemma map_filter_remove1_None:
  "f t = None \<Longrightarrow> List.map_filter f (remove1 t ts) = List.map_filter f ts"
  by (induction ts) (auto simp: List.map_filter_simps split: option.splits)

definition end_task :: "task \<Rightarrow> wispConnection \<Rightarrow> wispConnection" where
  "end_task t c = c\<lparr>wc_tasks := remove1 t (wc_tasks c)\<rparr>"

lemma end_task_fields [simp]:
  "wc_heap (end_task t c) = wc_heap c" "wc_streams (end_task t c) = wc_streams c"
  "wc_config (end_task t c) = wc_config c" "wc_dials (end_task t c) = wc_dials c"
  "wc_tasks (end_task t c) = remove1 t (wc_tasks c)" "wc_wire (end_task t c) = wc_wire c"
  "wc_globals (end_task t c) = wc_globals c" "wc_dns (end_task t c) = wc_dns c"
  "wc_isV2 (end_task t c) = wc_isV2 c" "wc_authenticated (end_task t c) = wc_authenticated c"
  "wc_handshakeDone (end_task t c) = wc_handshakeDone c" "wc_theap (end_task t c) = wc_theap c"
  "wc_streamConfirm (end_task t c) = wc_streamConfirm c" "wc_panic (end_task t c) = wc_panic c"
  by (simp_all add: end_task_def)

lemma end_task_owner:
  assumes inv: "conn_inv None c" and t: "t \<in> set (wc_tasks c)" and own: "owner t = Some p"
  shows "conn_inv (Some p) (end_task t c)" and "stream_of_task (wc_heap c) t"
proof -
  note i = conn_invD [OF inv]
  show st: "stream_of_task (wc_heap c) t" using i(5) [OF t] .
  have len: "p < length (wc_heap c)"
    using st own by (cases t) (auto simp: stream_of_task_def)
  have "distinct (owners c)" using i(4) by (simp add: owned_def)
  note r = map_filter_remove1 [OF t this [unfolded owners_def] own]
  have "owned (Some p) (end_task t c)"
    using i(4) r len by (auto simp: owned_def owners_def)
  moreover have "registry_ok (end_task t c)" "cache_ok (end_task t c)" "count_ok (end_task t c)"
    using i(1-3) by (simp_all add: registry_ok_def cache_ok_def count_ok_def end_task_def)
  moreover have "\<forall>u \<in> set (wc_tasks (end_task t c)). stream_of_task (wc_heap (end_task t c)) u"
    using i(5) set_remove1_subset [of t "wc_tasks c"] by auto
  ultimately show "conn_inv (Some p) (end_task t c)"
    using i(6,7) by (simp add: conn_inv_def)
qed

lemma end_task_other:
  assumes inv: "conn_inv None c" and own: "owner t = None"
  shows "conn_inv None (end_task t c)"
proof -
  note i = conn_invD [OF inv]
  have "owned None (end_task t c)"
    using i(4) map_filter_remove1_None [of owner t, OF own] by (auto simp: owned_def owners_def)
  moreover have "registry_ok (end_task t c)" "cache_ok (end_task t c)" "count_ok (end_task t c)"
    using i(1-3) by (simp_all add: registry_ok_def cache_ok_def count_ok_def end_task_def)
  moreover have "\<forall>u \<in> set (wc_tasks (end_task t c)). stream_of_task (wc_heap (end_task t c)) u"
    using i(5) set_remove1_subset [of t "wc_tasks c"] by auto
  ultimately show ?thesis
    using i(6,7) by (simp add: conn_inv_def)
qed

lemma finish_closed:
  "conn_inv (Some p) c \<Longrightarrow> \<not> ws_isOpen (stream_at p c) \<Longrightarrow> conn_inv None c"
  by (auto simp: conn_inv_def owned_def)

lemma spawn_fields [simp]:
  "wc_heap (spawn t c) = wc_heap c" "wc_streams (spawn t c) = wc_streams c"
  "wc_config (spawn t c) = wc_config c" "wc_dials (spawn t c) = wc_dials c"
  "wc_tasks (spawn t c) = wc_tasks c @ [t]" "wc_wire (spawn t c) = wc_wire c"
  "wc_isV2 (spawn t c) = wc_isV2 c" "wc_authenticated (spawn t c) = wc_authenticated c"
  "wc_handshakeDone (spawn t c) = wc_handshakeDone c" "wc_theap (spawn t c) = wc_theap c"
  "wc_panic (spawn t c) = wc_panic c" "wc_globals (spawn t c) = wc_globals c"
  by (simp_all add: spawn_def)

lemma owners_spawn [simp]:
  "owners (spawn t c) = owners c @ (case owner t of None \<Rightarrow> [] | Some p \<Rightarrow> [p])"
  by (simp add: owners_def List.map_filter_def split: option.splits)

lemma finish_spawn:
  assumes "conn_inv (Some p) c" and "owner t = Some p" and "stream_of_task (wc_heap c) t"
  shows "conn_inv None (spawn t c)"
proof -
  note i = conn_invD [OF assms(1)]
  have "owned None (spawn t c)"
    using i(4) assms(2) by (auto simp: owned_def)
  moreover have "registry_ok (spawn t c)" "cache_ok (spawn t c)" "count_ok (spawn t c)"
    using i(1-3) by (simp_all add: registry_ok_def cache_ok_def count_ok_def spawn_def)
  ultimately show ?thesis
    using i(5-7) assms(3) by (auto simp: conn_inv_def)
qed

lemma spawn_other:
  assumes "conn_inv q c" and "owner t = None" and "stream_of_task (wc_heap c) t"
  shows "conn_inv q (spawn t c)"
proof -
  note i = conn_invD [OF assms(1)]
  have "owned q (spawn t c)"
    using i(4) assms(2) by (auto simp: owned_def)
  moreover have "registry_ok (spawn t c)" "cache_ok (spawn t c)" "count_ok (spawn t c)"
    using i(1-3) by (simp_all add: registry_ok_def cache_ok_def count_ok_def spawn_def)
  ultimately show ?thesis
    using i(5-7) assms(3) by (auto simp: conn_inv_def)
qed

subsection \<open>Changing a stream\<close>

lemma upd_stream_fields [simp]:
  "wc_heap (upd_stream p f c) = (wc_heap c)[p := f (stream_at p c)]"
  "wc_streams (upd_stream p f c) = wc_streams c" "wc_tasks (upd_stream p f c) = wc_tasks c"
  "wc_config (upd_stream p f c) = wc_config c" "wc_dials (upd_stream p f c) = wc_dials c"
  "wc_globals (upd_stream p f c) = wc_globals c" "wc_dns (upd_stream p f c) = wc_dns c"
  "wc_isV2 (upd_stream p f c) = wc_isV2 c" "wc_authenticated (upd_stream p f c) = wc_authenticated c"
  "wc_handshakeDone (upd_stream p f c) = wc_handshakeDone c" "wc_theap (upd_stream p f c) = wc_theap c"
  "wc_wire (upd_stream p f c) = wc_wire c" "wc_streamConfirm (upd_stream p f c) = wc_streamConfirm c"
  "wc_panic (upd_stream p f c) = wc_panic c" "wc_streamCache (upd_stream p f c) = wc_streamCache c"
  "wc_streamCount (upd_stream p f c) = wc_streamCount c" "wc_remoteIP (upd_stream p f c) = wc_remoteIP c"
  "wc_wsPool (upd_stream p f c) = wc_wsPool c" "wc_connID (upd_stream p f c) = wc_connID c"
  by (simp_all add: upd_stream_def)

lemma upd_stream_parts:
  assumes inv: "conn_inv q c" and p: "p < length (wc_heap c)"
    and keep: "ws_streamId (f (stream_at p c)) = ws_streamId (stream_at p c)"
      "ws_isOpen (f (stream_at p c)) = ws_isOpen (stream_at p c)"
    and ok: "stream_ok (f (stream_at p c))"
    and tasks: "\<forall>t \<in> set (wc_tasks c). stream_of_task ((wc_heap c)[p := f (stream_at p c)]) t"
  shows "conn_inv q (upd_stream p f c)"
proof -
  note i = conn_invD [OF inv]
  have "registry_ok (upd_stream p f c)"
    using i(1) p keep by (auto simp: registry_ok_def nth_list_update)
  moreover have "cache_ok (upd_stream p f c)" "count_ok (upd_stream p f c)"
    using i(2,3) by (simp_all add: cache_ok_def count_ok_def)
  moreover have "owned q (upd_stream p f c)"
    using i(4) p keep by (auto simp: owned_def owners_def nth_list_update)
  moreover have "\<forall>s \<in> set (wc_heap (upd_stream p f c)). stream_ok s"
    using i(6) ok set_update_ok [of "wc_heap c" stream_ok] by simp
  ultimately show ?thesis
    using tasks i(7) by (simp add: conn_inv_def)
qed

lemma owner_of_task:
  "stream_of_task heap t \<Longrightarrow> owner t \<noteq> Some p \<Longrightarrow> stream_of_task (heap[p := s]) t"
  by (cases t) (auto simp: stream_of_task_def nth_list_update)

text \<open>The owner may change its stream as long as the stream stays in order.\<close>

lemma upd_stream_owner:
  assumes inv: "conn_inv (Some p) c"
    and keep: "ws_streamId (f (stream_at p c)) = ws_streamId (stream_at p c)"
      "ws_isOpen (f (stream_at p c)) = ws_isOpen (stream_at p c)"
    and ok: "stream_ok (f (stream_at p c))"
  shows "conn_inv (Some p) (upd_stream p f c)"
proof (rule upd_stream_parts [where f = f and p = p and c = c])
  note i = conn_invD [OF inv]
  show "conn_inv (Some p) c" "ws_streamId (f (stream_at p c)) = ws_streamId (stream_at p c)"
    "ws_isOpen (f (stream_at p c)) = ws_isOpen (stream_at p c)" "stream_ok (f (stream_at p c))"
    by (fact inv keep ok)+
  show "p < length (wc_heap c)" using i(4) by (simp add: owned_def)
  have "owner t \<noteq> Some p" if "t \<in> set (wc_tasks c)" for t
    using i(4) that by (auto simp: owned_def owners_def List.map_filter_def image_iff)
  then show "\<forall>t \<in> set (wc_tasks c). stream_of_task ((wc_heap c)[p := f (stream_at p c)]) t"
    using i(5) owner_of_task by blast
qed

text \<open>Anyone may change a stream in what the owners do not rely on.\<close>

lemma upd_stream_quiet:
  assumes inv: "conn_inv q c" and p: "p < length (wc_heap c)"
    and keep: "ws_streamId (f (stream_at p c)) = ws_streamId (stream_at p c)"
      "ws_isOpen (f (stream_at p c)) = ws_isOpen (stream_at p c)"
      "ws_connReadyDone (f (stream_at p c)) = ws_connReadyDone (stream_at p c)"
      "ws_conn (f (stream_at p c)) = None \<longleftrightarrow> ws_conn (stream_at p c) = None"
      "ws_ingressActive (f (stream_at p c)) = ws_ingressActive (stream_at p c)"
      "ws_pendingIngress (f (stream_at p c)) = []" "\<not> ws_ingressWriting (f (stream_at p c))"
  shows "conn_inv q (upd_stream p f c)"
proof (rule upd_stream_parts [where f = f and p = p and c = c])
  note i = conn_invD [OF inv]
  show "conn_inv q c" "p < length (wc_heap c)"
    "ws_streamId (f (stream_at p c)) = ws_streamId (stream_at p c)"
    "ws_isOpen (f (stream_at p c)) = ws_isOpen (stream_at p c)"
    by (fact inv p keep)+
  have "stream_ok (stream_at p c)" using i(6) p by simp
  then show "stream_ok (f (stream_at p c))"
    using keep by (auto simp: stream_ok_def)
  show "\<forall>t \<in> set (wc_tasks c). stream_of_task ((wc_heap c)[p := f (stream_at p c)]) t"
  proof
    fix t
    assume "t \<in> set (wc_tasks c)"
    then have "stream_of_task (wc_heap c) t" by (rule i(5))
    then show "stream_of_task ((wc_heap c)[p := f (stream_at p c)]) t"
      using p keep(2-5) by (cases t) (auto simp: stream_of_task_def nth_list_update)
  qed
qed

lemma signal_after_close:
  assumes "conn_inv q c" and "p < length (wc_heap c)"
  shows "signalConnReady p (stream_close p r c) = stream_close p r c"
proof -
  note i = conn_invD(6) [OF stream_close_inv [OF assms, of r]]
  have "p < length (wc_heap (stream_close p r c))"
    using assms stream_close_fields(9) by simp
  then have "stream_ok (stream_at p (stream_close p r c))"
    using i by simp
  with stream_close_fields(10) [OF assms(2)] show ?thesis
    by (simp add: stream_ok_def signalConnReady_def)
qed

lemma close_finish:
  assumes "conn_inv (Some p) c"
  shows "conn_inv None (signalConnReady p (stream_close p r c))"
proof -
  have p: "p < length (wc_heap c)"
    using conn_invD(4) [OF assms] by (simp add: owned_def)
  show ?thesis
    unfolding signal_after_close [OF assms p]
    by (rule finish_closed [OF stream_close_inv [OF assms p] stream_close_fields(10) [OF p]])
qed

section \<open>What closing leaves alone\<close>

lemma release_jobs_outside [simp]:
  "wc_wire (fold releaseIngressJob js c) = wc_wire c"
  "wc_globals (fold releaseIngressJob js c) = wc_globals c"
  "wc_tasks (fold releaseIngressJob js c) = wc_tasks c"
  "wc_theap (fold releaseIngressJob js c) = wc_theap c"
  "wc_connID (fold releaseIngressJob js c) = wc_connID c"
  by (induction js arbitrary: c) (simp_all add: releaseIngressJob_def split: option.split ingressPool.split)

lemma on_wire_connID [simp]: "wc_connID (on_wire f c) = wc_connID c"
  by (simp add: on_wire_def)

lemma stream_close_outside [simp]:
  "wc_globals (stream_close p r c) = wc_globals c" "wc_tasks (stream_close p r c) = wc_tasks c"
  "wc_theap (stream_close p r c) = wc_theap c" "wc_connID (stream_close p r c) = wc_connID c"
  by (simp_all add: stream_close_def stream_drain_def stream_close_conn_def deleteWispStream_def
      signalConnReady_def)

lemma stream_close_wire:
  "wc_wire (stream_close p r c) =
     (if ws_isOpen (stream_at p c) then sendClosePacket (ws_streamId (stream_at p c)) r (wc_wire c)
      else wc_wire c)"
  by (simp add: stream_close_def stream_drain_def stream_close_conn_def deleteWispStream_def
      signalConnReady_def)

lemma twisp_close_outside [simp]:
  "wc_globals (twisp_close q r c) = wc_globals c" "wc_tasks (twisp_close q r c) = wc_tasks c"
  "wc_heap (twisp_close q r c) = wc_heap c" "wc_connID (twisp_close q r c) = wc_connID c"
  by (simp_all add: twisp_close_def upd_twisp_def twisp_remove_def on_wire_def)

lemma twisp_close_wire:
  "wc_wire (twisp_close q r c) =
     (if ts_isOpen (wc_theap c ! q) then sendClosePacket (ts_streamId (wc_theap c ! q)) r (wc_wire c)
      else wc_wire c)"
  by (simp add: twisp_close_def upd_twisp_def twisp_remove_def)

end
