(* ===== verification/Conn_Steps.thy ===== *)
theory Conn_Steps
  imports Conn_Inv
begin

text \<open>
  The steps of a connection: a frame handled by the read loop, a goroutine going on, the
  end of the connection. Each keeps the invariant, so every reachable state has it.
\<close>

section \<open>The goroutine of a stream\<close>

lemma connect_dial_inv:
  assumes inv: "conn_inv (Some p) c" and st: "stream_of_task (wc_heap c) (DialTask p ty h pt a)"
  shows "conn_inv None (connect_dial e p streamType resolved port acquired c)"
proof -
  let ?f = "\<lambda>s. s\<lparr>ws_streamType := streamType,
    ws_bufferRemaining := cfg_BufferRemainingLength (wc_config c)\<rparr>"
  let ?c = "upd_stream p ?f c"
  have p: "p < length (wc_heap c)" using st by (simp add: stream_of_task_def)
  have "stream_ok (stream_at p c)" using conn_invD(6) [OF inv] p by simp
  then have c: "conn_inv (Some p) ?c"
    by (intro upd_stream_owner [OF inv]) (simp_all add: stream_ok_def)
  show ?thesis
  proof (cases "choose_dial (wc_config c) e streamType (ws_hostname (stream_at p ?c)) resolved port")
    case (Inl r)
    have "conn_inv (Some p) (release_syn acquired ?c)"
      using c quiet_inv [OF quiet_ops(7)] by blast
    from close_finish [OF this] Inl show ?thesis
      by (simp add: connect_dial_def Let_def)
  next
    case (Inr d)
    have "stream_of_task (wc_heap ?c) (DialTask p streamType resolved port acquired)"
      using st p by (simp add: stream_of_task_def)
    then have "conn_inv None (spawn (DialTask p streamType resolved port acquired)
        (?c\<lparr>wc_dials := wc_dials ?c @ [d]\<rparr>))"
      using c by (intro finish_spawn) simp_all
    with Inr show ?thesis by (simp add: connect_dial_def Let_def)
  qed
qed

lemma connect_limits_inv:
  assumes inv: "conn_inv (Some p) c" and st: "stream_of_task (wc_heap c) (DialTask p ty h pt a)"
  shows "conn_inv None (connect_limits e p streamType port resolved c)"
proof -
  obtain ok1 c1 where 1: "allow_dest_sec (e_now e) (JoinHostPort resolved port) c = (ok1, c1)" by fastforce
  obtain ok2 c2 where 2: "allow_dest_min (e_now e) (JoinHostPort resolved port) c1 = (ok2, c2)" by fastforce
  obtain ok3 a3 c3 where 3: "acquire_syn streamType c2 = (ok3, a3, c3)" by (metis prod_cases3)
  have q1: "quiet c c1" using quiet_ops(9) [of c] by (metis 1 snd_conv)
  have q2: "quiet c c2"
    using quiet_trans [OF q1] quiet_ops(10) [of c1] by (metis 2 snd_conv)
  have q3: "quiet c c3"
    using quiet_trans [OF q2] quiet_ops(11) [of c2] by (metis 3 snd_conv)
  have close: "conn_inv None (signalConnReady p (stream_close p r d))" if "quiet c d" for d r
    using close_finish quiet_inv [OF that] inv by blast
  have dial: "conn_inv None (connect_dial e p streamType resolved port a3 c3)"
    using connect_dial_inv [of p c3 ty h pt a] quiet_inv [OF q3] inv st quiet_fields(1) [OF q3] by simp
  have v: "quiet c (violation c2)" "quiet c (violation c3)"
    "quiet c (repAddSource (e_now e) ''requestKnownBadDest'' c2)"
    "quiet c (repAddDest (e_now e) resolved (ws_portNum (stream_at p c)) ''burstRate''
              (repAddSource (e_now e) ''burstRate'' (violation c1)))"
    by (rule quiet_trans [OF q2 quiet_ops(2)], rule quiet_trans [OF q3 quiet_ops(2)],
        rule quiet_trans [OF q2 quiet_ops(3)],
        rule quiet_trans [OF quiet_trans [OF quiet_trans [OF q1 quiet_ops(2)] quiet_ops(3)] quiet_ops(4)])
  show ?thesis
    by (simp only: connect_limits_def 1 2 3 prod.case)
      (simp only: dial close [OF v(1)] close [OF v(2)] close [OF v(3)] close [OF v(4)] if_cancel
        split: if_split, simp)
qed

lemma connect_start_inv:
  assumes inv: "conn_inv (Some p) c" and st: "stream_of_task (wc_heap c) (ConnectTask p ty pt h)"
  shows "conn_inv None (connect_start e p streamType port hostname c)"
proof -
  let ?c = "upd_stream p (\<lambda>s. s\<lparr>ws_hostname := NormalizeTargetHostname hostname\<rparr>) c"
  have p: "p < length (wc_heap c)" using st by (simp add: stream_of_task_def)
  have "stream_ok (stream_at p c)" using conn_invD(6) [OF inv] p by simp
  then have c: "conn_inv (Some p) ?c"
    by (intro upd_stream_owner [OF inv]) (simp_all add: stream_ok_def)
  obtain res dns where r: "resolve_target (wc_config ?c) e hostname (wc_dns ?c) = (res, dns)" by fastforce
  have d: "conn_inv (Some p) (?c\<lparr>wc_dns := dns\<rparr>)" using c by simp
  have "stream_of_task (wc_heap (?c\<lparr>wc_dns := dns\<rparr>)) (DialTask p ty h pt False)"
    using st p by (simp add: stream_of_task_def)
  from connect_limits_inv [OF d this] close_finish [OF c] close_finish [OF d] r show ?thesis
    by (auto simp: connect_start_def Let_def split: resolution.splits)
qed

lemma stream_close_conn_inv:
  assumes "conn_inv (Some p) c"
  shows "conn_inv (Some p) (stream_close_conn p c)"
proof -
  have p: "p < length (wc_heap c)" using conn_invD(4) [OF assms] by (simp add: owned_def)
  have "stream_ok (stream_at p c)" using conn_invD(6) [OF assms] p by simp
  then show ?thesis
    unfolding stream_close_conn_def
    by (intro upd_stream_owner [OF assms]) (simp_all add: stream_ok_def)
qed

lemma connect_dialed_inv:
  assumes inv: "conn_inv (Some p) c" and st: "stream_of_task (wc_heap c) (DialTask p ty h pt a)"
  shows "conn_inv None (connect_dialed e p streamType resolved acquired outcome c)"
proof -
  let ?f = "\<lambda>s. s\<lparr>ws_conn := (case outcome of Inl _ \<Rightarrow> None | Inr k \<Rightarrow> Some k)\<rparr>"
  let ?c1 = "release_syn acquired (upd_stream p ?f c)"
  have p: "p < length (wc_heap c)" using st by (simp add: stream_of_task_def)
  have "stream_ok (stream_at p c)" using conn_invD(6) [OF inv] p by simp
  then have "conn_inv (Some p) (upd_stream p ?f c)"
    using st by (intro upd_stream_owner [OF inv]) (auto simp: stream_ok_def stream_of_task_def)
  then have c1: "conn_inv (Some p) ?c1"
    using quiet_inv [OF quiet_ops(7)] by blast
  obtain m c2 where 2: "record_dial (e_now e) streamType resolved (ws_portNum (stream_at p c))
      (\<not> isl outcome) ?c1 = (m, c2)" by fastforce
  have q2: "quiet ?c1 c2" using quiet_ops(12) [of ?c1] by (metis 2 snd_conv)
  have c2: "conn_inv (Some p) c2" using quiet_inv [OF q2] c1 by simp
  have heap2: "wc_heap c2 = (wc_heap c)[p := ?f (stream_at p c)]"
    using quiet_fields(1) [OF q2] quiet_fields(1) [OF quiet_ops(7)] by simp
  show ?thesis
  proof (cases m)
    case True
    let ?d = "repAddDest (e_now e) resolved (ws_portNum (stream_at p c)) ''synSignature''
                (repAddSource (e_now e) ''synSignature'' c2)"
    have "quiet c2 ?d" by (rule quiet_trans [OF quiet_ops(3) quiet_ops(4)])
    then have d: "conn_inv (Some p) (stream_close_conn p ?d)"
      using quiet_inv c2 stream_close_conn_inv by blast
    let ?x = "stream_close p closeReasonBlocked (stream_close_conn p ?d)"
    have px: "p < length (wc_heap (stream_close_conn p ?d))"
      using conn_invD(4) [OF d] by (simp add: owned_def)
    have x: "conn_inv (Some p) ?x" "\<not> ws_isOpen (stream_at p ?x)"
      using stream_close_inv [OF d px] stream_close_fields(10) [OF px] by blast+
    have "stream_ok (stream_at p ?x)"
      using conn_invD(6) [OF x(1)] conn_invD(4) [OF x(1)] by (simp add: owned_def)
    then have "signalConnReady p (on_wire wire_close ?x) = on_wire wire_close ?x"
      using x(2) by (simp add: stream_ok_def signalConnReady_def)
    moreover have "conn_inv None ?x" using finish_closed x by blast
    ultimately show ?thesis
      using True 2 by (simp add: connect_dialed_def Let_def)
  next
    case F: False
    show ?thesis
    proof (cases outcome)
      case (Inl err)
      with F 2 close_finish [OF c2] show ?thesis
        by (simp add: connect_dialed_def Let_def)
    next
      case (Inr k)
      let ?c3 = "if wc_streamConfirm c2 \<and> streamType = streamTypeTCP
         then on_wire (sendPacket (ws_streamId (stream_at p c2)) (ws_bufferRemaining (stream_at p c2))) c2
         else c2"
      have c3: "conn_inv (Some p) ?c3" "wc_heap ?c3 = wc_heap c2" using c2 by simp_all
      let ?g = "\<lambda>s. s\<lparr>ws_pendingData := [], ws_pendingBytes := 0\<rparr>"
      have p2: "p < length (wc_heap c2)" using heap2 p by simp
      have "stream_ok (stream_at p ?c3)" using conn_invD(6) [OF c2] p2 c3(2) by simp
      then have c4: "conn_inv (Some p) (upd_stream p ?g ?c3)"
        by (intro upd_stream_owner [OF c3(1)]) (simp_all add: stream_ok_def)
      have "stream_of_task (wc_heap (upd_stream p ?g ?c3)) (FlushTask p (ws_pendingData (stream_at p ?c3)))"
        using st p heap2 c3(2) Inr by (auto simp: stream_of_task_def)
      from finish_spawn [OF c4 _ this] F Inr 2 show ?thesis
        by (simp add: connect_dialed_def Let_def)
    qed
  qed
qed

lemma stream_write_parts:
  assumes "ws_conn (stream_at p c) = Some k"
  shows "stream_write p d c =
     (fst (nc_Write d k), upd_stream p (\<lambda>s. s\<lparr>ws_conn := Some (snd (nc_Write d k))\<rparr>) c)"
  using assms by (simp add: stream_write_def)

lemma signal_owner:
  assumes "conn_inv (Some p) c" and "ws_conn (stream_at p c) \<noteq> None"
  shows "conn_inv (Some p) (signalConnReady p c)"
proof -
  have p: "p < length (wc_heap c)" using conn_invD(4) [OF assms(1)] by (simp add: owned_def)
  have ok: "stream_ok (stream_at p c)" using conn_invD(6) [OF assms(1)] p by simp
  have "conn_inv (Some p) (upd_stream p (\<lambda>s. s\<lparr>ws_connReadyDone := True\<rparr>) c)"
    using ok assms(2) by (intro upd_stream_owner [OF assms(1)]) (auto simp: stream_ok_def)
  with assms(1) show ?thesis by (simp add: signalConnReady_def)
qed

lemma connect_flush_inv:
  "conn_inv (Some p) c \<Longrightarrow> stream_of_task (wc_heap c) (FlushTask p ds') \<Longrightarrow>
   conn_inv None (connect_flush p ds c)"
proof (induction p ds c rule: connect_flush.induct)
  case (1 p c)
  have p: "p < length (wc_heap c)" using "1.prems"(2) by (simp add: stream_of_task_def)
  have ok: "stream_ok (stream_at p c)" using conn_invD(6) [OF "1.prems"(1)] p by simp
  have "conn_inv (Some p) (upd_stream p (\<lambda>s. s\<lparr>ws_ingressActive := True\<rparr>) c)"
    using ok "1.prems"(2)
    by (intro upd_stream_owner [OF "1.prems"(1)]) (auto simp: stream_ok_def stream_of_task_def)
  with "1.prems" p show ?case
    by (auto intro!: finish_spawn simp: stream_of_task_def)
next
  case (2 p d ds c)
  have p: "p < length (wc_heap c)" using "2.prems"(2) by (simp add: stream_of_task_def)
  have ok: "stream_ok (stream_at p c)" using conn_invD(6) [OF "2.prems"(1)] p by simp
  obtain k where k: "ws_conn (stream_at p c) = Some k"
    using "2.prems"(2) by (auto simp: stream_of_task_def)
  let ?c1 = "upd_stream p (\<lambda>s. s\<lparr>ws_conn := Some (snd (nc_Write d k))\<rparr>) c"
  have c1: "conn_inv (Some p) ?c1"
    using ok k by (intro upd_stream_owner [OF "2.prems"(1)]) (auto simp: stream_ok_def)
  have st1: "stream_of_task (wc_heap ?c1) (FlushTask p ds')"
    using "2.prems"(2) p by (auto simp: stream_of_task_def)
  show ?case
  proof (cases "ws_isOpen (stream_at p c)")
    case False
    then have "signalConnReady p c = c"
      using ok by (simp add: signalConnReady_def stream_ok_def)
    with False finish_closed [OF "2.prems"(1)] show ?thesis by simp
  next
    case True
    note sw = stream_write_parts [OF k, of d]
    show ?thesis
    proof (cases "fst (nc_Write d k)")
      case w: True
      with "2.IH" True sw c1 st1 show ?thesis by simp
    next
      case w: False
      with True sw close_finish [OF c1] show ?thesis by simp
    qed
  qed
qed

lemma connect_ready_inv:
  assumes "conn_inv (Some p) c" and "stream_of_task (wc_heap c) (ReadyTask p)"
  shows "conn_inv None (connect_ready p c)"
proof -
  have "ws_conn (stream_at p c) \<noteq> None" "p < length (wc_heap c)"
    using assms(2) by (auto simp: stream_of_task_def)
  moreover from this have "stream_of_task (wc_heap (signalConnReady p c)) (ReadTask p)"
    by (auto simp: stream_of_task_def signalConnReady_def)
  ultimately show ?thesis
    using signal_owner [OF assms(1)] by (simp add: connect_ready_def finish_spawn)
qed

lemma stream_read_inv:
  assumes "conn_inv (Some p) c" and "stream_of_task (wc_heap c) (ReadTask p)"
  shows "conn_inv None (stream_read p b b' hdr d err c)"
proof -
  let ?c1 = "if 0 < length d then on_wire (queueWritePooled
       (dataFrame (ws_streamId (stream_at p c)) (length d) (hdr @ d)) b) c else c"
  have c1: "conn_inv (Some p) ?c1" "wc_heap ?c1 = wc_heap c" using assms(1) by simp_all
  have "conn_inv (Some p) (on_wire (put_read_buf n) ?c1)" for n using c1 by simp
  note cl = close_finish [OF this]
  have "conn_inv None (spawn (ReadTask p) ?c1)"
    by (rule finish_spawn [OF c1(1)]) (use assms(2) c1(2) in simp_all)
  with cl show ?thesis
    by (auto simp: stream_read_def Let_def split: option.splits read_error.splits)
qed


section \<open>Frames\<close>

lemma register_stream_inv:
  assumes inv: "conn_inv None c"
  shows "conn_inv None (register_stream i ty port h c)"
proof (cases "wc_streams c i")
  case (Some p)
  then show ?thesis using inv by (simp add: register_stream_def)
next
  case None
  note v = conn_invD [OF inv]
  let ?n = "length (wc_heap c)"
  let ?s = "newStream i port h"
  let ?t = "ConnectTask ?n ty (itoa (unat port)) h"
  let ?c = "c\<lparr>wc_heap := wc_heap c @ [?s], wc_streams := (wc_streams c)(i \<mapsto> ?n),
               wc_streamCount := go_int32 (wc_streamCount c + 1)\<rparr>"
  have s: "ws_streamId ?s = i" "ws_isOpen ?s" "stream_ok ?s" "\<not> ws_connReadyDone ?s"
      "\<not> ws_ingressActive ?s"
    by (simp_all add: newStream_def stream_ok_def)
  have old: "q < ?n" if "q \<in> set (owners c)" for q
  proof -
    from that have "\<exists>t \<in> set (wc_tasks c). owner t = Some q" by (simp add: in_owners)
    then obtain t where t: "t \<in> set (wc_tasks c)" "owner t = Some q" by blast
    from v(5) [OF t(1)] t(2) show ?thesis
      by (cases t) (simp_all add: stream_of_task_def)
  qed
  have "registry_ok ?c"
    unfolding registry_ok_def
  proof (intro conjI allI impI)
    fix j p
    assume jp: "wc_streams ?c j = Some p"
    have old_j: "p < ?n \<and> ws_streamId (stream_at p c) = j \<and> ws_isOpen (stream_at p c)" if "j \<noteq> i"
      using jp that v(1) by (simp add: registry_ok_def)
    show "p < length (wc_heap ?c)" "ws_streamId (stream_at p ?c) = j" "ws_isOpen (stream_at p ?c)"
      using jp s old_j by (cases "j = i"; simp add: nth_append)+
  next
    fix p
    assume p: "p < length (wc_heap ?c)" "ws_isOpen (stream_at p ?c)"
    show "wc_streams ?c (ws_streamId (stream_at p ?c)) = Some p"
    proof (cases "p = ?n")
      case True
      then show ?thesis using s by simp
    next
      case False
      then have "p < ?n" using p by simp
      then have "wc_streams c (ws_streamId (stream_at p c)) = Some p"
        using v(1) p by (simp add: registry_ok_def nth_append)
      with None \<open>p < ?n\<close> show ?thesis by (auto simp: nth_append)
    qed
  qed
  moreover have "cache_ok ?c"
    using v(2) None by (auto simp: cache_ok_def)
  moreover have "count_ok ?c"
    using v(3) None finite_streams [OF v(1)] go_int32_mod [of "int (card (dom (wc_streams c)))" 1]
    by (simp add: count_ok_def domIff add.commute)
  moreover have "owned (Some ?n) ?c"
  proof -
    have "owners ?c = owners c" by (simp add: owners_def)
    moreover have "?n \<notin> set (owners c)" using old by blast
    ultimately show ?thesis
      using v(4) by (auto simp: owned_def nth_append less_Suc_eq)
  qed
  moreover have "\<forall>t \<in> set (wc_tasks ?c). stream_of_task (wc_heap ?c) t"
  proof
    fix t
    assume "t \<in> set (wc_tasks ?c)"
    then have "stream_of_task (wc_heap c) t" using v(5) by simp
    then show "stream_of_task (wc_heap ?c) t"
      by (cases t) (auto simp: stream_of_task_def nth_append)
  qed
  moreover have "\<forall>s \<in> set (wc_heap ?c). stream_ok s"
    using v(6) s by auto
  ultimately have "conn_inv (Some ?n) ?c"
    using v(7) by (simp add: conn_inv_def)
  moreover have "stream_of_task (wc_heap ?c) ?t"
    using s by (simp add: stream_of_task_def)
  ultimately have "conn_inv None (spawn ?t ?c)"
    by (intro finish_spawn) simp_all
  with None show ?thesis by (simp add: register_stream_def)
qed

lemma handleTwispConnect_inv:
  "conn_inv None c \<Longrightarrow> conn_inv None (handleTwispConnect now i cmd c)"
  by (auto simp: handleTwispConnect_def quiet_inv [OF quiet_ops(3)] stream_of_task_def
      intro!: spawn_other)

lemma handleConnectPacket_inv:
  assumes inv: "conn_inv None c"
  shows "conn_inv None (handleConnectPacket now i payload c)"
proof -
  obtain ok c1 where 1: "allow_per_source now (wc_remoteIP c) c = (ok, c1)" by fastforce
  have q: "quiet c c1" using quiet_ops(8) [of c] by (metis 1 snd_conv)
  have c1: "conn_inv None c1" using quiet_inv [OF q] inv by simp
  have v: "conn_inv None (violation c)" "conn_inv None (repAddSource now ''burstRate'' (violation c1))"
    using inv c1 quiet_inv [OF quiet_ops(2)] quiet_inv [OF quiet_ops(3)] by simp_all
  show ?thesis
    using inv c1 v handleTwispConnect_inv [OF c1] register_stream_inv [OF c1]
    by (simp add: handleConnectPacket_def 1)
qed

lemma lookup_stream_inv:
  assumes inv: "conn_inv None c" and l: "lookup_stream i c = (sp, c1)"
  shows "conn_inv None c1" and "wc_heap c1 = wc_heap c"
    and "sp = wc_streams c i" and "wc_tasks c1 = wc_tasks c"
proof -
  note v = conn_invD [OF inv]
  obtain j cp where slot: "wc_streamCache c ! cache_slot i = (j, cp)" by fastforce
  have hit: "wc_streams c i = cp" if "j = i" "cp \<noteq> None"
    using v(2) slot that cache_slot_less [of i] by (auto simp: cache_ok_def)
  show "sp = wc_streams c i" "wc_heap c1 = wc_heap c" "wc_tasks c1 = wc_tasks c"
    using l slot hit by (auto simp: lookup_stream_def split: if_splits option.splits)
  have "c1 = c \<or> (\<exists>p. wc_streams c i = Some p
      \<and> c1 = c\<lparr>wc_streamCache := (wc_streamCache c)[cache_slot i := (i, Some p)]\<rparr>)"
    using l slot by (cases "j = i \<and> cp \<noteq> None"; cases "wc_streams c i")
      (auto simp: lookup_stream_def split: if_splits)
  then consider "c1 = c" | p where "wc_streams c i = Some p"
      "c1 = c\<lparr>wc_streamCache := (wc_streamCache c)[cache_slot i := (i, Some p)]\<rparr>"
    by blast
  then show "conn_inv None c1"
  proof cases
    case 2
    have "cache_ok c1"
      unfolding cache_ok_def
    proof (intro conjI allI impI)
      show "length (wc_streamCache c1) = streamCacheSize"
        using v(2) 2 by (simp add: cache_ok_def)
      fix k m q
      assume kq: "k < streamCacheSize" "wc_streamCache c1 ! k = (m, Some q)"
      have len: "length (wc_streamCache c) = streamCacheSize"
        using v(2) by (simp add: cache_ok_def)
      have "wc_streams c m = Some q \<and> cache_slot m = k" if "k \<noteq> cache_slot i"
        using v(2) kq 2 that by (simp add: cache_ok_def)
      moreover have "m = i \<and> p = q" if "k = cache_slot i"
        using kq 2 that len cache_slot_less [of i] by simp
      ultimately show "wc_streams c1 m = Some q" "cache_slot m = k"
        using 2 by auto
    qed
    then show ?thesis
      using v 2 by (simp add: conn_inv_def registry_ok_def count_ok_def owned_def owners_def)
  qed (use inv in simp)
qed

lemma use_credit_inv:
  assumes "conn_inv q c" and "p < length (wc_heap c)"
  shows "conn_inv q (use_credit i p c)" and "length (wc_heap (use_credit i p c)) = length (wc_heap c)"
proof -
  have "stream_ok (stream_at p c)" using conn_invD(6) [OF assms(1)] assms(2) by simp
  then have "conn_inv q (upd_stream p (\<lambda>s. s\<lparr>ws_bufferRemaining := n\<rparr>) c)"
    "conn_inv q (upd_stream p (\<lambda>s. s\<lparr>ws_bufferRemaining := ws_bufferRemaining s - 1\<rparr>) c)" for n
    by (auto intro!: upd_stream_quiet [OF assms] simp: stream_ok_def)
  then show "conn_inv q (use_credit i p c)" by (simp add: use_credit_def)
  show "length (wc_heap (use_credit i p c)) = length (wc_heap c)" by (simp add: use_credit_def)
qed

text \<open>One job submitted to an idle, connected stream is written at once, or closes it.\<close>

lemma ingress_loop_one:
  assumes "ws_pendingIngress s = [j]" and "ws_isOpen s" and "ws_conn s = Some k"
  shows "ingress_loop s =
     (s\<lparr>ws_pendingIngress := [], ws_conn := Some (snd (nc_Write (ij_payload j) k)),
        ws_ingressWriting := False\<rparr>, [j], \<not> fst (nc_Write (ij_payload j) k))"
proof -
  let ?s = "s\<lparr>ws_pendingIngress := [], ws_conn := Some (snd (nc_Write (ij_payload j) k))\<rparr>"
  have batch: "ingress_batch s = (fst (nc_Write (ij_payload j) k), ?s)"
    using assms by (simp add: ingress_batch_def split: prod.splits)
  have last: "ingress_loop ?s = (?s\<lparr>ws_ingressWriting := False\<rparr>, [], False)"
    by (simp add: ingress_loop.simps [of ?s])
  show ?thesis
    using assms by (simp add: ingress_loop.simps [of s] batch last)
qed

lemma queueIngressOwned_result:
  assumes p: "p < length (wc_heap c)" and sok: "stream_ok (stream_at p c)"
    and op: "ws_isOpen (stream_at p c)" and act: "ws_ingressActive (stream_at p c)"
    and k: "ws_conn (stream_at p c) = Some k"
  shows "queueIngressOwned p payload b c =
     (True, let c1 = releaseIngressJob
                \<lparr>ij_payload = payload, ij_bufp = Some b, ij_pool = ingressPoolWS\<rparr>
                (upd_stream p (\<lambda>s. s\<lparr>ws_conn := Some (snd (nc_Write payload k))\<rparr>) c)
            in if fst (nc_Write payload k) then c1 else stream_close p closeReasonNetworkError c1)"
proof -
  let ?s = "stream_at p c"
  let ?j = "\<lparr>ij_payload = payload, ij_bufp = Some b, ij_pool = ingressPoolWS\<rparr>"
  have idle: "ws_pendingIngress ?s = []" "\<not> ws_ingressWriting ?s"
    using sok by (simp_all add: stream_ok_def)
  let ?f = "\<lambda>s. s\<lparr>ws_pendingIngress := ws_pendingIngress s @ [?j], ws_ingressWriting := True\<rparr>"
  let ?s1 = "?s\<lparr>ws_conn := Some (snd (nc_Write payload k))\<rparr>"
  let ?c1 = "upd_stream p ?f c"
  have at1: "stream_at p ?c1 = ?f ?s" using p by simp
  have restored: "(?f ?s)\<lparr>ws_pendingIngress := [], ws_conn := Some (snd (nc_Write payload k)),
        ws_ingressWriting := False\<rparr> = ?s1"
    using idle by (cases ?s) simp
  have loop: "ingress_loop (stream_at p ?c1) = (?s1, [?j], \<not> fst (nc_Write payload k))"
    unfolding at1 using ingress_loop_one [of "?f ?s" ?j k] idle op k restored by simp
  have "upd_stream p (\<lambda>_. ?s1) (?c1\<lparr>wc_panic := wc_panic ?c1 \<or> ws_conn (stream_at p ?c1) = None\<rparr>)
      = upd_stream p (\<lambda>s. s\<lparr>ws_conn := Some (snd (nc_Write payload k))\<rparr>) c"
    using p k by (cases c) (simp add: upd_stream_def)
  then show ?thesis
    using op act idle loop
    by (simp add: queueIngressOwned_def submitIngress_def runIngressWriter_def Let_def)
qed

lemma queueIngressOwned_inv:
  assumes inv: "conn_inv None c" and p: "p < length (wc_heap c)"
    and op: "ws_isOpen (stream_at p c)" and act: "ws_ingressActive (stream_at p c)"
    and r: "queueIngressOwned p payload b c = (ok, c1)"
  shows "ok" and "conn_inv None c1" and "length (wc_heap c1) = length (wc_heap c)"
    and "wc_tasks c1 = wc_tasks c"
proof -
  let ?s = "stream_at p c"
  have sok: "stream_ok ?s" using conn_invD(6) [OF inv] p by simp
  then obtain k where k: "ws_conn ?s = Some k"
    using act by (auto simp: stream_ok_def)
  let ?c2 = "upd_stream p (\<lambda>s. s\<lparr>ws_conn := Some (snd (nc_Write payload k))\<rparr>) c"
  let ?c3 = "releaseIngressJob \<lparr>ij_payload = payload, ij_bufp = Some b, ij_pool = ingressPoolWS\<rparr> ?c2"
  have inv2: "conn_inv None ?c2"
    using sok k by (intro upd_stream_quiet [OF inv p]) (simp_all add: stream_ok_def)
  have inv3: "conn_inv None ?c3" using quiet_inv [OF quiet_ops(6)] inv2 by blast
  have len3: "length (wc_heap ?c3) = length (wc_heap c)"
    using quiet_fields(1) [OF quiet_ops(6)] by simp
  have tasks3: "wc_tasks ?c3 = wc_tasks c"
    using quiet_fields(3) [OF quiet_ops(6)] by simp
  have res: "queueIngressOwned p payload b c =
     (True, if fst (nc_Write payload k) then ?c3 else stream_close p closeReasonNetworkError ?c3)"
    using queueIngressOwned_result [OF p sok op act k, of payload b] by (simp add: Let_def)
  have p3: "p < length (wc_heap ?c3)" using len3 p by simp
  show "ok" using r res by simp
  show "conn_inv None c1"
    using r res inv3 stream_close_inv [OF inv3 p3] by auto
  show "length (wc_heap c1) = length (wc_heap c)"
    using r res len3 stream_close_fields(9) [OF p3] by auto
  show "wc_tasks c1 = wc_tasks c"
    using r res tasks3 stream_close_fields(2) [OF p3] by auto
qed

lemma deliver_direct_inv:
  assumes inv: "conn_inv None c" and p: "p < length (wc_heap c)"
    and op: "ws_isOpen (stream_at p c)" and rdy: "ws_connReadyDone (stream_at p c)"
  shows "conn_inv None (deliver_direct i p payload c)"
proof -
  have sok: "stream_ok (stream_at p c)" using conn_invD(6) [OF inv] p by simp
  then obtain k where k: "ws_conn (stream_at p c) = Some k"
    using op rdy by (auto simp: stream_ok_def)
  let ?c1 = "upd_stream p (\<lambda>s. s\<lparr>ws_conn := Some (snd (nc_Write payload k))\<rparr>) c"
  have c1: "conn_inv None ?c1"
    using sok k by (intro upd_stream_quiet [OF inv p]) (simp_all add: stream_ok_def)
  have p1: "p < length (wc_heap ?c1)" using p by simp
  show ?thesis
    using c1 use_credit_inv(1) [OF c1 p1] stream_close_inv [OF c1 p1]
    by (simp add: deliver_direct_def stream_write_parts [OF k])
qed

lemma buffer_data_inv:
  assumes inv: "conn_inv None c" and p: "p < length (wc_heap c)"
  shows "conn_inv None (buffer_data p payload c)"
proof -
  have sok: "stream_ok (stream_at p c)" using conn_invD(6) [OF inv] p by simp
  then have "conn_inv None (upd_stream p (\<lambda>s. s\<lparr>ws_pendingData := ws_pendingData s @ [payload],
             ws_pendingBytes := ws_pendingBytes s + int (length payload)\<rparr>) c)"
    by (intro upd_stream_quiet [OF inv p]) (simp_all add: stream_ok_def)
  with stream_close_inv [OF inv p] show ?thesis by (simp add: buffer_data_def)
qed

lemma upd_twisp_inv [simp]: "conn_inv q (upd_twisp n f c) = conn_inv q c"
  by (simp add: upd_twisp_def)

lemma twisp_ops_inv [simp]:
  "conn_inv q (twisp_add i n c) = conn_inv q c" "conn_inv q (twisp_remove i c) = conn_inv q c"
  "conn_inv q (twisp_close n r c) = conn_inv q c" "conn_inv q (twisp_resize n w h c) = conn_inv q c"
  "conn_inv q (snd (writePty n d c)) = conn_inv q c"
  by (simp_all add: twisp_add_def twisp_remove_def twisp_close_def twisp_resize_def writePty_def)

lemma twisp_data_inv: "conn_inv q c \<Longrightarrow> conn_inv q (twisp_data i payload c)"
  by (auto simp: twisp_data_def writePty_def split: option.splits)

lemma handleDataPacket_inv:
  assumes inv: "conn_inv None c" and r: "handleDataPacket i payload b c = (keep, c')"
  shows "conn_inv None c'"
proof -
  obtain sp c1 where l: "lookup_stream i c = (sp, c1)" by fastforce
  note l' = lookup_stream_inv [OF inv l]
  show ?thesis
  proof (cases sp)
    case None
    with r l l'(1) show ?thesis by (auto simp: handleDataPacket_def twisp_data_inv)
  next
    case (Some p)
    have p: "p < length (wc_heap c1)"
      using conn_invD(1) [OF inv] Some l'(2,3) by (auto simp: registry_ok_def)
    obtain ok c2 where q: "queueIngressOwned p payload b c1 = (ok, c2)" by fastforce
    show ?thesis
    proof (cases "ws_isOpen (stream_at p c1) \<and> ws_connReadyDone (stream_at p c1)
        \<and> ws_streamType (stream_at p c1) = streamTypeTCP \<and> ws_ingressActive (stream_at p c1)")
      case True
      note q' = queueIngressOwned_inv [OF l'(1) p _ _ q]
      have "conn_inv None c2" "ok" "length (wc_heap c2) = length (wc_heap c1)"
        using q' True by blast+
      then show ?thesis
        using r l Some True p q use_credit_inv(1) [of None c2 p i]
        by (auto simp: handleDataPacket_def deliver_queued_def)
    next
      case False
      with r l Some p l'(1) buffer_data_inv [OF l'(1) p, of payload]
        deliver_direct_inv [OF l'(1) p, of i payload]
      show ?thesis by (auto simp: handleDataPacket_def split: if_splits)
    qed
  qed
qed

lemma handleClosePacket_inv:
  assumes "conn_inv None c"
  shows "conn_inv None (handleClosePacket i payload c)"
proof -
  have "conn_inv None (spawn (CloseTask p r) c)" if "wc_streams c i = Some p" for p r
    using assms that conn_invD(1) [OF assms]
    by (intro spawn_other) (auto simp: registry_ok_def stream_of_task_def)
  moreover have "conn_inv None (spawn (TwispCloseTask q r) c)" for q r
    using assms by (intro spawn_other) (auto simp: stream_of_task_def)
  ultimately show ?thesis
    using assms by (auto simp: handleClosePacket_def split: option.splits)
qed

lemma handleInfo_inv: "conn_inv None c \<Longrightarrow> conn_inv None (handleInfo bcrypt i payload c)"
  by (auto simp: handleInfo_def refuse_client_def accept_client_def split: option.splits)

lemma handlePacket_inv:
  "conn_inv None c \<Longrightarrow> conn_inv None (handlePacket bcrypt now ty i payload c)"
  by (auto simp: handlePacket_def handleInfo_inv handleConnectPacket_inv handleClosePacket_inv
      handleResize_def split: option.splits)

lemma handleWispFrame_inv:
  assumes "conn_inv None c" and "handleWispFrame bcrypt now packet b c = (keep, c')"
  shows "conn_inv None c'"
  using assms handleDataPacket_inv [OF assms(1)]
  by (auto simp: handleWispFrame_def Let_def handlePacket_inv split: if_splits)

lemma put_ws_buf_inv [simp]: "conn_inv q (put_ws_buf b c) = conn_inv q c"
  by (rule quiet_inv) simp

lemma dispatch_frame_inv:
  assumes "conn_inv None c" and "dispatch_frame bcrypt now op payload b c = (cont, c')"
  shows "conn_inv None c'"
proof -
  obtain keep c1 where h: "handleWispFrame bcrypt now payload b c = (keep, c1)" by fastforce
  from handleWispFrame_inv [OF assms(1) h] assms h show ?thesis
    by (auto simp: dispatch_frame_def split: if_splits)
qed

section \<open>The end of the connection\<close>

lemma fold_stream_close_inv:
  "conn_inv q c \<Longrightarrow> \<forall>p \<in> set ps. p < length (wc_heap c) \<Longrightarrow>
   conn_inv q (fold (\<lambda>p. stream_close p r) ps c)"
  by (induction ps arbitrary: c) (simp_all add: stream_close_inv stream_close_fields(9))

lemma fold_twisp_close_inv: "conn_inv q (fold (\<lambda>n. twisp_close n r) qs c) = conn_inv q c"
  by (induction qs arbitrary: c) simp_all

lemma forget_connection_inv [simp]: "conn_inv q (forget_connection c) = conn_inv q c"
  by (rule quiet_inv) simp

lemma deleteAll_inv:
  "conn_inv q c \<Longrightarrow> \<forall>p \<in> set ps. p < length (wc_heap c) \<Longrightarrow>
   conn_inv q (deleteAllWispStreams ps qs c)"
  by (simp add: deleteAllWispStreams_def fold_twisp_close_inv fold_stream_close_inv)

end
