(* ===== verification/Conn_System.thy ===== *)
theory Conn_System
  imports Conn_Steps
begin

text \<open>
  A connection as a transition system: from the moment \<open>CreateWispHandler\<close> has built it, by
  the frames of its client, the progress of its goroutines in any order, the answers of the
  resolver, of the dials and of the targets, and what other connections do to the shared
  state. The properties hold in every reachable state.
\<close>

section \<open>Connections and steps\<close>

text \<open>The connection built for an accepted request, and its first packet.\<close>

definition newConnection ::
    "Config \<Rightarrow> Globals option \<Rightarrow> string DNSCache \<Rightarrow> bool \<Rightarrow> string \<Rightarrow> u64 \<Rightarrow> go_conn \<Rightarrow> wispConnection" where
  "newConnection cfg g dns useV2 remoteIP connID netConn =
     \<lparr>wc_wire = \<lparr>w_netConn = netConn, w_isClosed = False, w_closeCh = False, w_pendingWrites = [],
        w_writeActive = False, w_returned = []\<rparr>,
      wc_streams = Map.empty, wc_heap = [],
      wc_streamCache = replicate streamCacheSize (0, None), wc_streamCount = 0, wc_config = cfg,
      wc_twispStreams = Some Map.empty, wc_theap = [], wc_remoteIP = remoteIP, wc_isV2 = useV2,
      wc_handshakeDone = None, wc_streamConfirm = False, wc_authenticated = False,
      wc_connID = connID, wc_violations = 0, wc_globals = g, wc_dns = dns, wc_tasks = [],
      wc_dials = [], wc_wsPool = [], wc_copyPool = [], wc_panic = False\<rparr>"

definition start_connection :: "wispConnection \<Rightarrow> wispConnection" where
  "start_connection c =
     (if wc_isV2 c then
        on_wire (sendRawFrame (buildServerInfoPacket (wc_config c))) (c\<lparr>wc_handshakeDone := Some False\<rparr>)
      else on_wire (sendPacket 0 (cfg_BufferRemainingLength (wc_config c))) c)"

inductive conn_step :: "(string \<Rightarrow> string \<Rightarrow> bool) \<Rightarrow> wispConnection \<Rightarrow> wispConnection \<Rightarrow> bool"
  for bcrypt :: "string \<Rightarrow> string \<Rightarrow> bool" where
  step_frame: "dispatch_frame bcrypt now op payload b c = (cont, c') \<Longrightarrow> conn_step bcrypt c c'"
| step_refuse: "conn_step bcrypt c (on_wire (sendWSClose reason) c)"
| step_connect: "ConnectTask p ty pt h \<in> set (wc_tasks c) \<Longrightarrow>
    conn_step bcrypt c (connect_start e p ty pt h (end_task (ConnectTask p ty pt h) c))"
| step_dialed: "DialTask p ty h pt a \<in> set (wc_tasks c) \<Longrightarrow>
    conn_step bcrypt c (connect_dialed e p ty h a outcome (end_task (DialTask p ty h pt a) c))"
| step_flush: "FlushTask p ds \<in> set (wc_tasks c) \<Longrightarrow>
    conn_step bcrypt c (connect_flush p ds (end_task (FlushTask p ds) c))"
| step_ready: "ReadyTask p \<in> set (wc_tasks c) \<Longrightarrow>
    conn_step bcrypt c (connect_ready p (end_task (ReadyTask p) c))"
| step_read: "ReadTask p \<in> set (wc_tasks c) \<Longrightarrow>
    conn_step bcrypt c (stream_read p b b' hdr d err (end_task (ReadTask p) c))"
| step_close: "CloseTask p r \<in> set (wc_tasks c) \<Longrightarrow>
    conn_step bcrypt c (stream_close p r (end_task (CloseTask p r) c))"
| step_twisp: "TwispTask i cmd \<in> set (wc_tasks c) \<Longrightarrow>
    conn_step bcrypt c (handleTwisp i cmd start (end_task (TwispTask i cmd) c))"
| step_pty: "PtyTask q \<in> set (wc_tasks c) \<Longrightarrow>
    conn_step bcrypt c (readPty q b hdr d eof (end_task (PtyTask q) c))"
| step_wait: "WaitTask q \<in> set (wc_tasks c) \<Longrightarrow>
    conn_step bcrypt c (twisp_close q closeReasonVoluntary (end_task (WaitTask q) c))"
| step_twisp_close: "TwispCloseTask q r \<in> set (wc_tasks c) \<Longrightarrow>
    conn_step bcrypt c (twisp_close q r (end_task (TwispCloseTask q r) c))"
| step_end: "set ps = ran (wc_streams c) \<Longrightarrow>
    conn_step bcrypt c (deleteAllWispStreams ps qs c)"
| step_shared: "conn_step bcrypt c (c\<lparr>wc_globals := g, wc_dns := dns\<rparr>)"

inductive reachable :: "(string \<Rightarrow> string \<Rightarrow> bool) \<Rightarrow> wispConnection \<Rightarrow> wispConnection \<Rightarrow> bool"
  for bcrypt :: "string \<Rightarrow> string \<Rightarrow> bool" and c0 :: wispConnection where
  reach_start: "reachable bcrypt c0 (start_connection c0)"
| reach_step: "reachable bcrypt c0 c \<Longrightarrow> conn_step bcrypt c c' \<Longrightarrow> reachable bcrypt c0 c'"

section \<open>The invariant is kept\<close>

lemma handleTwisp_inv: "conn_inv None c \<Longrightarrow> conn_inv None (handleTwisp i cmd start c)"
  by (auto simp: handleTwisp_def stream_of_task_def intro!: spawn_other split: option.splits)

lemma readPty_inv: "conn_inv None c \<Longrightarrow> conn_inv None (readPty q b hdr d eof c)"
  by (auto simp: readPty_def Let_def stream_of_task_def intro!: spawn_other split: option.splits bool.splits)

lemma conn_step_inv:
  assumes "conn_step bcrypt c c'" and inv: "conn_inv None c"
  shows "conn_inv None c'"
  using assms(1)
proof cases
  case (step_frame now op payload b cont)
  then show ?thesis using dispatch_frame_inv [OF inv] by blast
next
  case (step_refuse reason)
  then show ?thesis using inv by simp
next
  case (step_connect p ty pt h e)
  note o = end_task_owner [OF inv step_connect(2), of p]
  show ?thesis
    unfolding step_connect(1) by (rule connect_start_inv [where ty = ty and pt = pt and h = h])
      (use o in simp_all)
next
  case (step_dialed p ty h pt a e outcome)
  note o = end_task_owner [OF inv step_dialed(2), of p]
  show ?thesis
    unfolding step_dialed(1)
    by (rule connect_dialed_inv [where ty = ty and pt = pt and h = h and a = a]) (use o in simp_all)
next
  case (step_flush p ds)
  note o = end_task_owner [OF inv step_flush(2), of p]
  show ?thesis
    unfolding step_flush(1) by (rule connect_flush_inv [where ds' = ds]) (use o in simp_all)
next
  case (step_ready p)
  note o = end_task_owner [OF inv step_ready(2), of p]
  show ?thesis
    unfolding step_ready(1) by (rule connect_ready_inv) (use o in simp_all)
next
  case (step_read p b b' hdr d err)
  note o = end_task_owner [OF inv step_read(2), of p]
  show ?thesis
    unfolding step_read(1) by (rule stream_read_inv) (use o in simp_all)
next
  case (step_close p r)
  have "p < length (wc_heap c)"
    using conn_invD(5) [OF inv step_close(2)] by (simp add: stream_of_task_def)
  then show ?thesis
    unfolding step_close(1) using end_task_other [OF inv, of "CloseTask p r"]
    by (intro stream_close_inv) simp_all
next
  case (step_end ps qs)
  have "\<forall>p \<in> set ps. p < length (wc_heap c)"
    using conn_invD(1) [OF inv] step_end(2) by (auto simp: registry_ok_def ran_def)
  then show ?thesis
    unfolding step_end(1) by (rule deleteAll_inv [OF inv])
next
  case (step_twisp i cmd start)
  then show ?thesis
    using end_task_other [OF inv, of "TwispTask i cmd"] handleTwisp_inv by simp
next
  case (step_pty q b hdr d eof)
  then show ?thesis
    using end_task_other [OF inv, of "PtyTask q"] readPty_inv by simp
next
  case (step_wait q)
  then show ?thesis using end_task_other [OF inv, of "WaitTask q"] by simp
next
  case (step_twisp_close q r)
  then show ?thesis using end_task_other [OF inv, of "TwispCloseTask q r"] by simp
next
  case (step_shared g dns)
  then show ?thesis using inv by simp
qed

lemma newConnection_inv:
  "conn_inv None (newConnection cfg g dns v2 ip i nc)"
  by (simp add: newConnection_def conn_inv_def registry_ok_def cache_ok_def count_ok_def owned_def
      owners_def)

lemma start_connection_inv: "conn_inv q (start_connection c) = conn_inv q c"
  by (simp add: start_connection_def)

lemma reachable_inv:
  assumes "reachable bcrypt (newConnection cfg g dns v2 ip i nc) c"
  shows "conn_inv None c"
  using assms
  by induction (simp_all add: start_connection_inv newConnection_inv conn_step_inv)


interpretation conn: step_invariant "conn_step bcrypt" "conn_inv None" for bcrypt
  by unfold_locales (rule conn_step_inv)

interpretation reach: step_invariant "conn_step bcrypt" "reachable bcrypt c0" for bcrypt c0
  by unfold_locales (rule reach_step)

section \<open>Streams, registry and goroutines\<close>

lemma owned_one:
  assumes "distinct (List.map_filter f ts)" and "p \<in> set (List.map_filter f ts)"
  shows "length (filter (\<lambda>t. f t = Some p) ts) = 1"
proof -
  have "length (filter (\<lambda>t. f t = Some p) ts) = count (mset (List.map_filter f ts)) p" for ts
    by (induction ts) (auto split: option.splits)
  then show ?thesis
    using assms by (simp add: distinct_count_atmost_1)
qed

text \<open>The payload of a CONNECT packet: type, port, host. A request nothing refuses is registered.\<close>

definition connect_payload :: "u8 \<Rightarrow> u16 \<Rightarrow> string \<Rightarrow> bytes" where
  "connect_payload ty port h = ty # le16_bytes port @ bytes_of_string h"

lemma dispatch_connect:
  assumes "\<not> handshake_pending c" and "\<not> stream_limit_reached c"
    and "allow_per_source now (wc_remoteIP c) c = (True, c)" and "ty \<noteq> streamTypeTerm"
  shows "dispatch_frame bcrypt now 2 (wispPacket packetTypeConnect i (connect_payload ty port h)) b c
    = (True, put_ws_buf (Some b) (register_stream i ty port h c))"
proof -
  have body: "\<not> length (connect_payload ty port h) < 3" "connect_payload ty port h ! 0 = ty"
    "le16_of (take 2 (drop (Suc 0) (connect_payload ty port h))) = port"
    "string_of_bytes (drop 3 (connect_payload ty port h)) = h"
    by (simp_all add: connect_payload_def le16.take_enc le16.drop_enc codec_simps le16.length_enc)
  have "handlePacket bcrypt now packetTypeConnect i (connect_payload ty port h) c
      = register_stream i ty port h c"
    using assms body by (simp add: handlePacket_def handleConnectPacket_def packet_type_defs)
  then show ?thesis
    using assms(1) by (simp add: dispatch_frame_def handleWispFrame_def Let_def wispPacket_parts)
      (simp add: packet_type_defs)
qed

text \<open>
  The connections of a server without flood protection and reputation share nothing that
  limits their dials.
\<close>

definition no_limits :: "Globals \<Rightarrow> bool" where
  "no_limits g = (g_PerSource g = None \<and> g_PerDestSec g = None \<and> g_PerDestMin g = None
     \<and> g_InFlightSyns g = None \<and> g_Reputation g = None \<and> g_Signature g = None)"

definition unlimited :: "wispConnection \<Rightarrow> bool" where
  "unlimited c = (\<forall>g. wc_globals c = Some g \<longrightarrow> no_limits g)"

lemma allow_without_limits:
  assumes "unlimited c"
  shows "allow_per_source now key c = (True, c)" "allow_dest_sec now key c = (True, c)"
    "allow_dest_min now key c = (True, c)" "\<not> dest_strict resolved port c"
    "acquire_syn ty c = (True, False, c)"
proof -
  have all: "allow_per_source now key c = (True, c) \<and> allow_dest_sec now key c = (True, c)
    \<and> allow_dest_min now key c = (True, c) \<and> \<not> dest_strict resolved port c
    \<and> acquire_syn ty c = (True, False, c)"
  proof (cases "wc_globals c")
    case None
    then show ?thesis
      by (simp add: allow_per_source_def allow_dest_sec_def allow_dest_min_def dest_strict_def acquire_syn_def)
  next
    case (Some g)
    then have g: "no_limits g" using assms by (simp add: unlimited_def)
    have "g\<lparr>g_PerSource := None\<rparr> = g" "g\<lparr>g_PerDestSec := None\<rparr> = g" "g\<lparr>g_PerDestMin := None\<rparr> = g"
      using g by (cases g; simp add: no_limits_def)+
    moreover have "c\<lparr>wc_globals := Some g\<rparr> = c" using Some by (cases c) simp
    ultimately show ?thesis
      using g Some by (simp add: no_limits_def allow_per_source_def allow_dest_sec_def allow_dest_min_def
          dest_strict_def acquire_syn_def Allow_def)
  qed
  then show "allow_per_source now key c = (True, c)" "allow_dest_sec now key c = (True, c)"
    "allow_dest_min now key c = (True, c)" "\<not> dest_strict resolved port c"
    "acquire_syn ty c = (True, False, c)"
    by simp_all
qed

text \<open>A connection with one stream in the registry, for the witnesses.\<close>

definition example_conn :: wispConnection where
  "example_conn = newConnection DefaultConfig None (NewDNSCache [] 0 [] []) False ''192.0.2.7'' 1
     (nc_fresh [])"

definition example_connect :: bytes where
  "example_connect = wispPacket packetTypeConnect 5 (connect_payload streamTypeTCP 80 ''a.b'')"

definition example_open :: wispConnection where
  "example_open = snd (dispatch_frame (\<lambda>_ _. False) 0 2 example_connect 0 (start_connection example_conn))"

lemma example_open_reachable: "reachable (\<lambda>_ _. False) example_conn example_open"
  unfolding example_open_def
  by (rule reach_step [OF reach_start step_frame]) (rule prod.collapse [symmetric])

text \<open>
  C5: The registry is exact in every reachable state: a stream id leads to a stream exactly
  when that stream is open and has this id, and the stream counter is the number of
  registered streams, as a 32-bit integer.
\<close>

theorem registry_exact:
  assumes "reachable bcrypt (newConnection cfg g dns v2 ip n nc) c"
  shows "(wc_streams c i = Some p \<longleftrightarrow>
      p < length (wc_heap c) \<and> ws_isOpen (stream_at p c) \<and> ws_streamId (stream_at p c) = i)
    \<and> wc_streamCount c = go_int32 (int (card (dom (wc_streams c))))"
  using conn_invD(1,3) [OF reachable_inv [OF assms]]
  by (auto simp: registry_ok_def count_ok_def)

theorem registry_exact_witness:
  "wc_streamCount example_open = go_int32 (int (card (dom (wc_streams example_open))))"
  using registry_exact [OF example_open_reachable [unfolded example_conn_def]] by blast

text \<open>
  C17: If a lookup and a \<open>close\<close> are one step each, the direct-mapped lookup cache is invisible:
  looking up the stream of a DATA packet through the cache gives what the registry says, in
  every state reachable that way, also after a stream was closed and its id or its slot was
  taken again. (A \<open>close\<close> between the two accesses of a lookup does leave a stale entry:
  \<open>Close_Race\<close>.)
\<close>

theorem lookup_stream_refines:
  assumes "reachable bcrypt (newConnection cfg g dns v2 ip n nc) c"
  shows "fst (lookup_stream i c) = wc_streams c i"
proof -
  obtain sp c1 where l: "lookup_stream i c = (sp, c1)" by fastforce
  from lookup_stream_inv(3) [OF reachable_inv [OF assms] l] l show ?thesis by simp
qed

theorem lookup_stream_refines_witness:
  "fst (lookup_stream 5 example_open) = wc_streams example_open 5"
  by (rule lookup_stream_refines [OF example_open_reachable [unfolded example_conn_def]])

text \<open>
  C14: Every open stream is looked after: in every reachable state exactly one goroutine is
  connecting, flushing or reading it, so no open stream is abandoned and none is served
  twice.
\<close>

theorem open_stream_has_one_goroutine:
  assumes "reachable bcrypt (newConnection cfg g dns v2 ip n nc) c"
    and "p < length (wc_heap c)" and "ws_isOpen (stream_at p c)"
  shows "length (filter (\<lambda>t. owner t = Some p) (wc_tasks c)) = 1"
proof (rule owned_one)
  from conn_invD(4) [OF reachable_inv [OF assms(1)]] assms(2,3)
  show "distinct (List.map_filter owner (wc_tasks c))" "p \<in> set (List.map_filter owner (wc_tasks c))"
    by (auto simp: owned_def owners_def)
qed

lemma example_start:
  "wc_handshakeDone (start_connection example_conn) = None" "wc_isV2 (start_connection example_conn) = False"
  "wc_config (start_connection example_conn) = DefaultConfig"
  "wc_globals (start_connection example_conn) = None" "wc_streams (start_connection example_conn) = Map.empty"
  "wc_heap (start_connection example_conn) = []" "wc_tasks (start_connection example_conn) = []"
  "wc_dials (start_connection example_conn) = []"
  by (simp_all add: start_connection_def example_conn_def newConnection_def)

lemma example_open_eq:
  "example_open = put_ws_buf (Some 0) (register_stream 5 streamTypeTCP 80 ''a.b'' (start_connection example_conn))"
  unfolding example_open_def example_connect_def
  by (subst dispatch_connect) (simp_all add: handshake_pending_def stream_limit_reached_def example_start
      DefaultConfig_def allow_without_limits(1) unlimited_def stream_type_defs)

lemma example_open_shape:
  "wc_heap example_open = [newStream 5 80 ''a.b'']"
  "wc_tasks example_open = [ConnectTask 0 streamTypeTCP ''80'' ''a.b'']"
  "wc_streams example_open = [5 \<mapsto> 0]" "wc_globals example_open = None"
  "wc_dials example_open = []" "wc_config example_open = DefaultConfig"
proof -
  have port: "itoa (unat (80 :: u16)) = ''80''" by (simp add: go_eval)
  show "wc_heap example_open = [newStream 5 80 ''a.b'']"
    "wc_tasks example_open = [ConnectTask 0 streamTypeTCP ''80'' ''a.b'']"
    "wc_streams example_open = [5 \<mapsto> 0]" "wc_globals example_open = None"
    "wc_dials example_open = []" "wc_config example_open = DefaultConfig"
    unfolding example_open_eq using example_start port
    by (simp_all add: put_ws_buf_def register_stream_def spawn_def)
qed

theorem open_stream_has_one_goroutine_witness:
  "length (filter (\<lambda>t. owner t = Some 0) (wc_tasks example_open)) = 1"
  by (rule open_stream_has_one_goroutine [OF example_open_reachable [unfolded example_conn_def]])
    (simp_all add: example_open_shape newStream_def)

text \<open>
  As long as the handler of a packet and \<open>close\<close> are one step each, no nil connection is ever
  written to. With a \<open>close\<close> between two statements of the handler one is: \<open>Data_Race\<close>.
\<close>

lemma no_panic_atomic:
  assumes "reachable bcrypt (newConnection cfg g dns v2 ip n nc) c"
  shows "\<not> wc_panic c"
  using conn_invD(7) [OF reachable_inv [OF assms]] .

end
