(* ===== verification/Conn_Safety.thy ===== *)
theory Conn_Safety
  imports Conn_System
begin

text \<open>
  What a connection may do: no stream before the handshake, no terminal without
  authentication, no more streams than the limit, no dial outside the policy and the
  filters. Most operations are stable, they leave everything these properties speak of
  alone; the few that are not are treated one by one.
\<close>

section \<open>Stable operations\<close>

definition stable :: "wispConnection \<Rightarrow> wispConnection \<Rightarrow> bool" where
  "stable c c' =
     (wc_config c' = wc_config c \<and> wc_isV2 c' = wc_isV2 c
      \<and> wc_handshakeDone c' = wc_handshakeDone c \<and> wc_authenticated c' = wc_authenticated c
      \<and> length (wc_theap c') = length (wc_theap c) \<and> length (wc_heap c') = length (wc_heap c)
      \<and> dom (wc_streams c') \<subseteq> dom (wc_streams c) \<and> wc_dials c' = wc_dials c
      \<and> (\<forall>i cmd. TwispTask i cmd \<in> set (wc_tasks c') \<longrightarrow> TwispTask i cmd \<in> set (wc_tasks c))
      \<and> (\<forall>p ty pt h. ConnectTask p ty pt h \<in> set (wc_tasks c') \<longrightarrow> ConnectTask p ty pt h \<in> set (wc_tasks c))
      \<and> map ws_portNum (wc_heap c') = map ws_portNum (wc_heap c))"

lemma stable_refl [simp]: "stable c c"
  by (simp add: stable_def)

lemma stable_trans: "stable a b \<Longrightarrow> stable b c \<Longrightarrow> stable a c"
  unfolding stable_def by (elim conjE, intro conjI) (simp, simp, simp, simp, simp, simp, blast, simp, blast, blast, simp)

lemma quiet_stable: "quiet c c' \<Longrightarrow> stable c c'"
  by (simp add: quiet_def stable_def)

definition not_a_start :: "task \<Rightarrow> bool" where
  "not_a_start t = (case t of TwispTask _ _ \<Rightarrow> False | ConnectTask _ _ _ _ \<Rightarrow> False | _ \<Rightarrow> True)"

lemma not_a_start_simps [simp]:
  "not_a_start (DialTask p ty h pt a)" "not_a_start (FlushTask p ds)" "not_a_start (ReadyTask p)"
  "not_a_start (ReadTask p)" "not_a_start (CloseTask p r)" "not_a_start (PtyTask q)"
  "not_a_start (WaitTask q)" "not_a_start (TwispCloseTask q r)"
  by (simp_all add: not_a_start_def)

lemma stable_spawn: "not_a_start t \<Longrightarrow> stable c (spawn t c)"
  by (auto simp: stable_def not_a_start_def spawn_def)

lemma stable_end_task: "stable c (end_task t c)"
  using set_remove1_subset [of t "wc_tasks c"] by (auto simp: stable_def end_task_def)

lemma map_portNum_update:
  assumes "ws_portNum (f (xs ! p)) = ws_portNum (xs ! p)"
  shows "map ws_portNum (xs[p := f (xs ! p)]) = map ws_portNum xs"
proof (cases "p < length xs")
  case True
  with assms show ?thesis by (simp add: map_update list_update_same_conv)
next
  case False
  then show ?thesis by (simp add: list_update_beyond)
qed

lemma stable_upd_stream:
  "ws_portNum (f (stream_at p c)) = ws_portNum (stream_at p c) \<Longrightarrow> stable c (upd_stream p f c)"
  by (simp add: stable_def map_portNum_update)

text \<open>A stable operation may follow stable ones.\<close>

lemma stable_then:
  assumes "stable c d"
  shows "not_a_start t \<Longrightarrow> stable c (spawn t d)"
    and "stable c (end_task t d)"
    and "stable c (on_wire f d)"
    and "stable c (signalConnReady p d)"
    and "stable c (deleteWispStream i d)"
    and "stable c (fold releaseIngressJob js d)"
    and "stable c (put_ws_buf b d)"
    and "stable c (upd_twisp q g d)"
    and "stable c (twisp_remove i d)"
    and "ws_portNum (h (stream_at p d)) = ws_portNum (stream_at p d) \<Longrightarrow> stable c (upd_stream p h d)"
proof -
  have del: "stable d (deleteWispStream i d)"
    by (auto simp: stable_def deleteWispStream_def)
  have tr: "stable d (twisp_remove i d)" "stable d (upd_twisp q g d)"
    by (simp_all add: stable_def twisp_remove_def upd_twisp_def)
  have sig: "stable d (signalConnReady p d)"
    by (simp add: signalConnReady_def stable_upd_stream)
  show "not_a_start t \<Longrightarrow> stable c (spawn t d)"
    by (rule stable_trans [OF assms stable_spawn])
  show "stable c (end_task t d)" by (rule stable_trans [OF assms stable_end_task])
  show "stable c (on_wire f d)" by (rule stable_trans [OF assms quiet_stable]) simp
  show "stable c (signalConnReady p d)" by (rule stable_trans [OF assms sig])
  show "stable c (deleteWispStream i d)" by (rule stable_trans [OF assms del])
  show "stable c (fold releaseIngressJob js d)" by (rule stable_trans [OF assms quiet_stable]) simp
  show "stable c (put_ws_buf b d)" by (rule stable_trans [OF assms quiet_stable]) simp
  show "stable c (twisp_remove i d)" "stable c (upd_twisp q g d)"
    by (rule stable_trans [OF assms tr(1)], rule stable_trans [OF assms tr(2)])
  show "ws_portNum (h (stream_at p d)) = ws_portNum (stream_at p d) \<Longrightarrow> stable c (upd_stream p h d)"
    by (rule stable_trans [OF assms stable_upd_stream])
qed

lemma stable_stream_close: "stable c d \<Longrightarrow> stable c (stream_close p r d)"
  unfolding stream_close_def stream_drain_def stream_close_conn_def
  by (auto intro!: stable_then)

lemma stable_twisp_close: "stable c d \<Longrightarrow> stable c (twisp_close q r d)"
  by (auto simp: twisp_close_def intro!: stable_then)

lemma stable_finish: "stable c d \<Longrightarrow> stable c (signalConnReady p (stream_close p r d))"
  by (intro stable_then(4) stable_stream_close)

lemma stable_quiet: "stable c d \<Longrightarrow> quiet d d' \<Longrightarrow> stable c d'"
  by (rule stable_trans [OF _ quiet_stable])

lemmas stable_intros = stable_then stable_stream_close stable_twisp_close stable_refl

subsection \<open>The goroutines\<close>

lemma stable_stream_write: "stable c d \<Longrightarrow> stable c (snd (stream_write p x d))"
  by (auto simp: stream_write_def split: option.splits intro!: stable_intros)
    (simp add: stable_def)

lemma stable_connect_flush: "stable c d \<Longrightarrow> stable c (connect_flush p ds d)"
proof (induction p ds d rule: connect_flush.induct)
  case (1 p d)
  then show ?case by (auto intro!: stable_intros)
next
  case (2 p x ds d)
  then show ?case by (auto intro!: stable_intros stable_stream_write)
qed

lemma stable_connect_ready: "stable c d \<Longrightarrow> stable c (connect_ready p d)"
  by (auto simp: connect_ready_def intro!: stable_intros)

lemma stable_stream_read: "stable c d \<Longrightarrow> stable c (stream_read p b b' hdr x err d)"
  by (auto simp: stream_read_def Let_def split: option.splits read_error.splits
      intro!: stable_intros)

lemma stable_connect_dialed:
  assumes "stable c d"
  shows "stable c (connect_dialed e p ty resolved a outcome d)"
proof -
  let ?c1 = "release_syn a (upd_stream p (\<lambda>s. s\<lparr>ws_conn := (case outcome of Inl _ \<Rightarrow> None | Inr k \<Rightarrow> Some k)\<rparr>) d)"
  have "stable c (upd_stream p (\<lambda>s. s\<lparr>ws_conn := (case outcome of Inl _ \<Rightarrow> None | Inr k \<Rightarrow> Some k)\<rparr>) d)"
    using assms by (intro stable_intros) simp_all
  then have c1: "stable c ?c1"
    by (rule stable_quiet [OF _ quiet_ops(7)])
  obtain m c2 where 2: "record_dial (e_now e) ty resolved (ws_portNum (stream_at p d))
      (\<not> isl outcome) ?c1 = (m, c2)" by fastforce
  have c2: "stable c c2"
    using stable_quiet [OF c1 quiet_ops(12)] by (metis 2 snd_conv)
  let ?d = "repAddDest (e_now e) resolved (ws_portNum (stream_at p d)) ''synSignature''
                (repAddSource (e_now e) ''synSignature'' c2)"
  have "stable c ?d"
    by (rule stable_quiet [OF c2 quiet_trans [OF quiet_ops(3) quiet_ops(4)]])
  then have "stable c (signalConnReady p (on_wire wire_close (stream_close p closeReasonBlocked
      (stream_close_conn p ?d))))"
    unfolding stream_close_conn_def by (intro stable_intros) simp_all
  moreover have "stable c (signalConnReady p (stream_close p r c2))" for r
    by (rule stable_finish [OF c2])
  moreover have "stable c (spawn (FlushTask p ds)
      (upd_stream p (\<lambda>s. s\<lparr>ws_pendingData := [], ws_pendingBytes := 0\<rparr>) x))" if "stable c x" for ds x
    using that by (intro stable_intros) simp_all
  moreover have "stable c (on_wire f c2)" for f
    by (rule stable_then(3) [OF c2])
  ultimately show ?thesis
    using c2 by (simp add: connect_dialed_def 2 Let_def split: sum.split)
qed

subsection \<open>The handlers\<close>

lemma stable_lookup: "stable c d \<Longrightarrow> stable c (snd (lookup_stream i d))"
  by (rule stable_trans [where b = d])
    (auto simp: lookup_stream_def stable_def split: prod.splits option.splits)

lemma stable_use_credit: "stable c d \<Longrightarrow> stable c (use_credit i p d)"
  by (auto simp: use_credit_def intro!: stable_intros)

lemma ingress_loop_portNum: "ws_portNum (fst (ingress_loop s)) = ws_portNum s"
proof (induction s rule: ingress_loop.induct)
  case (1 s)
  have "ws_portNum (snd (ingress_batch s)) = ws_portNum s"
    by (auto simp: ingress_batch_def split: option.splits prod.splits)
  with 1 show ?case
    by (cases "ingress_loop (snd (ingress_batch s))") (simp add: ingress_loop.simps [of s])
qed

lemma stable_runIngressWriter:
  assumes "stable c d"
  shows "stable c (runIngressWriter p d)"
proof -
  obtain s rel failed where l: "ingress_loop (stream_at p d) = (s, rel, failed)" by (metis prod_cases3)
  let ?c0 = "d\<lparr>wc_panic := wc_panic d \<or> ws_conn (stream_at p d) = None\<rparr>"
  have "stable c ?c0"
    by (rule stable_trans [OF assms]) (simp add: stable_def)
  then have "stable c (upd_stream p (\<lambda>_. s) ?c0)"
    using ingress_loop_portNum [of "stream_at p d"] l by (intro stable_then(10)) simp_all
  then have "stable c (fold releaseIngressJob rel (upd_stream p (\<lambda>_. s) ?c0))"
    by (rule stable_then(6))
  then show ?thesis
    by (simp add: runIngressWriter_def l Let_def stable_stream_close)
qed

lemma stable_queueIngress: "stable c d \<Longrightarrow> stable c (snd (queueIngressOwned p payload b d))"
  unfolding queueIngressOwned_def submitIngress_def
  by (auto intro!: stable_runIngressWriter stable_intros stable_quiet [OF _ quiet_ops(6)])

lemma stable_twisp_data: "stable c d \<Longrightarrow> stable c (twisp_data i payload d)"
  by (auto simp: twisp_data_def writePty_def split: option.splits intro!: stable_intros)

lemma stable_buffer_data: "stable c d \<Longrightarrow> stable c (buffer_data p payload d)"
  by (auto simp: buffer_data_def intro!: stable_intros)

lemma stable_deliver_direct:
  assumes "stable c d"
  shows "stable c (deliver_direct i p payload d)"
proof -
  obtain ok d1 where w: "stream_write p payload d = (ok, d1)" by fastforce
  have "stable c d1" using stable_stream_write [OF assms, of p payload] by (simp add: w)
  then show ?thesis
    by (simp add: deliver_direct_def w stable_use_credit stable_stream_close)
qed

lemma stable_deliver_queued:
  assumes "stable c d"
  shows "stable c (snd (deliver_queued i p payload b d))"
proof -
  obtain ok d1 where w: "queueIngressOwned p payload b d = (ok, d1)" by fastforce
  have "stable c d1" using stable_queueIngress [OF assms, of p payload b] by (simp add: w)
  then show ?thesis
    by (simp add: deliver_queued_def w stable_use_credit)
qed

lemma stable_handleDataPacket:
  assumes "stable c d"
  shows "stable c (snd (handleDataPacket i payload b d))"
proof -
  obtain sp c1 where l: "lookup_stream i d = (sp, c1)" by fastforce
  have c1: "stable c c1" using stable_lookup [OF assms, of i] by (simp add: l)
  show ?thesis
    using c1 stable_twisp_data [OF c1] stable_buffer_data [OF c1] stable_deliver_direct [OF c1]
      stable_deliver_queued [OF c1]
    by (simp add: handleDataPacket_def l split: option.split)
qed

lemma stable_handleClosePacket: "stable c d \<Longrightarrow> stable c (handleClosePacket i payload d)"
  by (auto simp: handleClosePacket_def split: option.splits intro!: stable_intros)

lemma stable_handleResize: "stable c d \<Longrightarrow> stable c (handleResize i payload d)"
  by (auto simp: handleResize_def twisp_resize_def split: option.splits intro!: stable_intros)

lemma stable_readPty: "stable c d \<Longrightarrow> stable c (readPty q b hdr x eof d)"
  by (auto simp: readPty_def Let_def split: option.splits bool.splits intro!: stable_intros)

lemma stable_deleteAll:
  assumes "stable c d"
  shows "stable c (deleteAllWispStreams ps qs d)"
proof -
  have 1: "stable c d \<Longrightarrow> stable c (fold (\<lambda>p. stream_close p r) ps d)" for d r
    by (induction ps arbitrary: d) (auto intro: stable_stream_close)
  have 2: "stable c d \<Longrightarrow> stable c (fold (\<lambda>q. twisp_close q r) qs d)" for d r
    by (induction qs arbitrary: d) (auto intro: stable_twisp_close)
  show ?thesis
    unfolding deleteAllWispStreams_def
    by (rule stable_quiet [OF _ quiet_ops(14)]) (intro 1 2 stable_then(3) assms)
qed


section \<open>Dials\<close>

text \<open>
  Which targets a dial may have. \<open>target_allowed\<close> reads: the address passes the egress
  policy, or the name is left to the dialler because the administrator whitelisted it or
  runs without the cache.
\<close>

definition target_allowed :: "Config \<Rightarrow> string \<Rightarrow> bool" where
  "target_allowed cfg host =
     ((\<exists>ip. host = IP_String ip \<and> egress_ok cfg ip)
      \<or> ParseIP host = [] \<and> (\<not> cfg_hasDNSCache cfg \<or> host \<in> Hostnames (cfg_Whitelist cfg)))"

definition filtered_address :: "Config \<Rightarrow> (string \<Rightarrow> bool) \<Rightarrow> string \<Rightarrow> bool" where
  "filtered_address cfg ok addr =
     (\<exists>host port. addr = JoinHostPort host (itoa (unat port)) \<and> \<not> port_blocked cfg port \<and> ok host)"

definition dial_allowed :: "Config \<Rightarrow> dial \<Rightarrow> bool" where
  "dial_allowed cfg d =
     (case d of
        DirectDial net addr \<Rightarrow>
          cfg_Proxy cfg = [] \<and> (net = ''tcp'' \<or> net = ''udp'' \<and> cfg_AllowUDP cfg)
          \<and> filtered_address cfg (target_allowed cfg) addr
      | ProxyDial via addr \<Rightarrow>
          cfg_Proxy cfg \<noteq> [] \<and> via = proxy_address (cfg_Proxy cfg)
          \<and> filtered_address cfg (\<lambda>host. \<not> hostname_blocked cfg host) addr)"

lemma resolve_target_allowed:
  "resolve_target cfg e hostname dns = (Target host, dns') \<Longrightarrow> target_allowed cfg host"
  by (auto simp: resolve_target_def target_allowed_def pick_address_def Evaluate_policy find_Some_iff
      split: if_splits prod.splits dns_result.splits option.splits)

lemma connect_limits_shape:
  assumes "stable c0 c"
  shows "stable c0 (connect_limits e p ty port resolved c)
     \<or> (\<exists>d a. quiet c d \<and> connect_limits e p ty port resolved c = connect_dial e p ty resolved port a d)"
proof -
  obtain ok1 c1 where 1: "allow_dest_sec (e_now e) (JoinHostPort resolved port) c = (ok1, c1)" by fastforce
  obtain ok2 c2 where 2: "allow_dest_min (e_now e) (JoinHostPort resolved port) c1 = (ok2, c2)" by fastforce
  obtain ok3 a3 c3 where 3: "acquire_syn ty c2 = (ok3, a3, c3)" by (metis prod_cases3)
  have q1: "quiet c c1" using quiet_ops(9) [of c] by (metis 1 snd_conv)
  have q2: "quiet c c2" using quiet_trans [OF q1] quiet_ops(10) [of c1] by (metis 2 snd_conv)
  have q3: "quiet c c3" using quiet_trans [OF q2] quiet_ops(11) [of c2] by (metis 3 snd_conv)
  have close: "stable c0 (signalConnReady p (stream_close p r d))" if "quiet c d" for d r
    by (rule stable_finish [OF stable_quiet [OF assms that]])
  have v: "quiet c (violation c2)" "quiet c (violation c3)"
    "quiet c (repAddSource (e_now e) ''requestKnownBadDest'' c2)"
    "quiet c (repAddDest (e_now e) resolved (ws_portNum (stream_at p c)) ''burstRate''
              (repAddSource (e_now e) ''burstRate'' (violation c1)))"
    by (rule quiet_trans [OF q2 quiet_ops(2)], rule quiet_trans [OF q3 quiet_ops(2)],
        rule quiet_trans [OF q2 quiet_ops(3)],
        rule quiet_trans [OF quiet_trans [OF quiet_trans [OF q1 quiet_ops(2)] quiet_ops(3)] quiet_ops(4)])
  show ?thesis
  proof (cases "ok1 \<and> ok2 \<and> \<not> dest_strict resolved (ws_portNum (stream_at p c)) c2 \<and> ok3")
    case True
    then have "connect_limits e p ty port resolved c = connect_dial e p ty resolved port a3 c3"
      by (simp add: connect_limits_def 1 2 3)
    with q3 show ?thesis by blast
  next
    case False
    then have "stable c0 (connect_limits e p ty port resolved c)"
      using close [OF v(1)] close [OF v(2)] close [OF v(3)] close [OF v(4)]
      by (auto simp: connect_limits_def 1 2 3)
    then show ?thesis ..
  qed
qed

text \<open>A goroutine that starts either closes its stream, or starts one dial, of a checked target.\<close>

lemma connect_start_shape:
  assumes p: "p < length (wc_heap c)"
  shows "stable c (connect_start e p ty port hostname c)
     \<or> (\<exists>d a resolved dl dns'. stable c d
          \<and> connect_start e p ty port hostname c
              = spawn (DialTask p ty resolved port a) (d\<lparr>wc_dials := wc_dials c @ [dl]\<rparr>)
          \<and> \<not> hostname_blocked (wc_config c) (NormalizeTargetHostname hostname)
          \<and> \<not> port_blocked (wc_config c) (of_int (ws_portNum (stream_at p c)))
          \<and> resolve_target (wc_config c) e hostname (wc_dns c) = (Target resolved, dns')
          \<and> choose_dial (wc_config c) e ty (NormalizeTargetHostname hostname) resolved port = Inr dl)"
proof -
  let ?c = "upd_stream p (\<lambda>s. s\<lparr>ws_hostname := NormalizeTargetHostname hostname\<rparr>) c"
  let ?cfg = "wc_config c"
  have c: "stable c ?c" by (intro stable_upd_stream) simp
  obtain res dns' where r: "resolve_target ?cfg e hostname (wc_dns c) = (res, dns')" by fastforce
  let ?d = "?c\<lparr>wc_dns := dns'\<rparr>"
  have d: "stable c ?d" by (rule stable_quiet [OF c quiet_ops(13)])
  show ?thesis
  proof (cases "hostname_blocked ?cfg (NormalizeTargetHostname hostname)
      \<or> port_blocked ?cfg (of_int (ws_portNum (stream_at p c)))")
    case True
    then have "connect_start e p ty port hostname c = signalConnReady p (stream_close p closeReasonBlocked ?c)"
      using p by (simp add: connect_start_def Let_def)
    then show ?thesis using stable_finish [OF c] by simp
  next
    case ok: False
    show ?thesis
    proof (cases res)
      case (Target resolved)
      have eq: "connect_start e p ty port hostname c = connect_limits e p ty port resolved ?d"
        using ok r Target p by (simp add: connect_start_def Let_def)
      from connect_limits_shape [OF d, of e p ty port resolved] consider
          "stable c (connect_start e p ty port hostname c)"
        | x a where "quiet ?d x" "connect_start e p ty port hostname c = connect_dial e p ty resolved port a x"
        unfolding eq by blast
      then show ?thesis
      proof cases
        case (2 x a)
        let ?x = "upd_stream p (\<lambda>s. s\<lparr>ws_streamType := ty,
          ws_bufferRemaining := cfg_BufferRemainingLength (wc_config x)\<rparr>) x"
        note f = quiet_fields [OF 2(1)]
        have x: "stable c x" by (rule stable_quiet [OF d 2(1)])
        have x': "stable c ?x" using x by (intro stable_then(10)) simp_all
        have fx: "wc_config ?x = ?cfg" "ws_hostname (stream_at p ?x) = NormalizeTargetHostname hostname"
          "wc_dials ?x = wc_dials c"
          using f p by simp_all
        show ?thesis
        proof (cases "choose_dial ?cfg e ty (NormalizeTargetHostname hostname) resolved port")
          case (Inl reason)
          have "stable c (signalConnReady p (stream_close p reason (release_syn a ?x)))"
            by (rule stable_finish [OF stable_quiet [OF x' quiet_ops(7)]])
          then show ?thesis
            using Inl 2(2) fx by (simp add: connect_dial_def Let_def)
        next
          case (Inr dl)
          then have "connect_start e p ty port hostname c
              = spawn (DialTask p ty resolved port a) (?x\<lparr>wc_dials := wc_dials c @ [dl]\<rparr>)"
            using 2(2) fx by (simp add: connect_dial_def Let_def)
          with Inr x' ok r Target show ?thesis by blast
        qed
      qed blast
    next
      case TargetBlocked
      then have "connect_start e p ty port hostname c = signalConnReady p (stream_close p closeReasonBlocked ?d)"
        using ok r p by (simp add: connect_start_def Let_def)
      then show ?thesis using stable_finish [OF d] by simp
    next
      case TargetUnreachable
      then have "connect_start e p ty port hostname c = signalConnReady p (stream_close p closeReasonUnreachable ?d)"
        using ok r p by (simp add: connect_start_def Let_def)
      then show ?thesis using stable_finish [OF d] by simp
    qed
  qed
qed

lemma connect_start_dial_allowed:
  assumes "\<not> hostname_blocked cfg (NormalizeTargetHostname hostname)"
    and "\<not> port_blocked cfg (port :: u16)"
    and "resolve_target cfg e hostname dns = (Target resolved, dns')"
    and "choose_dial cfg e ty (NormalizeTargetHostname hostname) resolved (itoa (unat port)) = Inr dl"
  shows "dial_allowed cfg dl"
proof -
  have ex: "filtered_address cfg P (JoinHostPort h (itoa (unat port)))" if "P h" for h P
    using that assms(2) by (auto simp: filtered_address_def)
  show ?thesis
    using assms(4) ex [of "target_allowed cfg", OF resolve_target_allowed [OF assms(3)]]
      ex [of "\<lambda>h. \<not> hostname_blocked cfg h", OF assms(1)]
    by (auto simp: choose_dial_def dial_allowed_def split: if_splits)
qed

section \<open>The safety invariant\<close>

definition stream_cap :: "Config \<Rightarrow> int option" where
  "stream_cap cfg =
     (case cfg_FloodProtection cfg of
        None \<Rightarrow> None
      | Some fp \<Rightarrow>
          if 0 < fp_MaxConcurrentStreamsPerConnection fp \<and> fp_MaxConcurrentStreamsPerConnection fp < 2 ^ 31
          then Some (fp_MaxConcurrentStreamsPerConnection fp) else None)"

definition port_known :: "wispConnection \<Rightarrow> nat \<Rightarrow> string \<Rightarrow> bool" where
  "port_known c p pt = (\<exists>port :: u16. pt = itoa (unat port) \<and> map ws_portNum (wc_heap c) ! p = uint port)"

definition terminal_rights :: "wispConnection \<Rightarrow> bool" where
  "terminal_rights c =
     (cfg_EnableTwisp (wc_config c) \<and> cfg_PasswordAuth (wc_config c) \<and> wc_isV2 c \<and> wc_authenticated c)"

definition safe :: "wispConnection \<Rightarrow> bool" where
  "safe c =
     ((handshake_pending c \<longrightarrow> wc_heap c = [] \<and> wc_theap c = [] \<and> wc_dials c = []
         \<and> (\<forall>p ty pt h. ConnectTask p ty pt h \<notin> set (wc_tasks c)) \<and> (\<forall>i cmd. TwispTask i cmd \<notin> set (wc_tasks c)))
      \<and> (wc_isV2 c \<longrightarrow> \<not> handshake_pending c \<longrightarrow> cfg_PasswordAuthRequired (wc_config c) \<longrightarrow> wc_authenticated c)
      \<and> ((\<exists>i cmd. TwispTask i cmd \<in> set (wc_tasks c)) \<or> wc_theap c \<noteq> [] \<longrightarrow> terminal_rights c)
      \<and> (\<forall>d \<in> set (wc_dials c). dial_allowed (wc_config c) d)
      \<and> (\<forall>p ty pt h. ConnectTask p ty pt h \<in> set (wc_tasks c) \<longrightarrow> port_known c p pt)
      \<and> (case stream_cap (wc_config c) of None \<Rightarrow> True | Some m \<Rightarrow> int (card (dom (wc_streams c))) \<le> m)
      \<and> wc_handshakeDone c \<noteq> Some True)"

lemma safeD:
  assumes "safe c"
  shows "handshake_pending c \<Longrightarrow> wc_heap c = [] \<and> wc_theap c = [] \<and> wc_dials c = []
         \<and> (\<forall>p ty pt h. ConnectTask p ty pt h \<notin> set (wc_tasks c)) \<and> (\<forall>i cmd. TwispTask i cmd \<notin> set (wc_tasks c))"
    and "wc_isV2 c \<Longrightarrow> \<not> handshake_pending c \<Longrightarrow> cfg_PasswordAuthRequired (wc_config c) \<Longrightarrow> wc_authenticated c"
    and "TwispTask i cmd \<in> set (wc_tasks c) \<Longrightarrow> terminal_rights c"
    and "wc_theap c \<noteq> [] \<Longrightarrow> terminal_rights c"
    and "d \<in> set (wc_dials c) \<Longrightarrow> dial_allowed (wc_config c) d"
    and "ConnectTask p ty pt h \<in> set (wc_tasks c) \<Longrightarrow> port_known c p pt"
    and "stream_cap (wc_config c) = Some m \<Longrightarrow> int (card (dom (wc_streams c))) \<le> m"
    and "wc_handshakeDone c \<noteq> Some True"
  using assms unfolding safe_def by (blast, blast, blast, blast, blast, blast, simp, blast)

lemma stable_safe:
  assumes st: "stable c c'" and safe: "safe c" and fin: "finite (dom (wc_streams c))"
  shows "safe c'"
proof -
  note s = safeD [OF safe]
  have eq: "wc_config c' = wc_config c" "wc_isV2 c' = wc_isV2 c" "wc_handshakeDone c' = wc_handshakeDone c"
    "wc_authenticated c' = wc_authenticated c" "length (wc_theap c') = length (wc_theap c)"
    "length (wc_heap c') = length (wc_heap c)" "dom (wc_streams c') \<subseteq> dom (wc_streams c)"
    "wc_dials c' = wc_dials c" "map ws_portNum (wc_heap c') = map ws_portNum (wc_heap c)"
    and tw: "\<And>i cmd. TwispTask i cmd \<in> set (wc_tasks c') \<Longrightarrow> TwispTask i cmd \<in> set (wc_tasks c)"
    and ct: "\<And>p ty pt h. ConnectTask p ty pt h \<in> set (wc_tasks c') \<Longrightarrow> ConnectTask p ty pt h \<in> set (wc_tasks c)"
    using st unfolding stable_def by blast+
  have hp: "handshake_pending c' = handshake_pending c"
    using eq by (simp add: handshake_pending_def)
  have tr: "terminal_rights c' = terminal_rights c"
    using eq by (simp add: terminal_rights_def)
  have pk: "port_known c' p pt = port_known c p pt" for p pt
    using eq by (simp add: port_known_def)
  have nil: "wc_heap c' = [] \<longleftrightarrow> wc_heap c = []" "wc_theap c' = [] \<longleftrightarrow> wc_theap c = []"
    using eq by (metis length_0_conv)+
  have card: "card (dom (wc_streams c')) \<le> card (dom (wc_streams c))"
    using eq fin by (intro card_mono)
  have 1: "handshake_pending c' \<longrightarrow> wc_heap c' = [] \<and> wc_theap c' = [] \<and> wc_dials c' = []
      \<and> (\<forall>p ty pt h. ConnectTask p ty pt h \<notin> set (wc_tasks c')) \<and> (\<forall>i cmd. TwispTask i cmd \<notin> set (wc_tasks c'))"
  proof
    assume "handshake_pending c'"
    then have p: "wc_heap c = [] \<and> wc_theap c = [] \<and> wc_dials c = []
         \<and> (\<forall>p ty pt h. ConnectTask p ty pt h \<notin> set (wc_tasks c)) \<and> (\<forall>i cmd. TwispTask i cmd \<notin> set (wc_tasks c))"
      using s(1) hp by simp
    then have "\<forall>p ty pt h. ConnectTask p ty pt h \<notin> set (wc_tasks c')" using ct by blast
    moreover have "\<forall>i cmd. TwispTask i cmd \<notin> set (wc_tasks c')" using p tw by blast
    ultimately show "wc_heap c' = [] \<and> wc_theap c' = [] \<and> wc_dials c' = []
      \<and> (\<forall>p ty pt h. ConnectTask p ty pt h \<notin> set (wc_tasks c')) \<and> (\<forall>i cmd. TwispTask i cmd \<notin> set (wc_tasks c'))"
      using p nil eq by simp
  qed
  have 2: "wc_isV2 c' \<longrightarrow> \<not> handshake_pending c' \<longrightarrow> cfg_PasswordAuthRequired (wc_config c') \<longrightarrow> wc_authenticated c'"
    using s(2) hp eq by simp
  have 3: "(\<exists>i cmd. TwispTask i cmd \<in> set (wc_tasks c')) \<or> wc_theap c' \<noteq> [] \<longrightarrow> terminal_rights c'"
    using tw s(3,4) nil tr by blast
  have 4: "\<forall>d \<in> set (wc_dials c'). dial_allowed (wc_config c') d"
    using s(5) eq by simp
  have 5: "\<forall>p ty pt h. ConnectTask p ty pt h \<in> set (wc_tasks c') \<longrightarrow> port_known c' p pt"
    using s(6) ct pk by blast
  have 6: "case stream_cap (wc_config c') of None \<Rightarrow> True | Some m \<Rightarrow> int (card (dom (wc_streams c'))) \<le> m"
  proof (cases "stream_cap (wc_config c)")
    case (Some m)
    with s(7) [OF Some] card eq(1) show ?thesis by simp
  qed (use eq in simp)
  have 7: "wc_handshakeDone c' \<noteq> Some True"
    using s(8) eq by simp
  from 1 2 3 4 5 6 7 show ?thesis
    unfolding safe_def by (intro conjI)
qed


section \<open>Every step is safe\<close>

lemma inv_finite: "conn_inv q c \<Longrightarrow> finite (dom (wc_streams c))"
  using conn_invD(1) finite_streams by blast

lemma quiet_safe: "quiet c d \<Longrightarrow> safe d = safe c"
proof -
  assume "quiet c d"
  note f = quiet_fields [OF this]
  show ?thesis
    unfolding safe_def handshake_pending_def terminal_rights_def port_known_def f ..
qed

text \<open>Operations past the handshake that add a dial, a terminal or its goroutines.\<close>

lemma safe_extend:
  assumes safe: "safe c" and np: "\<not> handshake_pending c"
    and eq: "wc_config c' = wc_config c" "wc_isV2 c' = wc_isV2 c"
      "wc_handshakeDone c' = wc_handshakeDone c" "wc_authenticated c' = wc_authenticated c"
      "wc_streams c' = wc_streams c" "map ws_portNum (wc_heap c') = map ws_portNum (wc_heap c)"
    and ct: "\<And>p ty pt h. ConnectTask p ty pt h \<in> set (wc_tasks c') \<Longrightarrow> ConnectTask p ty pt h \<in> set (wc_tasks c)"
    and tw: "(\<exists>i cmd. TwispTask i cmd \<in> set (wc_tasks c')) \<or> wc_theap c' \<noteq> [] \<Longrightarrow> terminal_rights c"
    and dl: "\<And>d. d \<in> set (wc_dials c') \<Longrightarrow> dial_allowed (wc_config c) d"
  shows "safe c'"
proof -
  note s = safeD [OF safe]
  have hp: "handshake_pending c' = handshake_pending c"
    using eq by (simp add: handshake_pending_def)
  have tr: "terminal_rights c' = terminal_rights c"
    using eq by (simp add: terminal_rights_def)
  have pk: "port_known c' p pt = port_known c p pt" for p pt
    using eq by (simp add: port_known_def)
  have 1: "\<forall>p ty pt h. ConnectTask p ty pt h \<in> set (wc_tasks c') \<longrightarrow> port_known c' p pt"
    using s(6) ct pk by blast
  have 2: "case stream_cap (wc_config c') of None \<Rightarrow> True | Some m \<Rightarrow> int (card (dom (wc_streams c'))) \<le> m"
    using s(7) eq by (simp split: option.split)
  have 3: "wc_isV2 c' \<longrightarrow> \<not> handshake_pending c' \<longrightarrow> cfg_PasswordAuthRequired (wc_config c') \<longrightarrow> wc_authenticated c'"
    using s(2) hp eq by simp
  have 4: "(\<exists>i cmd. TwispTask i cmd \<in> set (wc_tasks c')) \<or> wc_theap c' \<noteq> [] \<longrightarrow> terminal_rights c'"
    using tw tr by blast
  have 5: "\<forall>d \<in> set (wc_dials c'). dial_allowed (wc_config c') d"
    using dl eq by simp
  have 6: "wc_handshakeDone c' \<noteq> Some True"
    using s(8) eq by simp
  have 7: "\<not> handshake_pending c'" using hp np by simp
  from 1 2 3 4 5 6 7 show ?thesis unfolding safe_def by (intro conjI impI) blast+
qed

lemma register_stream_safe:
  assumes safe: "safe c" and inv: "conn_inv None c" and np: "\<not> handshake_pending c"
    and cap: "\<not> stream_limit_reached c"
  shows "safe (register_stream i ty port h c)"
proof (cases "wc_streams c i")
  case (Some p)
  then show ?thesis using safe by (simp add: register_stream_def)
next
  case None
  note s = safeD [OF safe]
  let ?n = "length (wc_heap c)"
  let ?c = "register_stream i ty port h c"
  have eq: "wc_config ?c = wc_config c" "wc_theap ?c = wc_theap c" "wc_dials ?c = wc_dials c"
    "wc_streams ?c = (wc_streams c)(i \<mapsto> ?n)" "wc_heap ?c = wc_heap c @ [newStream i port h]"
    "wc_tasks ?c = wc_tasks c @ [ConnectTask ?n ty (itoa (unat port)) h]"
    "handshake_pending ?c = handshake_pending c" "terminal_rights ?c = terminal_rights c"
    "wc_isV2 ?c = wc_isV2 c" "wc_authenticated ?c = wc_authenticated c"
    using None by (simp_all add: register_stream_def spawn_def handshake_pending_def terminal_rights_def)
  have old: "q < ?n" if "ConnectTask q ty' pt' h' \<in> set (wc_tasks c)" for q ty' pt' h'
    using conn_invD(5) [OF inv that] by (simp add: stream_of_task_def)
  have pk: "port_known ?c p pt" if "ConnectTask p ty' pt h' \<in> set (wc_tasks ?c)" for p ty' pt h'
  proof -
    from that eq(6) consider "ConnectTask p ty' pt h' \<in> set (wc_tasks c)" | "p = ?n" "pt = itoa (unat port)"
      by auto
    then show ?thesis
    proof cases
      case 1
      with s(6) [OF 1] old [OF 1] show ?thesis by (simp add: port_known_def eq(5) nth_append)
    next
      case 2
      then show ?thesis by (auto simp: port_known_def eq(5) nth_append newStream_def)
    qed
  qed
  have cap': "int (card (dom (wc_streams ?c))) \<le> m" if m: "stream_cap (wc_config c) = Some m" for m
  proof -
    obtain fp where fp: "cfg_FloodProtection (wc_config c) = Some fp"
      and pos: "0 < fp_MaxConcurrentStreamsPerConnection fp" "fp_MaxConcurrentStreamsPerConnection fp < 2 ^ 31"
      and mm: "m = fp_MaxConcurrentStreamsPerConnection fp"
      using m by (auto simp: stream_cap_def split: option.splits if_splits)
    have m32: "go_int32 m = m" using pos mm by (intro go_int32_id) simp_all
    let ?k = "int (card (dom (wc_streams c)))"
    have "?k \<le> m" using s(7) m by blast
    then have "go_int32 ?k = ?k" using pos mm by (intro go_int32_id) simp_all
    then have "wc_streamCount c = ?k" using conn_invD(3) [OF inv] by (simp add: count_ok_def)
    then have "?k < m" using cap fp pos mm m32 by (simp add: stream_limit_reached_def)
    then show ?thesis
      using None inv_finite [OF inv] by (simp add: eq(4) domIff)
  qed
  have hs: "wc_handshakeDone ?c = wc_handshakeDone c"
    using None by (simp add: register_stream_def spawn_def)
  have 1: "\<forall>p ty pt h. ConnectTask p ty pt h \<in> set (wc_tasks ?c) \<longrightarrow> port_known ?c p pt"
    using pk by blast
  have 2: "case stream_cap (wc_config ?c) of None \<Rightarrow> True | Some m \<Rightarrow> int (card (dom (wc_streams ?c))) \<le> m"
    using cap' eq(1) by (simp split: option.split)
  have 3: "(\<exists>i cmd. TwispTask i cmd \<in> set (wc_tasks ?c)) \<or> wc_theap ?c \<noteq> [] \<longrightarrow> terminal_rights ?c"
    unfolding eq(2,8) using s(3,4) eq(6) by auto
  have 4: "wc_isV2 ?c \<longrightarrow> \<not> handshake_pending ?c \<longrightarrow> cfg_PasswordAuthRequired (wc_config ?c) \<longrightarrow> wc_authenticated ?c"
    using s(2) eq by simp
  have 5: "\<forall>d \<in> set (wc_dials ?c). dial_allowed (wc_config ?c) d"
    using s(5) eq by simp
  have 6: "wc_handshakeDone ?c \<noteq> Some True"
    using s(8) hs by simp
  have 7: "\<not> handshake_pending ?c" using eq np by simp
  from 1 2 3 4 5 6 7 show ?thesis unfolding safe_def by (intro conjI impI) blast+
qed

lemma handleTwispConnect_safe:
  assumes safe: "safe c" and np: "\<not> handshake_pending c"
  shows "safe (handleTwispConnect now i cmd c)"
proof -
  have q: "safe (on_wire f (repAddSource now r c))" "safe (on_wire f c)" for f r
    using safe quiet_safe [OF quiet_trans [OF quiet_ops(3) quiet_ops(1)]] quiet_safe [OF quiet_ops(1)]
    by simp_all
  have "safe (spawn (TwispTask i cmd) c)"
    if "cfg_EnableTwisp (wc_config c)" "wc_isV2 c" "cfg_PasswordAuth (wc_config c)" "twispAuthorized c"
  proof -
    have "terminal_rights c" using that by (simp add: terminal_rights_def twispAuthorized_def)
    then show ?thesis
      by (intro safe_extend [OF safe np]) (auto simp: spawn_def dest: safeD(5) [OF safe])
  qed
  with q show ?thesis by (simp add: handleTwispConnect_def)
qed

lemma handleConnectPacket_safe:
  assumes safe: "safe c" and inv: "conn_inv None c" and np: "\<not> handshake_pending c"
  shows "safe (handleConnectPacket now i payload c)"
proof -
  obtain ok c1 where 1: "allow_per_source now (wc_remoteIP c) c = (ok, c1)" by fastforce
  have q: "quiet c c1" using quiet_ops(8) [of c] by (metis 1 snd_conv)
  have c1: "safe c1" "conn_inv None c1" "\<not> handshake_pending c1"
    "stream_limit_reached c1 = stream_limit_reached c"
    using quiet_safe [OF q] quiet_inv [OF q] safe inv np
    unfolding handshake_pending_def stream_limit_reached_def quiet_fields [OF q] by simp_all
  have v: "safe (on_wire f (violation c))" "safe (on_wire f (repAddSource now r (violation c1)))" for f r
    using quiet_safe [OF quiet_trans [OF quiet_ops(2) quiet_ops(1)]] safe c1(1)
      quiet_safe [OF quiet_trans [OF quiet_trans [OF quiet_ops(2) quiet_ops(3)] quiet_ops(1)]]
    by simp_all
  show ?thesis
    using safe v handleTwispConnect_safe [OF c1(1,3)] register_stream_safe [OF c1(1-3)] c1(4)
    by (simp add: handleConnectPacket_def 1)
qed

lemma handleInfo_safe:
  assumes safe: "safe c" and v2: "wc_isV2 c"
  shows "safe (handleInfo bcrypt i payload c)"
proof (cases "wc_handshakeDone c")
  case None
  then show ?thesis using safe by (simp add: handleInfo_def)
next
  case (Some b)
  note s = safeD [OF safe]
  have pend: "handshake_pending c"
    using Some v2 s(8) by (simp add: handshake_pending_def)
  have ref: "safe (refuse_client r c)" for r
    using safe quiet_safe [OF quiet_trans [OF quiet_ops(1) quiet_ops(1)]] by (simp add: refuse_client_def)
  have acc: "safe (accept_client a exts c)"
    if a: "cfg_PasswordAuthRequired (wc_config c) \<longrightarrow> a" for a exts
    using s(1) [OF pend] s(7) a unfolding safe_def
    by (auto simp: accept_client_def handshake_pending_def split: option.splits)
  show ?thesis
    using ref acc safe by (auto simp: handleInfo_def split: option.splits)
qed

lemma handlePacket_safe:
  assumes safe: "safe c" and inv: "conn_inv None c"
    and ok: "handshake_pending c \<Longrightarrow> ty = packetTypeInfo \<or> ty = packetTypeClose"
  shows "safe (handlePacket bcrypt now ty i payload c)"
proof -
  have "safe (handleClosePacket i payload c)" "safe (handleResize i payload c)"
    using stable_safe [OF stable_handleClosePacket [OF stable_refl] safe inv_finite [OF inv]]
      stable_safe [OF stable_handleResize [OF stable_refl] safe inv_finite [OF inv]] by blast+
  moreover have "safe (handleConnectPacket now i payload c)" if "ty = packetTypeConnect"
    using handleConnectPacket_safe [OF safe inv] ok that by (auto simp: packet_type_defs)
  ultimately show ?thesis
    using safe handleInfo_safe [OF safe] by (simp add: handlePacket_def)
qed

lemma handleWispFrame_safe:
  assumes safe: "safe c" and inv: "conn_inv None c"
  shows "safe (snd (handleWispFrame bcrypt now packet b c))"
proof -
  have "safe (snd (handleDataPacket i payload b c))" for i payload
    using stable_safe [OF stable_handleDataPacket [OF stable_refl] safe inv_finite [OF inv]] .
  moreover have "safe (handlePacket bcrypt now ty i payload c)" if "\<not> handshake_pending c" for ty i payload
    using handlePacket_safe [OF safe inv] that by blast
  moreover have "safe (handlePacket bcrypt now ty i payload c)"
    if "ty = packetTypeInfo \<or> ty = packetTypeClose" for ty i payload
    using handlePacket_safe [OF safe inv] that by blast
  ultimately show ?thesis
    using safe by (auto simp: handleWispFrame_def Let_def)
qed

lemma dispatch_frame_safe:
  assumes safe: "safe c" and inv: "conn_inv None c"
  shows "safe (snd (dispatch_frame bcrypt now op payload b c))"
proof -
  have put: "safe (put_ws_buf x d) = safe d" for x d
    by (rule quiet_safe) simp
  have wire: "safe (on_wire f d) = safe d" for f d
    by (rule quiet_safe) simp
  obtain keep c1 where h: "handleWispFrame bcrypt now payload b c = (keep, c1)" by fastforce
  have "safe c1" using handleWispFrame_safe [OF safe inv, of bcrypt now payload b] h by simp
  with safe show ?thesis
    by (simp add: dispatch_frame_def h put wire)
qed

lemma connect_start_safe:
  assumes safe: "safe c" and inv: "conn_inv (Some p) c" and p: "p < length (wc_heap c)"
    and pk: "port_known c p pt"
  shows "safe (connect_start e p ty pt h c)"
proof -
  note fin = inv_finite [OF inv]
  obtain port :: u16 where port: "pt = itoa (unat port)" "ws_portNum (stream_at p c) = uint port"
    using pk p by (auto simp: port_known_def)
  have np: "\<not> handshake_pending c" using safeD(1) [OF safe] p by auto
  consider "stable c (connect_start e p ty pt h c)"
    | d a resolved dl dns' where "stable c d"
      "connect_start e p ty pt h c = spawn (DialTask p ty resolved pt a) (d\<lparr>wc_dials := wc_dials c @ [dl]\<rparr>)"
      "\<not> hostname_blocked (wc_config c) (NormalizeTargetHostname h)"
      "\<not> port_blocked (wc_config c) (of_int (ws_portNum (stream_at p c)))"
      "resolve_target (wc_config c) e h (wc_dns c) = (Target resolved, dns')"
      "choose_dial (wc_config c) e ty (NormalizeTargetHostname h) resolved pt = Inr dl"
    using connect_start_shape [OF p, of e ty pt h] by blast
  then show ?thesis
  proof cases
    case 1
    then show ?thesis by (rule stable_safe [OF _ safe fin])
  next
    case (2 d a resolved dl dns')
    have d: "safe d" by (rule stable_safe [OF 2(1) safe fin])
    have cfg: "wc_config d = wc_config c" "wc_dials d = wc_dials c" "\<not> handshake_pending d"
      using 2(1) np by (simp_all add: stable_def handshake_pending_def)
    have dl: "dial_allowed (wc_config c) dl"
      using connect_start_dial_allowed [OF 2(3), of port] 2(4-6) port by simp
    let ?x = "spawn (DialTask p ty resolved pt a) (d\<lparr>wc_dials := wc_dials c @ [dl]\<rparr>)"
    have tr: "(\<exists>i cmd. TwispTask i cmd \<in> set (wc_tasks d)) \<or> wc_theap d \<noteq> [] \<Longrightarrow> terminal_rights d"
      using safeD(3,4) [OF d] by blast
    have "safe ?x"
      by (rule safe_extend [OF d cfg(3)])
        (use dl cfg safeD(5) [OF safe] tr in \<open>auto simp: spawn_def\<close>)
    then show ?thesis using 2(2) by simp
  qed
qed

lemma handleTwisp_safe:
  assumes safe: "safe c" and rights: "terminal_rights c" and np: "\<not> handshake_pending c"
  shows "safe (handleTwisp i cmd start c)"
proof -
  have wire: "safe (on_wire f d) = safe d" for f d
    by (rule quiet_safe) simp
  have "safe (spawn (WaitTask n) (spawn (PtyTask n) (twisp_add i n (c\<lparr>wc_theap := ts\<rparr>))))" for n ts
    by (rule safe_extend [OF safe np])
      (use rights safeD(5) [OF safe] in \<open>auto simp: spawn_def twisp_add_def\<close>)
  with safe show ?thesis
    by (auto simp: handleTwisp_def wire split: option.splits)
qed

lemma conn_step_safe:
  assumes "conn_step bcrypt c c'" and safe: "safe c" and inv: "conn_inv None c"
  shows "safe c'"
proof -
  note st = stable_safe [OF _ safe inv_finite [OF inv]]
  have et: "stable c (end_task t c)" for t by (rule stable_end_task)
  show ?thesis
    using assms(1)
  proof cases
    case (step_frame now op payload b cont)
    then show ?thesis using dispatch_frame_safe [OF safe inv, of bcrypt now op payload b] by simp
  next
    case (step_refuse reason)
    then show ?thesis using quiet_safe [OF quiet_ops(1)] safe by simp
  next
    case (step_connect p ty pt h e)
    let ?d = "end_task (ConnectTask p ty pt h) c"
    note o = end_task_owner [OF inv step_connect(2), of p]
    have "safe ?d" by (rule st [OF et])
    moreover have "port_known ?d p pt"
      using safeD(6) [OF safe step_connect(2)] by (simp add: port_known_def)
    moreover have "p < length (wc_heap ?d)" "conn_inv (Some p) ?d"
      using o by (simp_all add: stream_of_task_def)
    ultimately show ?thesis
      unfolding step_connect(1) by (intro connect_start_safe)
  next
    case (step_dialed p ty h pt a e outcome)
    then show ?thesis using st [OF stable_connect_dialed [OF et]] by simp
  next
    case (step_flush p ds)
    then show ?thesis using st [OF stable_connect_flush [OF et]] by simp
  next
    case (step_ready p)
    then show ?thesis using st [OF stable_connect_ready [OF et]] by simp
  next
    case (step_read p b b' hdr d err)
    then show ?thesis using st [OF stable_stream_read [OF et]] by simp
  next
    case (step_close p r)
    then show ?thesis using st [OF stable_stream_close [OF et]] by simp
  next
    case (step_twisp i cmd start)
    let ?d = "end_task (TwispTask i cmd) c"
    have "safe ?d" by (rule st [OF et])
    moreover have "terminal_rights ?d"
      using safeD(3) [OF safe step_twisp(2)] by (simp add: terminal_rights_def)
    moreover have "\<not> handshake_pending ?d"
      using safeD(1) [OF safe] step_twisp(2) by (auto simp: handshake_pending_def)
    ultimately show ?thesis
      unfolding step_twisp(1) by (rule handleTwisp_safe)
  next
    case (step_pty q b hdr d eof)
    then show ?thesis using st [OF stable_readPty [OF et]] by simp
  next
    case (step_wait q)
    then show ?thesis using st [OF stable_twisp_close [OF et]] by simp
  next
    case (step_twisp_close q r)
    then show ?thesis using st [OF stable_twisp_close [OF et]] by simp
  next
    case (step_end ps qs)
    then show ?thesis using st [OF stable_deleteAll [OF stable_refl]] by simp
  next
    case (step_shared g dns)
    have "quiet c c'" using step_shared by (simp add: quiet_def)
    from quiet_safe [OF this] safe show ?thesis by simp
  qed
qed

lemma start_safe: "safe (start_connection (newConnection cfg g dns v2 ip i nc))"
proof -
  have wire: "safe (on_wire f d) = safe d" for f d
    by (rule quiet_safe) simp
  show ?thesis
    by (auto simp: start_connection_def wire safe_def newConnection_def handshake_pending_def
        terminal_rights_def stream_cap_def split: option.splits)
qed

lemma reachable_safe:
  assumes "reachable bcrypt (newConnection cfg g dns v2 ip i nc) c"
  shows "safe c"
proof -
  have "reachable bcrypt (newConnection cfg g dns v2 ip i nc) c \<Longrightarrow> safe c \<and> conn_inv None c"
  proof (induction rule: reachable.induct)
    case reach_start
    then show ?case using start_safe start_connection_inv newConnection_inv by blast
  next
    case (reach_step c c')
    then show ?case using conn_step_safe conn_step_inv by blast
  qed
  with assms show ?thesis by blast
qed

end
