(* ===== verification/Conn_Policy.thy ===== *)
theory Conn_Policy
  imports Conn_Safety
begin

text \<open>
  What the policies of the administrator guarantee, in every reachable state of a
  connection: the targets that are dialled, the number of streams, the handshake and the
  password, the terminals.
\<close>

section \<open>The set-up of a connection does not change\<close>

definition same_setup :: "wispConnection \<Rightarrow> wispConnection \<Rightarrow> bool" where
  "same_setup c c' = (wc_config c' = wc_config c \<and> wc_isV2 c' = wc_isV2 c)"

definition same_login :: "wispConnection \<Rightarrow> wispConnection \<Rightarrow> bool" where
  "same_login c c' = (same_setup c c' \<and> wc_authenticated c' = wc_authenticated c)"

lemma stable_login: "stable c c' \<Longrightarrow> same_login c c'"
  by (simp add: stable_def same_login_def same_setup_def)

lemma quiet_login: "quiet c c' \<Longrightarrow> same_login c c'"
  by (rule stable_login [OF quiet_stable])

lemma login_trans: "same_login a b \<Longrightarrow> same_login b c \<Longrightarrow> same_login a c"
  by (simp add: same_login_def same_setup_def)

lemma login_refl [simp]: "same_login c c"
  by (simp add: same_login_def same_setup_def)

lemma register_stream_login: "same_login c (register_stream i ty port h c)"
  by (simp add: register_stream_def spawn_def same_login_def same_setup_def split: option.split)

lemma handleTwispConnect_login: "same_login c (handleTwispConnect now i cmd c)"
  using quiet_login [OF quiet_trans [OF quiet_ops(3) quiet_ops(1)]] quiet_login [OF quiet_ops(1)]
  by (simp add: handleTwispConnect_def) (simp add: same_login_def same_setup_def spawn_def)

lemma handleConnectPacket_login: "same_login c (handleConnectPacket now i payload c)"
proof -
  obtain ok c1 where 1: "allow_per_source now (wc_remoteIP c) c = (ok, c1)" by fastforce
  have q: "quiet c c1" using quiet_ops(8) [of c] by (metis 1 snd_conv)
  note l = login_trans [OF quiet_login [OF q]]
  have "same_login c (on_wire f (violation c))" for f
    by (rule quiet_login [OF quiet_trans [OF quiet_ops(2) quiet_ops(1)]])
  moreover have "same_login c (on_wire f (repAddSource now r (violation c1)))" for f r
    by (rule l [OF quiet_login [OF quiet_trans [OF quiet_trans [OF quiet_ops(2) quiet_ops(3)] quiet_ops(1)]]])
  ultimately show ?thesis
    using l [OF register_stream_login] l [OF handleTwispConnect_login]
    by (simp add: handleConnectPacket_def 1)
qed

lemma connect_start_login:
  assumes "p < length (wc_heap c)"
  shows "same_login c (connect_start e p ty pt h c)"
proof -
  have ex: "same_login c (spawn t (d\<lparr>wc_dials := ds\<rparr>))" if "stable c d" for t d ds
    using that by (simp add: stable_def same_login_def same_setup_def spawn_def)
  from connect_start_shape [OF assms, of e ty pt h] show ?thesis
    using ex stable_login by metis
qed

lemma handleTwisp_login: "same_login c (handleTwisp i cmd start c)"
  using quiet_login [OF quiet_ops(1)]
  by (auto simp: handleTwisp_def split: option.splits)
    (simp add: same_login_def same_setup_def spawn_def twisp_add_def)

text \<open>Only \<open>handleInfo\<close> touches the login.\<close>

definition accepted_info ::
    "(string \<Rightarrow> string \<Rightarrow> bool) \<Rightarrow> bytes \<Rightarrow> wispConnection \<Rightarrow> Extensions \<Rightarrow> bool" where
  "accepted_info bcrypt payload c exts =
     (wc_isV2 c \<and> wc_handshakeDone c \<noteq> None \<and> 5 \<le> length payload \<and> payload ! 0 = packetTypeInfo
      \<and> le32_of (take 4 (drop 1 payload)) = 0 \<and> parseClientInfo (drop 5 payload) = Some exts
      \<and> cfg_PasswordAuth (wc_config c) \<and> ex_passwordUsername exts \<noteq> []
      \<and> password_ok bcrypt (wc_config c) exts)"

lemma handleInfo_login:
  "same_setup c (handleInfo bcrypt i payload c)
   \<and> (wc_authenticated (handleInfo bcrypt i payload c) \<noteq> wc_authenticated c \<longrightarrow>
        i = 0 \<and> wc_handshakeDone c \<noteq> None \<and> (\<exists>exts. parseClientInfo payload = Some exts
          \<and> (wc_authenticated (handleInfo bcrypt i payload c) \<longrightarrow>
              cfg_PasswordAuth (wc_config c) \<and> ex_passwordUsername exts \<noteq> []
              \<and> password_ok bcrypt (wc_config c) exts)))"
proof -
  have ref: "same_setup c (refuse_client r c)" "wc_authenticated (refuse_client r c) = wc_authenticated c" for r
    by (simp_all add: refuse_client_def same_setup_def)
  have acc: "same_setup c (accept_client a exts c)" "wc_authenticated (accept_client a exts c) = a" for a exts
    by (simp_all add: accept_client_def same_setup_def)
  have rfl: "same_setup c c" by (simp add: same_setup_def)
  show ?thesis
    by (simp add: handleInfo_def ref acc rfl split: option.split)
qed

lemma handlePacket_login:
  assumes "ty \<noteq> packetTypeInfo \<or> \<not> wc_isV2 c"
  shows "same_login c (handlePacket bcrypt now ty i payload c)"
  using assms handleConnectPacket_login stable_login [OF stable_handleClosePacket [OF stable_refl]]
    stable_login [OF stable_handleResize [OF stable_refl]]
  by (simp add: handlePacket_def)

lemma dispatch_frame_login:
  assumes "dispatch_frame bcrypt now op payload b c = (cont, c')"
  shows "same_setup c c' \<and> (wc_authenticated c' \<longrightarrow> \<not> wc_authenticated c \<longrightarrow>
    (\<exists>exts. accepted_info bcrypt payload c exts))"
proof -
  have fin: "same_login d (put_ws_buf x d)" "same_login d (on_wire f d)" "same_login d (put_ws_buf x (on_wire f d))"
    for d x f
    using quiet_login [OF quiet_ops(5)] quiet_login [OF quiet_ops(1)]
      quiet_login [OF quiet_trans [OF quiet_ops(1) quiet_ops(5)]] by blast+
  obtain keep c1 where h: "handleWispFrame bcrypt now payload b c = (keep, c1)" by fastforce
  define ty where "ty = payload ! 0"
  define i where "i = le32_of (take 4 (drop 1 payload))"
  define body where "body = drop 5 payload"
  consider (data) "same_login c c1"
    | (info) "5 \<le> length payload" "ty = packetTypeInfo" "wc_isV2 c" "c1 = handleInfo bcrypt i body c"
  proof (cases "5 \<le> length payload \<and> ty = packetTypeInfo \<and> wc_isV2 c")
    case True
    then have "c1 = handleInfo bcrypt i body c"
      using h by (auto simp: handleWispFrame_def Let_def ty_def i_def body_def handlePacket_def
          packet_type_defs split: if_splits)
    with True that show ?thesis by blast
  next
    case False
    have "same_login c (handlePacket bcrypt now ty i body c)" if "5 \<le> length payload"
      by (rule handlePacket_login) (use False that in blast)
    moreover have "same_login c (snd (handleDataPacket i body b c))"
      by (rule stable_login [OF stable_handleDataPacket [OF stable_refl]])
    ultimately have "same_login c c1"
      using h by (auto simp: handleWispFrame_def Let_def ty_def i_def body_def split: if_splits)
    with that show ?thesis by blast
  qed
  then have "same_setup c c1 \<and> (wc_authenticated c1 \<longrightarrow> \<not> wc_authenticated c \<longrightarrow>
      (\<exists>exts. accepted_info bcrypt payload c exts))"
  proof cases
    case data
    then show ?thesis by (simp add: same_login_def)
  next
    case info
    with handleInfo_login [of c bcrypt i body] show ?thesis
      unfolding accepted_info_def ty_def i_def body_def by blast
  qed
  moreover have "c' = c1 \<or> c' = put_ws_buf (Some b) c1 \<or> same_login c c'"
    using assms h fin by (auto simp: dispatch_frame_def split: if_splits)
  ultimately show ?thesis
    using fin(1) [of c1] by (auto simp: same_login_def same_setup_def)
qed

lemma conn_step_login:
  assumes "conn_step bcrypt c c'" and inv: "conn_inv None c"
  shows "same_login c c' \<or> (\<exists>now op payload b cont. dispatch_frame bcrypt now op payload b c = (cont, c'))"
proof -
  have et: "stable c (end_task t c)" for t by (rule stable_end_task)
  note tr = login_trans [OF stable_login [OF et]]
  show ?thesis
    using assms(1)
  proof cases
    case (step_connect p ty pt h e)
    have "p < length (wc_heap (end_task (ConnectTask p ty pt h) c))"
      using conn_invD(5) [OF inv step_connect(2)] by (simp add: stream_of_task_def)
    from tr [OF connect_start_login [OF this]] step_connect(1) show ?thesis by blast
  next
    case (step_twisp i cmd start)
    then show ?thesis using tr [OF handleTwisp_login] by blast
  next
    case (step_shared g dns)
    have "quiet c c'" using step_shared by (simp add: quiet_def)
    then show ?thesis by (simp add: quiet_login)
  next
    case (step_frame now op payload b cont)
    then show ?thesis by blast
  next
    case (step_refuse reason)
    show ?thesis unfolding step_refuse(1) by (rule disjI1 [OF quiet_login [OF quiet_ops(1)]])
  next
    case (step_dialed p ty h pt a e outcome)
    show ?thesis unfolding step_dialed(1) by (rule disjI1 [OF stable_login [OF stable_connect_dialed [OF et]]])
  next
    case (step_flush p ds)
    show ?thesis unfolding step_flush(1) by (rule disjI1 [OF stable_login [OF stable_connect_flush [OF et]]])
  next
    case (step_ready p)
    show ?thesis unfolding step_ready(1) by (rule disjI1 [OF stable_login [OF stable_connect_ready [OF et]]])
  next
    case (step_read p b b2 hdr d err)
    show ?thesis unfolding step_read(1) by (rule disjI1 [OF stable_login [OF stable_stream_read [OF et]]])
  next
    case (step_close p r)
    show ?thesis unfolding step_close(1) by (rule disjI1 [OF stable_login [OF stable_stream_close [OF et]]])
  next
    case (step_pty q b hdr d eof)
    show ?thesis unfolding step_pty(1) by (rule disjI1 [OF stable_login [OF stable_readPty [OF et]]])
  next
    case (step_wait q)
    show ?thesis unfolding step_wait(1) by (rule disjI1 [OF stable_login [OF stable_twisp_close [OF et]]])
  next
    case (step_twisp_close q r)
    show ?thesis unfolding step_twisp_close(1) by (rule disjI1 [OF stable_login [OF stable_twisp_close [OF et]]])
  next
    case (step_end ps qs)
    show ?thesis unfolding step_end(1) by (rule disjI1 [OF stable_login [OF stable_deleteAll [OF stable_refl]]])
  qed
qed

lemma start_setup: "same_setup c (start_connection c)"
  by (simp add: start_connection_def same_setup_def)

lemma reachable_setup:
  assumes "reachable bcrypt (newConnection cfg g dns v2 ip i nc) c"
  shows "wc_config c = cfg \<and> wc_isV2 c = v2"
  using assms
proof induction
  case reach_start
  show ?case using start_setup [of "newConnection cfg g dns v2 ip i nc"]
    by (simp add: same_setup_def newConnection_def)
next
  case (reach_step c c')
  have "same_setup c c'"
    using conn_step_login [OF reach_step(2) reachable_inv [OF reach_step(1)]] dispatch_frame_login
    by (auto simp: same_login_def)
  with reach_step.IH show ?case by (simp add: same_setup_def)
qed


section \<open>Where a connection leads\<close>

text \<open>Without limits nothing keeps an allowed target from being dialled.\<close>

lemma connect_start_dials:
  assumes "unlimited c" and "p < length (wc_heap c)"
    and "\<not> hostname_blocked (wc_config c) (NormalizeTargetHostname h)"
    and "\<not> port_blocked (wc_config c) (of_int (ws_portNum (stream_at p c)))"
    and "resolve_target (wc_config c) e h (wc_dns c) = (Target resolved, dns')"
    and "choose_dial (wc_config c) e ty (NormalizeTargetHostname h) resolved pt = Inr dl"
  shows "connect_start e p ty pt h c = spawn (DialTask p ty resolved pt False)
     (upd_stream p (\<lambda>s. s\<lparr>ws_hostname := NormalizeTargetHostname h, ws_streamType := ty,
         ws_bufferRemaining := cfg_BufferRemainingLength (wc_config c)\<rparr>)
       (c\<lparr>wc_dns := dns', wc_dials := wc_dials c @ [dl]\<rparr>))"
proof -
  let ?c = "(upd_stream p (\<lambda>s. s\<lparr>ws_hostname := NormalizeTargetHostname h\<rparr>) c)\<lparr>wc_dns := dns'\<rparr>"
  have "unlimited ?c" using assms(1) by (simp add: unlimited_def)
  note u = allow_without_limits [OF this]
  show ?thesis
    using assms(2-) by (simp add: connect_start_def connect_limits_def connect_dial_def Let_def u spawn_def)
      (simp add: upd_stream_def)
qed

text \<open>The stream asked for, up to the dial.\<close>

definition stream_dialling ::
    "env \<Rightarrow> time \<Rightarrow> nat \<Rightarrow> u32 \<Rightarrow> u16 \<Rightarrow> string \<Rightarrow> wispConnection \<Rightarrow> wispConnection" where
  "stream_dialling e now b i port h c =
     (let c1 = snd (dispatch_frame (\<lambda>_ _. False) now 2
            (wispPacket packetTypeConnect i (connect_payload streamTypeTCP port h)) b c);
          t = ConnectTask (length (wc_heap c)) streamTypeTCP (itoa (unat port)) h
      in connect_start e (length (wc_heap c)) streamTypeTCP (itoa (unat port)) h (end_task t c1))"

text \<open>A target the configuration lets the client reach: \<open>resolved\<close> is what is dialled.\<close>

definition reaches :: "Config \<Rightarrow> env \<Rightarrow> string DNSCache \<Rightarrow> u16 \<Rightarrow> string \<Rightarrow> string \<Rightarrow> bool" where
  "reaches cfg e dns port h resolved \<longleftrightarrow>
     \<not> hostname_blocked cfg (NormalizeTargetHostname h) \<and> \<not> port_blocked cfg port
     \<and> fst (resolve_target cfg e h dns) = Target resolved \<and> cfg_Proxy cfg = []"

lemma stream_dialling_eq:
  assumes "\<not> handshake_pending c" and "\<not> stream_limit_reached c" and "unlimited c"
    and "wc_streams c i = None" and "reaches (wc_config c) e (wc_dns c) port h resolved"
  defines "p \<equiv> length (wc_heap c)" and "pt \<equiv> itoa (unat port)"
  shows "\<exists>dns'. stream_dialling e now b i port h c = spawn (DialTask p streamTypeTCP resolved pt False)
     (upd_stream p (\<lambda>s. s\<lparr>ws_hostname := NormalizeTargetHostname h, ws_streamType := streamTypeTCP,
         ws_bufferRemaining := cfg_BufferRemainingLength (wc_config c)\<rparr>)
       ((end_task (ConnectTask p streamTypeTCP pt h) (put_ws_buf (Some b) (register_stream i streamTypeTCP port h c)))
          \<lparr>wc_dns := dns', wc_dials := wc_dials c @ [DirectDial ''tcp'' (JoinHostPort resolved pt)]\<rparr>))"
proof -
  let ?c1 = "end_task (ConnectTask p streamTypeTCP pt h)
    (put_ws_buf (Some b) (register_stream i streamTypeTCP port h c))"
  have c1: "wc_heap ?c1 = wc_heap c @ [newStream i port h]" "unlimited ?c1"
    "wc_config ?c1 = wc_config c" "wc_dns ?c1 = wc_dns c" "wc_dials ?c1 = wc_dials c"
    using assms(3,4) by (simp_all add: unlimited_def put_ws_buf_def register_stream_def end_task_def spawn_def)
  obtain dns' where res: "resolve_target (wc_config c) e h (wc_dns c) = (Target resolved, dns')"
    using assms(5) by (cases "resolve_target (wc_config c) e h (wc_dns c)") (auto simp: reaches_def)
  have tcp: "streamTypeTCP \<noteq> streamTypeTerm" by (simp add: stream_type_defs)
  have quota: "allow_per_source now (wc_remoteIP c) c = (True, c)" by (rule allow_without_limits(1) [OF assms(3)])
  have "stream_dialling e now b i port h c = connect_start e p streamTypeTCP pt h ?c1"
    using dispatch_connect [OF assms(1,2) quota tcp, where bcrypt = "\<lambda>_ _. False" and i = i and port = port
        and h = h and b = b]
    by (simp add: stream_dialling_def Let_def p_def pt_def)
  also have "\<dots> = spawn (DialTask p streamTypeTCP resolved pt False)
     (upd_stream p (\<lambda>s. s\<lparr>ws_hostname := NormalizeTargetHostname h, ws_streamType := streamTypeTCP,
         ws_bufferRemaining := cfg_BufferRemainingLength (wc_config ?c1)\<rparr>)
       (?c1\<lparr>wc_dns := dns', wc_dials := wc_dials ?c1 @ [DirectDial ''tcp'' (JoinHostPort resolved pt)]\<rparr>))"
    by (rule connect_start_dials)
      (use assms(5) c1 res in \<open>simp_all add: reaches_def p_def newStream_def choose_dial_def\<close>)
  finally show ?thesis using c1 by auto
qed

lemma stream_dialling_shape:
  fixes now :: time and b :: nat
  assumes "\<not> handshake_pending c" and "\<not> stream_limit_reached c" and "unlimited c"
    and "wc_streams c i = None" and "reaches (wc_config c) e (wc_dns c) port h resolved"
  defines "p \<equiv> length (wc_heap c)" and "pt \<equiv> itoa (unat port)"
    and "d \<equiv> stream_dialling e now b i port h c"
  shows "wc_streams d i = Some p" "DialTask p streamTypeTCP resolved pt False \<in> set (wc_tasks d)"
    and "stream_at p d = (newStream i port h)\<lparr>ws_hostname := NormalizeTargetHostname h,
      ws_streamType := streamTypeTCP, ws_bufferRemaining := cfg_BufferRemainingLength (wc_config c)\<rparr>"
    and "wc_globals d = wc_globals c" "wc_wire d = wc_wire c" "wc_config d = wc_config c"
    and "wc_streamConfirm d = wc_streamConfirm c"
    and "wc_dials d = wc_dials c @ [DirectDial ''tcp'' (JoinHostPort resolved pt)]"
proof -
  obtain dns' where d: "d = spawn (DialTask p streamTypeTCP resolved pt False)
     (upd_stream p (\<lambda>s. s\<lparr>ws_hostname := NormalizeTargetHostname h, ws_streamType := streamTypeTCP,
         ws_bufferRemaining := cfg_BufferRemainingLength (wc_config c)\<rparr>)
       ((end_task (ConnectTask p streamTypeTCP pt h) (put_ws_buf (Some b) (register_stream i streamTypeTCP port h c)))
          \<lparr>wc_dns := dns', wc_dials := wc_dials c @ [DirectDial ''tcp'' (JoinHostPort resolved pt)]\<rparr>))"
    unfolding d_def p_def pt_def using stream_dialling_eq [OF assms(1-5)] by blast
  show "wc_streams d i = Some p" "DialTask p streamTypeTCP resolved pt False \<in> set (wc_tasks d)"
    "wc_globals d = wc_globals c" "wc_wire d = wc_wire c" "wc_config d = wc_config c"
    "wc_streamConfirm d = wc_streamConfirm c"
    "wc_dials d = wc_dials c @ [DirectDial ''tcp'' (JoinHostPort resolved pt)]"
    using assms(3,4) by (simp_all add: d spawn_def end_task_def put_ws_buf_def register_stream_def p_def)
  show "stream_at p d = (newStream i port h)\<lparr>ws_hostname := NormalizeTargetHostname h,
      ws_streamType := streamTypeTCP, ws_bufferRemaining := cfg_BufferRemainingLength (wc_config c)\<rparr>"
    using assms(4) by (simp add: d spawn_def end_task_def put_ws_buf_def register_stream_def p_def
        nth_append)
qed

lemma stream_dialling_steps:
  assumes "\<not> handshake_pending c" and "\<not> stream_limit_reached c" and "unlimited c"
    and "wc_streams c i = None"
  shows "(conn_step bcrypt)\<^sup>*\<^sup>* c (stream_dialling e now b i port h c)"
proof -
  have tcp: "streamTypeTCP \<noteq> streamTypeTerm" by (simp add: stream_type_defs)
  have quota: "allow_per_source now (wc_remoteIP c) c = (True, c)" by (rule allow_without_limits(1) [OF assms(3)])
  let ?c1 = "put_ws_buf (Some b) (register_stream i streamTypeTCP port h c)"
  have "conn_step bcrypt c ?c1"
    by (rule step_frame [OF dispatch_connect [OF assms(1,2) quota tcp]])
  moreover have "ConnectTask (length (wc_heap c)) streamTypeTCP (itoa (unat port)) h \<in> set (wc_tasks ?c1)"
    using assms(4) by (simp add: put_ws_buf_def register_stream_def spawn_def)
  then have "conn_step bcrypt ?c1 (stream_dialling e now b i port h c)"
    using dispatch_connect [OF assms(1,2) quota tcp, where bcrypt = "\<lambda>_ _. False" and i = i and port = port
        and h = h and b = b]
    by (simp add: stream_dialling_def Let_def) (rule step_connect)
  ultimately show ?thesis by (meson converse_rtranclp_into_rtranclp rtranclp.rtrancl_refl)
qed

lemma stream_dialling_reachable:
  assumes "reachable bcrypt c0 c"
    and "\<not> handshake_pending c" and "\<not> stream_limit_reached c" and "unlimited c"
    and "wc_streams c i = None"
  shows "reachable bcrypt c0 (stream_dialling e now b i port h c)"
  by (rule reach.runs [OF stream_dialling_steps [OF assms(2-5)] assms(1)])

definition example_env :: env where
  "example_env = \<lparr>e_now = 0, e_later = 0, e_resolve = (\<lambda>_. DnsErr ''no resolver''), e_socks5_ok = (\<lambda>_. False)\<rparr>"

definition example_dialing :: wispConnection where
  "example_dialing = connect_start example_env 0 streamTypeTCP ''80'' ''a.b''
     (end_task (ConnectTask 0 streamTypeTCP ''80'' ''a.b'') example_open)"

lemma example_dialing_reachable: "reachable (\<lambda>_ _. False) example_conn example_dialing"
  unfolding example_dialing_def
  by (rule reach_step [OF example_open_reachable step_connect]) (simp add: example_open_shape)

lemma example_dialing_eq:
  "example_dialing = spawn (DialTask 0 streamTypeTCP ''a.b'' ''80'' False)
     (upd_stream 0 (\<lambda>s. s\<lparr>ws_hostname := ''a.b'', ws_streamType := streamTypeTCP,
         ws_bufferRemaining := cfg_BufferRemainingLength DefaultConfig\<rparr>)
       ((end_task (ConnectTask 0 streamTypeTCP ''80'' ''a.b'') example_open)
          \<lparr>wc_dials := [DirectDial ''tcp'' ''a.b:80'']\<rparr>))"
proof -
  define c where "c = end_task (ConnectTask 0 streamTypeTCP ''80'' ''a.b'') example_open"
  have c: "wc_heap c = [newStream 5 80 ''a.b'']" "wc_config c = DefaultConfig" "wc_globals c = None"
    "wc_dials c = []"
    by (simp_all add: c_def end_task_def example_open_shape)
  have n: "NormalizeTargetHostname ''a.b'' = ''a.b''" "ParseIP ''a.b'' = []" "JoinHostPort ''a.b'' ''80'' = ''a.b:80''"
    by (simp_all add: NormalizeTargetHostname_def go_eval)
  have "connect_start example_env 0 streamTypeTCP ''80'' ''a.b'' c
      = spawn (DialTask 0 streamTypeTCP ''a.b'' ''80'' False)
     (upd_stream 0 (\<lambda>s. s\<lparr>ws_hostname := NormalizeTargetHostname ''a.b'', ws_streamType := streamTypeTCP,
         ws_bufferRemaining := cfg_BufferRemainingLength (wc_config c)\<rparr>)
       (c\<lparr>wc_dns := wc_dns c, wc_dials := wc_dials c @ [DirectDial ''tcp'' ''a.b:80'']\<rparr>))"
    by (rule connect_start_dials)
      (simp_all add: c n unlimited_def DefaultConfig_def emptyFilter_def hostname_blocked_def port_blocked_def
        resolve_target_def choose_dial_def stream_type_defs)
  then show ?thesis by (simp add: example_dialing_def c n flip: c_def)
qed

lemma example_dialing_shape:
  "wc_heap example_dialing = [(newStream 5 80 ''a.b'')\<lparr>ws_hostname := ''a.b'',
     ws_streamType := streamTypeTCP, ws_bufferRemaining := cfg_BufferRemainingLength DefaultConfig\<rparr>]"
  "wc_tasks example_dialing = [DialTask 0 streamTypeTCP ''a.b'' ''80'' False]"
  "wc_streams example_dialing = [5 \<mapsto> 0]" "wc_globals example_dialing = None"
  "wc_dials example_dialing = [DirectDial ''tcp'' ''a.b:80'']" "wc_config example_dialing = DefaultConfig"
  unfolding example_dialing_eq by (simp_all add: example_open_shape end_task_def)

text \<open>
  C1: No dial leaves the policy: every connection attempt a client causes, at any time and
  however the goroutines interleave, is one the configuration allows. Direct attempts go to
  an address that the egress rules accept, or to a name which is left to the dialler
  because the administrator whitelisted it or installed no resolver; the port passes the
  port filter; UDP only when it is enabled. With a proxy configured, all of them go through
  it, for names the host filter lets pass.
\<close>

theorem dials_allowed:
  assumes "reachable bcrypt (newConnection cfg g dns v2 ip n nc) c" and "d \<in> set (wc_dials c)"
  shows "dial_allowed cfg d"
  using safeD(5) [OF reachable_safe [OF assms(1)] assms(2)] reachable_setup [OF assms(1)] by simp

theorem dials_allowed_witness: "dial_allowed DefaultConfig (DirectDial ''tcp'' ''a.b:80'')"
  by (rule dials_allowed [OF example_dialing_reachable [unfolded example_conn_def]])
    (simp add: example_dialing_shape)

text \<open>
  C23: The limit on the streams of a connection holds: with a limit configured, the registry
  never has more streams than that, in any reachable state.
\<close>

theorem stream_cap_respected:
  assumes "reachable bcrypt (newConnection cfg g dns v2 ip n nc) c"
    and "cfg_FloodProtection cfg = Some fp"
    and "0 < fp_MaxConcurrentStreamsPerConnection fp" and "fp_MaxConcurrentStreamsPerConnection fp < 2 ^ 31"
  shows "int (card (dom (wc_streams c))) \<le> fp_MaxConcurrentStreamsPerConnection fp"
proof (rule safeD(7) [OF reachable_safe [OF assms(1)]])
  show "stream_cap (wc_config c) = Some (fp_MaxConcurrentStreamsPerConnection fp)"
    using reachable_setup [OF assms(1)] assms(2-4) by (simp add: stream_cap_def)
qed

definition example_flood :: FloodProtectionConfig where
  "example_flood = \<lparr>fp_Enabled = True, fp_MaxConnectsPerSourceIPPerSecond = 0,
     fp_MaxConnectsPerDestPerSecond = 0, fp_MaxConnectsPerDestPerMinute = 0, fp_MaxInFlightSyns = 0,
     fp_MaxConcurrentStreamsPerConnection = 1, fp_MaxConcurrentConnections = 0,
     fp_SynFloodSignature = \<lparr>sfs_Enabled = False, sfs_WindowMs = 0, sfs_MinSamples = 0,
       sfs_FailedHandshakeRatio = 0\<rparr>,
     fp_WsCloseAfterViolations = 0, fp_LogBlockedDials = False\<rparr>"

definition capped_conn :: wispConnection where
  "capped_conn = newConnection (DefaultConfig\<lparr>cfg_FloodProtection := Some example_flood\<rparr>) None
     (NewDNSCache [] 0 [] []) False ''192.0.2.7'' 1 (nc_fresh [])"

theorem stream_cap_respected_witness:
  "int (card (dom (wc_streams (snd (dispatch_frame (\<lambda>_ _. False) 0 2 example_connect 0
      (start_connection capped_conn)))))) \<le> 1"
proof -
  have "reachable (\<lambda>_ _. False) capped_conn (snd (dispatch_frame (\<lambda>_ _. False) 0 2 example_connect 0
      (start_connection capped_conn)))"
    by (rule reach_step [OF reach_start step_frame]) (rule prod.collapse [symmetric])
  from stream_cap_respected [OF this [unfolded capped_conn_def], of example_flood] show ?thesis
    by (simp add: capped_conn_def example_flood_def)
qed

section \<open>Handshake and password\<close>

text \<open>
  C22: Before the handshake of a v2 connection is done nothing happens for the client: no
  stream, no terminal, no connection attempt, and none is about to start.
\<close>

theorem nothing_before_handshake:
  assumes "reachable bcrypt (newConnection cfg g dns True ip n nc) c"
    and "wc_handshakeDone c = Some False"
  shows "wc_heap c = [] \<and> wc_theap c = [] \<and> wc_dials c = []
    \<and> (\<forall>t \<in> set (wc_tasks c). not_a_start t)"
proof -
  have "handshake_pending c"
    using reachable_setup [OF assms(1)] assms(2) by (simp add: handshake_pending_def)
  from safeD(1) [OF reachable_safe [OF assms(1)] this] show ?thesis
    by (auto simp: not_a_start_def split: task.split)
qed

definition login_cfg :: Config where
  "login_cfg = DefaultConfig\<lparr>cfg_PasswordAuth := True, cfg_PasswordAuthRequired := True,
     cfg_EnableTwisp := True, cfg_PasswordUsers := [''u'' \<mapsto> ''pw'']\<rparr>"

definition login_conn :: wispConnection where
  "login_conn = newConnection login_cfg None (NewDNSCache [] 0 [] []) True ''192.0.2.7'' 1 (nc_fresh [])"

theorem nothing_before_handshake_witness: "wc_dials (start_connection login_conn) = []"
  using nothing_before_handshake [OF reach_start [of "\<lambda>_ _. False"], of login_cfg None "NewDNSCache [] 0 [] []"
      "''192.0.2.7''" 1 "nc_fresh []"]
  by (simp add: start_connection_def newConnection_def login_conn_def)

text \<open>A log-in, and a terminal opened after it.\<close>

definition credentials :: "string \<Rightarrow> string \<Rightarrow> (u8 \<times> bytes) list" where
  "credentials user password =
     [(extensionPasswordAuth, of_nat (length user) # bytes_of_string user @ bytes_of_string password)]"

definition login_frame :: bytes where
  "login_frame = wispPacket packetTypeInfo 0 ([2, 1] @ concat (map ext_entry (credentials ''u'' ''pw'')))"

definition logged_in :: wispConnection where
  "logged_in = snd (dispatch_frame (\<lambda>_ _. False) 0 2 login_frame 0 (start_connection login_conn))"

lemma logged_in_reachable: "reachable (\<lambda>_ _. False) login_conn logged_in"
  unfolding logged_in_def
  by (rule reach_step [OF reach_start step_frame]) (rule prod.collapse [symmetric])

definition login_exts :: Extensions where
  "login_exts = noExtensions\<lparr>ex_passwordUsername := ''u'', ex_passwordPassword := ''pw''\<rparr>"

lemma login_parse:
  "parseClientInfo ([2, 1] @ concat (map ext_entry (credentials ''u'' ''pw''))) = Some login_exts"
proof -
  have "parse_extensions (concat (map ext_entry (credentials ''u'' ''pw'')) @ []) noExtensions
      = apply_all (credentials ''u'' ''pw'') noExtensions"
    by (rule parse_extensions_list) (simp_all add: credentials_def)
  also have "\<dots> = Some login_exts"
    using apply_password [of "''u''" "''pw''" noExtensions] by (simp add: credentials_def login_exts_def)
  finally show ?thesis by (simp add: parseClientInfo_def)
qed

lemma login_frame_parts:
  "login_frame ! 0 = packetTypeInfo" "\<not> length login_frame < 5"
  "le32_of (take 4 (drop 1 login_frame)) = 0"
  "drop 5 login_frame = [2, 1] @ concat (map ext_entry (credentials ''u'' ''pw''))"
  by (simp_all add: login_frame_def wispPacket_def le32.take_enc le32.drop_enc codec_simps le32.length_enc)

lemma login_start:
  "wc_isV2 (start_connection login_conn)" "wc_handshakeDone (start_connection login_conn) = Some False"
  "wc_config (start_connection login_conn) = login_cfg" "\<not> wc_authenticated (start_connection login_conn)"
  "wc_globals (start_connection login_conn) = None" "wc_tasks (start_connection login_conn) = []"
  by (simp_all add: start_connection_def login_conn_def newConnection_def)

lemma logged_in_eq:
  "logged_in = put_ws_buf (Some 0) (accept_client True login_exts (start_connection login_conn))"
proof -
  let ?c = "start_connection login_conn"
  have pw: "password_ok (\<lambda>_ _. False) login_cfg login_exts"
    by (simp add: password_ok_def login_cfg_def login_exts_def checkPassword_def strings_HasPrefix_def
        noExtensions_def)
  have "handleInfo (\<lambda>_ _. False) 0 (drop 5 login_frame) ?c = accept_client True login_exts ?c"
    using login_start pw login_parse
    by (simp add: handleInfo_def login_frame_parts login_cfg_def) (simp add: login_exts_def)
  then have "handleWispFrame (\<lambda>_ _. False) 0 login_frame 0 ?c = (False, accept_client True login_exts ?c)"
    using login_frame_parts login_start
    by (simp add: handleWispFrame_def Let_def handshake_pending_def handlePacket_def)
  then show ?thesis by (simp add: logged_in_def dispatch_frame_def)
qed

lemma logged_in_fields:
  "wc_isV2 logged_in" "wc_handshakeDone logged_in = None" "wc_authenticated logged_in"
  "wc_config logged_in = login_cfg" "wc_globals logged_in = None" "wc_tasks logged_in = []"
  by (simp_all add: logged_in_eq accept_client_def put_ws_buf_def login_start)



definition term_frame :: bytes where
  "term_frame = wispPacket packetTypeConnect 7 (connect_payload streamTypeTerm 0 ''sh'')"

definition with_terminal :: wispConnection where
  "with_terminal = snd (dispatch_frame (\<lambda>_ _. False) 0 2 term_frame 0 logged_in)"

lemma with_terminal_reachable: "reachable (\<lambda>_ _. False) login_conn with_terminal"
  unfolding with_terminal_def
  by (rule reach_step [OF logged_in_reachable step_frame]) (rule prod.collapse [symmetric])

lemma with_terminal_task: "TwispTask 7 ''sh'' \<in> set (wc_tasks with_terminal)"
proof -
  have "handleWispFrame (\<lambda>_ _. False) 0 term_frame 0 logged_in = (False, spawn (TwispTask 7 ''sh'') logged_in)"
    using logged_in_fields
    by (simp add: term_frame_def wispPacket_parts connect_payload_def le16.length_enc le16.drop_enc codec_simps
        handleWispFrame_def Let_def handshake_pending_def packet_type_defs handlePacket_def
        handleConnectPacket_def stream_limit_reached_def allow_per_source_def handleTwispConnect_def
        twispAuthorized_def login_cfg_def DefaultConfig_def)
  then show ?thesis by (simp add: with_terminal_def dispatch_frame_def put_ws_buf_def spawn_def)
qed

text \<open>
  Where a password is required, nothing is done for a v2 client without one: a stream, a
  terminal or a connection attempt exists only on an authenticated connection.
\<close>

theorem password_required:
  assumes "reachable bcrypt (newConnection cfg g dns True ip n nc) c"
    and "cfg_PasswordAuthRequired cfg"
    and "wc_heap c \<noteq> [] \<or> wc_theap c \<noteq> [] \<or> wc_dials c \<noteq> []"
  shows "wc_authenticated c"
proof (rule safeD(2) [OF reachable_safe [OF assms(1)]])
  show "\<not> handshake_pending c"
    using safeD(1) [OF reachable_safe [OF assms(1)]] assms(3) by blast
qed (use reachable_setup [OF assms(1)] assms(2) in simp_all)

definition stream_after_login :: wispConnection where
  "stream_after_login = snd (dispatch_frame (\<lambda>_ _. False) 0 2 example_connect 0 logged_in)"

lemma stream_after_login_step:
  "conn_step (\<lambda>_ _. False) (start_connection login_conn) logged_in"
  "conn_step (\<lambda>_ _. False) logged_in stream_after_login"
  unfolding logged_in_def stream_after_login_def
  by (rule step_frame, rule prod.collapse [symmetric])+

lemma stream_after_login_heap: "wc_heap stream_after_login \<noteq> []"
proof -
  have "wc_streams logged_in = Map.empty"
    by (simp add: logged_in_eq accept_client_def put_ws_buf_def login_conn_def start_connection_def
        newConnection_def)
  then show ?thesis
    unfolding stream_after_login_def example_connect_def
    by (subst dispatch_connect) (simp_all add: logged_in_fields handshake_pending_def
        stream_limit_reached_def allow_without_limits(1) unlimited_def stream_type_defs register_stream_def spawn_def
        put_ws_buf_def login_cfg_def DefaultConfig_def)
qed

theorem password_required_witness: "wc_authenticated stream_after_login"
proof (rule password_required)
  show "reachable (\<lambda>_ _. False) (newConnection login_cfg None (NewDNSCache [] 0 [] []) True
      ''192.0.2.7'' 1 (nc_fresh [])) stream_after_login"
    unfolding login_conn_def [symmetric]
    by (rule reach_step [OF reach_step [OF reach_start stream_after_login_step(1)] stream_after_login_step(2)])
qed (simp_all add: login_cfg_def stream_after_login_heap)

text \<open>
  C24: A terminal needs a log-in: whenever a terminal exists, or a goroutine is about to start
  one, terminals and passwords are enabled, the client speaks v2 and has authenticated.
\<close>

theorem terminals_need_login:
  assumes "reachable bcrypt (newConnection cfg g dns v2 ip n nc) c"
    and "wc_theap c \<noteq> [] \<or> TwispTask i cmd \<in> set (wc_tasks c)"
  shows "cfg_EnableTwisp cfg \<and> cfg_PasswordAuth cfg \<and> v2 \<and> wc_authenticated c"
  using safeD(3,4) [OF reachable_safe [OF assms(1)]] assms(2) reachable_setup [OF assms(1)]
  by (auto simp: terminal_rights_def)

theorem terminals_need_login_witness:
  "cfg_EnableTwisp login_cfg \<and> cfg_PasswordAuth login_cfg \<and> True \<and> wc_authenticated with_terminal"
  by (rule terminals_need_login [OF with_terminal_reachable [unfolded login_conn_def]])
    (rule disjI2, rule with_terminal_task)

text \<open>
  C16: A connection becomes authenticated in one way only: the step is a frame with an INFO
  packet on stream 0 of a v2 connection that has sent its announcement, and the packet
  names a configured user with the right password.
\<close>

theorem login_needs_password:
  assumes "reachable bcrypt (newConnection cfg g dns v2 ip n nc) c"
    and "conn_step bcrypt c c'" and "\<not> wc_authenticated c" and "wc_authenticated c'"
  shows "\<exists>now op payload b cont exts. dispatch_frame bcrypt now op payload b c = (cont, c')
    \<and> accepted_info bcrypt payload c exts
    \<and> (\<exists>stored. cfg_PasswordUsers cfg (ex_passwordUsername exts) = Some stored
        \<and> checkPassword bcrypt stored (ex_passwordPassword exts))"
proof -
  obtain now op payload b cont where d: "dispatch_frame bcrypt now op payload b c = (cont, c')"
    using conn_step_login [OF assms(2) reachable_inv [OF assms(1)]] assms(3,4)
    by (auto simp: same_login_def)
  with dispatch_frame_login [OF d] assms(3,4) obtain exts where a: "accepted_info bcrypt payload c exts"
    by blast
  then have "\<exists>stored. cfg_PasswordUsers cfg (ex_passwordUsername exts) = Some stored
      \<and> checkPassword bcrypt stored (ex_passwordPassword exts)"
    using reachable_setup [OF assms(1)]
    by (auto simp: accepted_info_def password_ok_def split: option.splits)
  with d a show ?thesis by blast
qed

theorem login_needs_password_witness:
  "\<exists>now op payload b cont exts.
     dispatch_frame (\<lambda>_ _. False) now op payload b (start_connection login_conn) = (cont, logged_in)
     \<and> accepted_info (\<lambda>_ _. False) payload (start_connection login_conn) exts
     \<and> (\<exists>stored. cfg_PasswordUsers login_cfg (ex_passwordUsername exts) = Some stored
         \<and> checkPassword (\<lambda>_ _. False) stored (ex_passwordPassword exts))"
proof (rule login_needs_password)
  show "reachable (\<lambda>_ _. False) (newConnection login_cfg None (NewDNSCache [] 0 [] []) True
      ''192.0.2.7'' 1 (nc_fresh [])) (start_connection login_conn)"
    unfolding login_conn_def by (rule reach_start)
  show "conn_step (\<lambda>_ _. False) (start_connection login_conn) logged_in"
    unfolding logged_in_def by (rule step_frame) (rule prod.collapse [symmetric])
qed (simp_all add: login_start logged_in_fields)


end
