(* ===== verification/Client_IP.thy ===== *)
theory Client_IP
  imports Wisp_Config
begin

text \<open>
  The client's address (\<open>wisp/clientip.go\<close>): the peer of the TCP connection, or, when the
  peer is a trusted proxy, the rightmost untrusted address of a forwarding header.
  \<open>header\<close> stands for \<open>r.Header.Get\<close> and \<open>remoteAddr\<close> for \<open>r.RemoteAddr\<close>.
\<close>

definition ipInAny :: "ip \<Rightarrow> ipnet list \<Rightarrow> bool" where
  "ipInAny p nets = list_ex (\<lambda>n. IPNet_Contains n p) nets"

text \<open>The inner loop, from the last element of the header to the first.\<close>

fun rightmost_untrusted :: "ipnet list \<Rightarrow> string list \<Rightarrow> ip option" where
  "rightmost_untrusted trusted [] = None"
| "rightmost_untrusted trusted (part # parts) =
     (if ParseIP (strings_TrimSpace part) = [] then rightmost_untrusted trusted parts
      else if ipInAny (ParseIP (strings_TrimSpace part)) trusted
      then rightmost_untrusted trusted parts
      else Some (ParseIP (strings_TrimSpace part)))"

fun header_candidate :: "(string \<Rightarrow> string) \<Rightarrow> ipnet list \<Rightarrow> string list \<Rightarrow> ip option" where
  "header_candidate header trusted [] = None"
| "header_candidate header trusted (h # hs) =
     (if header h = [] then header_candidate header trusted hs
      else (case rightmost_untrusted trusted (rev (strings_Split (header h) (CHR '',''))) of
              Some p \<Rightarrow> Some p
            | None \<Rightarrow> header_candidate header trusted hs))"

definition peer_ip :: "string \<Rightarrow> ip" where
  "peer_ip remoteAddr =
     ParseIP (case SplitHostPort remoteAddr of Some (host, _) \<Rightarrow> host | None \<Rightarrow> remoteAddr)"

definition ResolveClientIP ::
  "string \<Rightarrow> (string \<Rightarrow> string) \<Rightarrow> ipnet list \<Rightarrow> string list \<Rightarrow> ip" where
  "ResolveClientIP remoteAddr header trustedProxies headers =
     (if peer_ip remoteAddr = [] then IPv4zero
      else if \<not> ipInAny (peer_ip remoteAddr) trustedProxies then peer_ip remoteAddr
      else (case header_candidate header trustedProxies headers of
              Some p \<Rightarrow> p
            | None \<Rightarrow> peer_ip remoteAddr))"

section \<open>Properties\<close>

lemma Split_append:
  "strings_Split (u @ sep # v) sep = strings_Split u sep @ strings_Split v sep"
proof (induction u)
  case (Cons c u)
  then show ?case
    by (cases "strings_Split u sep") auto
qed simp

lemma rightmost_untrusted_append:
  "rightmost_untrusted tr (xs @ ys) =
     (case rightmost_untrusted tr xs of None \<Rightarrow> rightmost_untrusted tr ys | Some p \<Rightarrow> Some p)"
  by (induction xs) auto

lemma rightmost_untrusted_Some:
  "rightmost_untrusted tr parts = Some p \<Longrightarrow>
   p \<noteq> [] \<and> \<not> ipInAny p tr \<and> (\<exists>part \<in> set parts. p = ParseIP (strings_TrimSpace part))"
  by (induction parts) (auto split: if_splits)

lemma rightmost_untrusted_None:
  "rightmost_untrusted tr parts = None \<longleftrightarrow>
   (\<forall>part \<in> set parts. ParseIP (strings_TrimSpace part) = []
      \<or> ipInAny (ParseIP (strings_TrimSpace part)) tr)"
  by (induction parts) auto

lemma header_candidate_Some:
  "header_candidate header tr hs = Some p \<Longrightarrow>
   p \<noteq> [] \<and> \<not> ipInAny p tr \<and>
   (\<exists>h \<in> set hs. \<exists>part \<in> set (strings_Split (header h) (CHR '','')).
      p = ParseIP (strings_TrimSpace part))"
  by (induction hs) (auto split: if_splits option.splits dest!: rightmost_untrusted_Some)

text \<open>
  A client that does not connect through a trusted proxy cannot choose its address:
  the result is the peer of the TCP connection whatever headers it sends.
\<close>

theorem ResolveClientIP_untrusted_peer:
  assumes "\<not> ipInAny (peer_ip remoteAddr) trusted"
  shows "ResolveClientIP remoteAddr header trusted headers =
    (if peer_ip remoteAddr = [] then IPv4zero else peer_ip remoteAddr)"
  using assms by (simp add: ResolveClientIP_def)

theorem ResolveClientIP_untrusted_peer_witness:
  "ResolveClientIP ''203.0.113.9:4711'' (\<lambda>h. ''10.0.0.1'') [] [''X-Forwarded-For'']
     = ParseIP ''203.0.113.9''"
  by (subst ResolveClientIP_untrusted_peer) (simp_all add: ipInAny_def peer_ip_def go_eval)

text \<open>
  C29: Behind a trusted proxy the rightmost untrusted element of the first usable header
  is taken, so what a client puts in front of it has no influence: the elements to the
  right of the client's own are trusted proxies (or no addresses), the text to its left,
  \<open>spoofed\<close>, is arbitrary.
\<close>

theorem ResolveClientIP_ignores_spoofed_prefix:
  assumes peer: "peer_ip remoteAddr \<noteq> []" "ipInAny (peer_ip remoteAddr) trusted"
    and hdr: "header h = spoofed @ '','' @ client @ concat (map ((#) (CHR '','')) proxies)"
    and client: "CHR '','' \<notin> set client" "ParseIP (strings_TrimSpace client) \<noteq> []"
      "\<not> ipInAny (ParseIP (strings_TrimSpace client)) trusted"
    and proxies: "\<forall>q \<in> set proxies. CHR '','' \<notin> set q \<and>
      (ParseIP (strings_TrimSpace q) = [] \<or> ipInAny (ParseIP (strings_TrimSpace q)) trusted)"
  shows "ResolveClientIP remoteAddr header trusted (h # hs) = ParseIP (strings_TrimSpace client)"
proof -
  have tail: "strings_Split (client @ concat (map ((#) (CHR '','')) ps)) (CHR '','') = client # ps"
    if "\<forall>q \<in> set ps. CHR '','' \<notin> set q" for ps
    using that
  proof (induction ps rule: rev_induct)
    case Nil
    then show ?case using client(1) by (simp add: Split_no_sep)
  next
    case (snoc q ps)
    then have "strings_Split ((client @ concat (map ((#) (CHR '','')) ps)) @ CHR '','' # q) (CHR '','')
        = (client # ps) @ [q]"
      unfolding Split_append by (simp add: Split_no_sep)
    then show ?case by simp
  qed
  have "strings_Split (header h) (CHR '','') = strings_Split spoofed (CHR '','') @ client # proxies"
    using tail [of proxies] proxies by (simp add: hdr Split_append)
  moreover have "rightmost_untrusted trusted (rev proxies) = None"
    using proxies by (simp add: rightmost_untrusted_None)
  ultimately have "rightmost_untrusted trusted (rev (strings_Split (header h) (CHR '','')))
      = Some (ParseIP (strings_TrimSpace client))"
    using client by (simp add: rightmost_untrusted_append)
  moreover have "header h \<noteq> []"
    by (simp add: hdr)
  ultimately show ?thesis
    using peer by (simp add: ResolveClientIP_def)
qed

definition example_net :: ipnet where
  "example_net = \<lparr>net_IP = [10, 0, 0, 0], net_Mask = [255, 0, 0, 0]\<rparr>"

theorem ResolveClientIP_ignores_spoofed_prefix_witness:
  "ResolveClientIP ''10.0.0.1:443'' (\<lambda>h. ''1.1.1.1, 203.0.113.9, 10.0.0.2'') [example_net]
     [''X-Forwarded-For''] = ParseIP (strings_TrimSpace '' 203.0.113.9'')"
  by (rule ResolveClientIP_ignores_spoofed_prefix
      [where spoofed = "''1.1.1.1''" and proxies = "['' 10.0.0.2'']"])
    (simp_all add: ipInAny_def example_net_def peer_ip_def go_eval)

text \<open>
  The result is never nil, and it differs from the peer only when the peer is trusted;
  then it is an untrusted address that stands in one of the configured headers.
\<close>

theorem ResolveClientIP_source:
  "ResolveClientIP remoteAddr header trusted headers \<noteq> [] \<and>
   (ResolveClientIP remoteAddr header trusted headers \<in> {peer_ip remoteAddr, IPv4zero} \<or>
    (ipInAny (peer_ip remoteAddr) trusted
     \<and> \<not> ipInAny (ResolveClientIP remoteAddr header trusted headers) trusted
     \<and> (\<exists>h \<in> set headers. \<exists>part \<in> set (strings_Split (header h) (CHR '','')).
          ResolveClientIP remoteAddr header trusted headers = ParseIP (strings_TrimSpace part))))"
proof -
  have "IPv4zero \<noteq> []" by (simp add: IPv4zero_def)
  then show ?thesis
    by (auto simp: ResolveClientIP_def split: option.split dest: header_candidate_Some)
qed

end
