(* ===== verification/Logger.thy ===== *)
theory Logger
  imports Go_Net
begin

text \<open>
  The levelled logger (\<open>wisp/logger.go\<close>). The standard library's logger is the list of the
  messages printed; \<open>fmt_v\<close> stands for the formatting of the key-value list by the verb \<open>%v\<close>.
\<close>

definition levelDebug :: int where "levelDebug = 0"
definition levelInfo :: int where "levelInfo = 1"
definition levelWarn :: int where "levelWarn = 2"
definition levelError :: int where "levelError = 3"

lemmas level_defs = levelDebug_def levelInfo_def levelWarn_def levelError_def

record Log =
  lg_level :: int
  lg_lines :: "string list"

definition log_level_of :: "string \<Rightarrow> int" where
  "log_level_of level =
     (let l = strings_ToLower (strings_TrimSpace level)
      in if l = ''debug'' then levelDebug
         else if l = ''info'' then levelInfo
         else if l = ''warn'' \<or> l = ''warning'' then levelWarn
         else if l = ''error'' then levelError
         else levelInfo)"

definition newLogger :: "string \<Rightarrow> Log" where
  "newLogger level = \<lparr>lg_level = log_level_of level, lg_lines = []\<rparr>"

definition Log_log :: "('v list \<Rightarrow> string) \<Rightarrow> string \<Rightarrow> string \<Rightarrow> 'v list \<Rightarrow> Log \<Rightarrow> Log" where
  "Log_log fmt_v pfx msg kv l =
     (if length kv = 0 then l\<lparr>lg_lines := lg_lines l @ [''['' @ pfx @ ''] '' @ msg]\<rparr>
      else l\<lparr>lg_lines := lg_lines l @ [''['' @ pfx @ ''] '' @ msg @ '' '' @ fmt_v kv]\<rparr>)"

text \<open>A nil logger prints nothing.\<close>

definition Log_Debug :: "('v list \<Rightarrow> string) \<Rightarrow> string \<Rightarrow> 'v list \<Rightarrow> Log option \<Rightarrow> Log option" where
  "Log_Debug fmt_v msg kv lo =
     (case lo of
        None \<Rightarrow> None
      | Some l \<Rightarrow> if levelDebug < lg_level l then Some l else Some (Log_log fmt_v ''DEBUG'' msg kv l))"

definition Log_Info :: "('v list \<Rightarrow> string) \<Rightarrow> string \<Rightarrow> 'v list \<Rightarrow> Log option \<Rightarrow> Log option" where
  "Log_Info fmt_v msg kv lo =
     (case lo of
        None \<Rightarrow> None
      | Some l \<Rightarrow> if levelInfo < lg_level l then Some l else Some (Log_log fmt_v ''INFO'' msg kv l))"

definition Log_Warn :: "('v list \<Rightarrow> string) \<Rightarrow> string \<Rightarrow> 'v list \<Rightarrow> Log option \<Rightarrow> Log option" where
  "Log_Warn fmt_v msg kv lo =
     (case lo of
        None \<Rightarrow> None
      | Some l \<Rightarrow> if levelWarn < lg_level l then Some l else Some (Log_log fmt_v ''WARN'' msg kv l))"

definition Log_Error :: "('v list \<Rightarrow> string) \<Rightarrow> string \<Rightarrow> 'v list \<Rightarrow> Log option \<Rightarrow> Log option" where
  "Log_Error fmt_v msg kv lo =
     (case lo of
        None \<Rightarrow> None
      | Some l \<Rightarrow> if levelError < lg_level l then Some l else Some (Log_log fmt_v ''ERROR'' msg kv l))"

lemma log_level_of_range: "levelDebug \<le> log_level_of s \<and> log_level_of s \<le> levelError"
  by (simp add: log_level_of_def Let_def level_defs)

text \<open>
  A configured level lets a message through exactly when its severity is at least that
  level, whatever the configuration says the errors always get through, and a message that
  does not pass changes nothing.
\<close>

theorem Log_filters:
  "Log_Debug f m kv (Some (newLogger s)) =
     Some (if log_level_of s = levelDebug then Log_log f ''DEBUG'' m kv (newLogger s) else newLogger s)
   \<and> Log_Info f m kv (Some (newLogger s)) =
     Some (if log_level_of s \<in> {levelDebug, levelInfo} then Log_log f ''INFO'' m kv (newLogger s) else newLogger s)
   \<and> Log_Warn f m kv (Some (newLogger s)) =
     Some (if log_level_of s = levelError then newLogger s else Log_log f ''WARN'' m kv (newLogger s))
   \<and> Log_Error f m kv (Some (newLogger s)) = Some (Log_log f ''ERROR'' m kv (newLogger s))"
  using log_level_of_range [of s]
  by (auto simp: Log_Debug_def Log_Info_def Log_Warn_def Log_Error_def newLogger_def level_defs)

lemma log_level_examples:
  "log_level_of '' WARNING '' = levelWarn" "log_level_of ''verbose'' = levelInfo"
  by (simp_all add: log_level_of_def Let_def level_defs go_eval)

end
