(* ===== verification/Server.thy ===== *)
theory Server
  imports Conn_Policy Client_IP Logger
begin

text \<open>
  The server around the connections (\<open>wisp/wisp.go\<close>, \<open>main.go\<close>): filling in the run-time
  parts of the configuration, the shared limiters, the admission of requests, the end of a
  connection, and the set-up of the program.
\<close>

section \<open>Run-time configuration\<close>

text \<open>A trusted proxy without a prefix length is a single host.\<close>

definition trusted_entry :: "string \<Rightarrow> string" where
  "trusted_entry t =
     (if strings_Contains t ''/'' then t
      else if ParseIP t \<noteq> [] then t @ ''/'' @ itoa (if IP_To4 (ParseIP t) = [] then 128 else 32)
      else t)"

definition trusted_nets :: "string list \<Rightarrow> ipnet list" where
  "trusted_nets ts = List.map_filter (\<lambda>t. ParseCIDR (trusted_entry t)) ts"

definition InitResolver :: "Config \<Rightarrow> Config \<times> string DNSCache \<times> Log" where
  "InitResolver cfg =
     (cfg\<lparr>cfg_trustedProxyNets := trusted_nets (cfg_TrustedProxies cfg), cfg_hasDNSCache := True\<rparr>,
      NewDNSCache (cfg_DnsServers cfg) 0 (cfg_DnsMethod cfg) (cfg_DnsResultOrder cfg),
      newLogger (cfg_LogLevel cfg))"

definition flood_globals :: "FloodProtectionConfig \<Rightarrow> Globals \<Rightarrow> Globals" where
  "flood_globals fp g = g\<lparr>
     g_PerSource := (if 0 < fp_MaxConnectsPerSourceIPPerSecond fp
        then Some (NewSlidingWindow (fp_MaxConnectsPerSourceIPPerSecond fp) second) else g_PerSource g),
     g_PerDestSec := (if 0 < fp_MaxConnectsPerDestPerSecond fp
        then Some (NewSlidingWindow (fp_MaxConnectsPerDestPerSecond fp) second) else g_PerDestSec g),
     g_PerDestMin := (if 0 < fp_MaxConnectsPerDestPerMinute fp
        then Some (NewSlidingWindow (fp_MaxConnectsPerDestPerMinute fp) (60 * second)) else g_PerDestMin g),
     g_InFlightSyns := (if 0 < fp_MaxInFlightSyns fp
        then Some (NewSemaphore (fp_MaxInFlightSyns fp)) else g_InFlightSyns g),
     g_Connections := (if 0 < fp_MaxConcurrentConnections fp
        then Some (NewSemaphore (fp_MaxConcurrentConnections fp)) else g_Connections g),
     g_Signature := Some (NewSignatures \<lparr>
        sc_Enabled = sfs_Enabled (fp_SynFloodSignature fp),
        sc_Window = go_int (sfs_WindowMs (fp_SynFloodSignature fp) * 1000000),
        sc_MinSamples = sfs_MinSamples (fp_SynFloodSignature fp),
        sc_FailedHandshakeRatio = sfs_FailedHandshakeRatio (fp_SynFloodSignature fp)\<rparr>)\<rparr>"

definition reputation_config :: "ReputationConfig \<Rightarrow> ReputationConfig" where
  "reputation_config rc =
     (if rc_EvictAfter rc = 0 \<and> 0 < rc_EvictDays rc
      then rc\<lparr>rc_EvictAfter := go_int (go_int (rc_EvictDays rc * 24) * (3600 * second))\<rparr> else rc)"

definition noGlobals :: "EgressPolicy \<Rightarrow> Globals" where
  "noGlobals pol = \<lparr>g_PerSource = None, g_PerDestSec = None, g_PerDestMin = None, g_InFlightSyns = None,
     g_Connections = None, g_Egress = pol, g_Reputation = None, g_Signature = None\<rparr>"

text \<open>
  \<open>BuildGlobals\<close>: \<open>decode\<close> and \<open>fs\<close> are the JSON decoder and the files \<open>Load\<close> reads. Its error
  is ignored.
\<close>

definition BuildGlobals ::
    "('d \<Rightarrow> ((string \<rightharpoonup> SourceEntry) option \<times> (string \<rightharpoonup> DestEntry) option) option) \<Rightarrow> (string \<rightharpoonup> 'd)
     \<Rightarrow> time \<Rightarrow> Config \<Rightarrow> Globals option \<Rightarrow> Globals option" where
  "BuildGlobals decode fs now cfg old =
     (case old of
        Some g \<Rightarrow> Some g
      | None \<Rightarrow>
          let g0 = noGlobals (PolicyFromConfig cfg);
              g1 = (case cfg_FloodProtection cfg of
                      Some fp \<Rightarrow> if fp_Enabled fp then flood_globals fp g0 else g0
                    | None \<Rightarrow> g0)
          in Some (case cfg_Reputation cfg of
               Some rc \<Rightarrow>
                 if rc_Enabled rc
                 then g1\<lparr>g_Reputation := Some (snd (Load decode fs (NewReputation now (reputation_config rc))))\<rparr>
                 else g1
             | None \<Rightarrow> g1))"

section \<open>Requests\<close>

record server =
  sv_config :: Config
  sv_globals :: "Globals option"
  sv_dns :: "string DNSCache"
  sv_connIDCounter :: u64

definition create_handler ::
    "('d \<Rightarrow> ((string \<rightharpoonup> SourceEntry) option \<times> (string \<rightharpoonup> DestEntry) option) option) \<Rightarrow> (string \<rightharpoonup> 'd)
     \<Rightarrow> time \<Rightarrow> u64 \<Rightarrow> Config \<Rightarrow> server" where
  "create_handler decode fs now counter cfg =
     (case InitResolver cfg of (cfg', dns, _) \<Rightarrow>
        \<lparr>sv_config = cfg', sv_globals = BuildGlobals decode fs now cfg' None, sv_dns = dns,
         sv_connIDCounter = counter\<rparr>)"

record http_request =
  rq_protocol :: string
  rq_remoteAddr :: string
  rq_header :: "string \<Rightarrow> string"

datatype response = ServiceUnavailable | UpgradeRequired | UpgradeFailed | Accepted wispConnection

definition acquire_connection :: "server \<Rightarrow> bool \<times> server" where
  "acquire_connection sv =
     (case sv_globals sv of
        None \<Rightarrow> (True, sv)
      | Some g \<Rightarrow> (fst (TryAcquire (g_Connections g)),
          sv\<lparr>sv_globals := Some (g\<lparr>g_Connections := snd (TryAcquire (g_Connections g))\<rparr>)\<rparr>))"

definition release_connection :: "server \<Rightarrow> server" where
  "release_connection sv =
     sv\<lparr>sv_globals := map_option (\<lambda>g. g\<lparr>g_Connections := Release (g_Connections g)\<rparr>) (sv_globals sv)\<rparr>"

definition remote_ip :: "Config \<Rightarrow> http_request \<Rightarrow> string" where
  "remote_ip cfg rq =
     IP_String (ResolveClientIP (rq_remoteAddr rq) (rq_header rq)
       (if cfg_ParseRealIP cfg then cfg_trustedProxyNets cfg else []) (cfg_TrustedHeaders cfg))"

text \<open>
  The request handler; \<open>upgrade\<close> is the outcome of the WebSocket upgrade, a connection or an
  error. An accepted connection starts with its announcement or its first credit.
\<close>

definition handle_request :: "http_request \<Rightarrow> go_conn option \<Rightarrow> server \<Rightarrow> response \<times> server" where
  "handle_request rq upgrade sv =
     (case acquire_connection sv of (ok, sv1) \<Rightarrow>
        if \<not> ok then (ServiceUnavailable, sv1)
        else
          let useV2 = (cfg_EnableV2 (sv_config sv) \<and> rq_protocol rq \<noteq> []) in
          if requiresV2 (sv_config sv) \<and> \<not> useV2 then (UpgradeRequired, release_connection sv1)
          else (case upgrade of
              None \<Rightarrow> (UpgradeFailed, release_connection sv1)
            | Some netConn \<Rightarrow>
                let sv2 = sv1\<lparr>sv_connIDCounter := sv_connIDCounter sv1 + 1\<rparr> in
                (Accepted (start_connection (newConnection (sv_config sv) (sv_globals sv2) (sv_dns sv2) useV2
                   (remote_ip (sv_config sv) rq) (sv_connIDCounter sv2) netConn)), sv2)))"

text \<open>The end of a connection, as the server sees it: \<open>deleteAllWispStreams\<close> on the shared state.\<close>

definition end_connection :: "nat list \<Rightarrow> nat list \<Rightarrow> wispConnection \<Rightarrow> server \<Rightarrow> server" where
  "end_connection ps qs c sv =
     sv\<lparr>sv_globals := wc_globals (deleteAllWispStreams ps qs (c\<lparr>wc_globals := sv_globals sv\<rparr>))\<rparr>"

section \<open>The program\<close>

text \<open>
  The flags of \<open>main\<close>: \<open>-config\<close>, \<open>-port\<close> (0 when absent) and \<open>-allow-loopback\<close> with whether it
  was given. \<open>load\<close> stands for \<open>LoadConfig\<close>.
\<close>

record flags =
  fConfig :: string
  fPort :: int
  fAllowLoopback :: "bool option"

definition main_config :: "(string \<Rightarrow> config_error + Config) \<Rightarrow> flags \<Rightarrow> config_error + Config" where
  "main_config load fl =
     (case (if fConfig fl \<noteq> [] then load (fConfig fl) else Inr DefaultConfig) of
        Inl e \<Rightarrow> Inl e
      | Inr cfg0 \<Rightarrow>
          let cfg1 = (if fPort fl \<noteq> 0 then cfg0\<lparr>cfg_Port := fPort fl\<rparr> else cfg0)
          in Inr (case fAllowLoopback fl of None \<Rightarrow> cfg1 | Some b \<Rightarrow> cfg1\<lparr>cfg_AllowLoopbackIPs := b\<rparr>))"

datatype route = WispHandler | FileServer string

text \<open>The two patterns of the multiplexer: \<open>/\<close> matches every path, \<open>/wisp\<close> only itself.\<close>

definition main_route :: "Config \<Rightarrow> string \<Rightarrow> route" where
  "main_route cfg path =
     (if cfg_StaticDir cfg \<noteq> [] then
        (if path = ''/wisp'' then WispHandler else FileServer (cfg_StaticDir cfg))
      else WispHandler)"

definition main_addr :: "Config \<Rightarrow> string" where
  "main_addr cfg = CHR '':'' # itoa_int (cfg_Port cfg)"

definition main_server ::
    "('d \<Rightarrow> ((string \<rightharpoonup> SourceEntry) option \<times> (string \<rightharpoonup> DestEntry) option) option) \<Rightarrow> (string \<rightharpoonup> 'd)
     \<Rightarrow> time \<Rightarrow> (string \<Rightarrow> config_error + Config) \<Rightarrow> flags \<Rightarrow> config_error + server" where
  "main_server decode fs now load fl =
     (case main_config load fl of
        Inl e \<Rightarrow> Inl e
      | Inr cfg \<Rightarrow> Inr (create_handler decode fs now 0 (CreateWispConfig cfg)))"


section \<open>Admission\<close>

lemma acquire_connection_slots:
  "acquire_connection sv = (ok, sv') \<Longrightarrow>
   sv_config sv' = sv_config sv \<and> sv_connIDCounter sv' = sv_connIDCounter sv \<and> sv_dns sv' = sv_dns sv
   \<and> (if ok then release_connection sv' = sv else sv' = sv)"
  using slots.release_acquired slots.acquire_refused
  by (auto simp: acquire_connection_def release_connection_def split: option.splits if_splits)

text \<open>
  The shape of an answer: a request is either refused and the server is as before, slot
  included, or accepted, and then it holds one slot.
\<close>

lemma handle_request_cases:
  assumes "handle_request rq up sv = (res, sv')"
  shows "(res \<in> {ServiceUnavailable, UpgradeRequired, UpgradeFailed} \<and> sv' = sv)
    \<or> (\<exists>sv1 netConn useV2. acquire_connection sv = (True, sv1) \<and> up = Some netConn
        \<and> sv' = sv1\<lparr>sv_connIDCounter := sv_connIDCounter sv + 1\<rparr>
        \<and> useV2 = (cfg_EnableV2 (sv_config sv) \<and> rq_protocol rq \<noteq> []) \<and> (requiresV2 (sv_config sv) \<longrightarrow> useV2)
        \<and> res = Accepted (start_connection (newConnection (sv_config sv) (sv_globals sv1) (sv_dns sv1) useV2
             (remote_ip (sv_config sv) rq) (sv_connIDCounter sv + 1) netConn)))"
proof -
  obtain ok sv1 where a: "acquire_connection sv = (ok, sv1)" by fastforce
  from acquire_connection_slots [OF a] show ?thesis
    using assms a by (auto simp: handle_request_def Let_def split: if_splits option.splits)
qed

subsection \<open>The number of connections\<close>

text \<open>
  The life of a server: requests, the ends of connections, and whatever the connections do
  to the shared state apart from the slots. \<open>live\<close> lists the identifiers of the accepted
  connections that have not ended.
\<close>

inductive serving :: "server \<Rightarrow> server \<Rightarrow> u64 list \<Rightarrow> bool" for sv0 where
  serve_start: "serving sv0 sv0 []"
| serve_refuse: "serving sv0 sv live \<Longrightarrow> handle_request rq up sv = (res, sv') \<Longrightarrow>
    res \<in> {ServiceUnavailable, UpgradeRequired, UpgradeFailed} \<Longrightarrow> serving sv0 sv' live"
| serve_accept: "serving sv0 sv live \<Longrightarrow> handle_request rq up sv = (Accepted c, sv') \<Longrightarrow>
    serving sv0 sv' (wc_connID c # live)"
| serve_end: "serving sv0 sv live \<Longrightarrow> wc_connID c \<in> set live \<Longrightarrow>
    serving sv0 (end_connection ps qs c sv) (remove1 (wc_connID c) live)"
| serve_other: "serving sv0 sv live \<Longrightarrow>
    map_option g_Connections g = map_option g_Connections (sv_globals sv) \<Longrightarrow>
    serving sv0 (sv\<lparr>sv_globals := g, sv_dns := dns\<rparr>) live"

definition slots_exact :: "int \<Rightarrow> server \<Rightarrow> u64 list \<Rightarrow> bool" where
  "slots_exact mx sv live =
     (\<exists>g. sv_globals sv = Some g
       \<and> g_Connections g = Some \<lparr>sem_max = mx, sem_current = int (length live)\<rparr>
       \<and> int (length live) \<le> mx)"

lemma deleteAll_globals:
  "wc_globals (deleteAllWispStreams ps qs c) = map_option (\<lambda>g. g\<lparr>
     g_Connections := Release (g_Connections g),
     g_Signature := map_option (Signatures_Forget (wc_connID c)) (g_Signature g)\<rparr>) (wc_globals c)"
proof -
  have 1: "wc_globals (fold (\<lambda>p. stream_close p r) ps d) = wc_globals d"
    "wc_connID (fold (\<lambda>p. stream_close p r) ps d) = wc_connID d" for r d
    by (induction ps arbitrary: d) simp_all
  have 2: "wc_globals (fold (\<lambda>q. twisp_close q r) qs d) = wc_globals d"
    "wc_connID (fold (\<lambda>q. twisp_close q r) qs d) = wc_connID d" for r d
    by (induction qs arbitrary: d) simp_all
  have 3: "wc_globals (forget_connection d) = map_option (\<lambda>g. g\<lparr>
     g_Connections := Release (g_Connections g),
     g_Signature := map_option (Signatures_Forget (wc_connID d)) (g_Signature g)\<rparr>) (wc_globals d)" for d
    by (simp add: forget_connection_def split: option.split)
  show ?thesis
    by (simp add: deleteAllWispStreams_def 1 2 3)
qed

lemma slots_exact_step:
  "handle_request rq up sv = (res, sv') \<Longrightarrow> slots_exact mx sv live \<Longrightarrow> 0 < mx \<Longrightarrow>
   case res of Accepted c \<Rightarrow> slots_exact mx sv' (wc_connID c # live) | _ \<Rightarrow> slots_exact mx sv' live"
proof -
  assume h: "handle_request rq up sv = (res, sv')" and s: "slots_exact mx sv live" and mx: "0 < mx"
  obtain g where g: "sv_globals sv = Some g"
      "g_Connections g = Some \<lparr>sem_max = mx, sem_current = int (length live)\<rparr>"
    using s by (auto simp: slots_exact_def)
  from handle_request_cases [OF h] show ?thesis
  proof (elim disjE conjE exE)
    fix sv1 netConn useV2
    assume a: "acquire_connection sv = (True, sv1)"
      and sv': "sv' = sv1\<lparr>sv_connIDCounter := sv_connIDCounter sv + 1\<rparr>"
      and res: "res = Accepted (start_connection (newConnection (sv_config sv) (sv_globals sv1) (sv_dns sv1) useV2
             (remote_ip (sv_config sv) rq) (sv_connIDCounter sv + 1) netConn))"
    from a g mx have "slots_exact mx sv1 (x # live)" for x
      by (auto simp: acquire_connection_def TryAcquire_def Semaphore_TryAcquire_def slots_exact_def
          split: if_splits)
    with sv' res show ?thesis by (simp add: slots_exact_def)
  qed (use s in auto)
qed

lemma slots_exact_end:
  assumes s: "slots_exact mx sv live" and i: "wc_connID c \<in> set live" and mx: "0 < mx"
  shows "slots_exact mx (end_connection ps qs c sv) (remove1 (wc_connID c) live)"
proof -
  obtain g where g: "sv_globals sv = Some g" "g_Connections g = Some \<lparr>sem_max = mx, sem_current = int (length live)\<rparr>"
      "int (length live) \<le> mx"
    using s by (auto simp: slots_exact_def)
  obtain n where n: "length live = Suc n"
    using length_pos_if_in_set [OF i] gr0_implies_Suc by blast
  then have len: "int (length (remove1 (wc_connID c) live)) = int (length live) - 1"
    unfolding length_remove1 n using i by simp
  have "\<exists>g'. sv_globals (end_connection ps qs c sv) = Some g'
      \<and> g_Connections g' = Some \<lparr>sem_max = mx, sem_current = int (length live) - 1\<rparr>"
    using g mx by (simp add: end_connection_def deleteAll_globals Release_def Semaphore_Release_def)
  then show ?thesis
    unfolding slots_exact_def len using g(3) by auto
qed

lemma serving_exact:
  assumes "serving sv0 sv live" and "slots_exact mx sv0 []" and "0 < mx"
  shows "slots_exact mx sv live"
  using assms(1)
proof induction
  case serve_start
  show ?case by (rule assms(2))
next
  case (serve_refuse sv live rq up res sv')
  from slots_exact_step [OF serve_refuse(2,4) assms(3)] serve_refuse(3) show ?case by auto
next
  case (serve_accept sv live rq up c sv')
  from slots_exact_step [OF serve_accept(2,3) assms(3)] show ?case by simp
next
  case (serve_end sv live c ps qs)
  then show ?case by (intro slots_exact_end assms)
next
  case (serve_other sv live g dns)
  then show ?case by (auto simp: slots_exact_def)
qed

text \<open>
  C13: The limit on concurrent connections holds over the whole life of the server, and no slot
  leaks: whatever requests arrive, are refused, fail to upgrade, are accepted and end, the
  semaphore counts exactly the connections that are alive, at most the configured maximum.
\<close>

theorem connections_bounded:
  assumes "cfg_FloodProtection cfg = Some fp" and "fp_Enabled fp" and "0 < fp_MaxConcurrentConnections fp"
    and "serving (create_handler decode fs now n cfg) sv live"
  shows "int (length live) \<le> fp_MaxConcurrentConnections fp
    \<and> (\<exists>g. sv_globals sv = Some g \<and> g_Connections g =
        Some \<lparr>sem_max = fp_MaxConcurrentConnections fp, sem_current = int (length live)\<rparr>)"
proof -
  have "slots_exact (fp_MaxConcurrentConnections fp) (create_handler decode fs now n cfg) []"
    using assms(1-3)
    by (simp add: slots_exact_def create_handler_def InitResolver_def BuildGlobals_def Let_def flood_globals_def
        NewSemaphore_def split: option.split)
  from serving_exact [OF assms(4) this assms(3)] show ?thesis
    by (auto simp: slots_exact_def)
qed

definition one_connection :: Config where
  "one_connection = DefaultConfig\<lparr>cfg_FloodProtection :=
     Some (example_flood\<lparr>fp_MaxConcurrentConnections := 1\<rparr>)\<rparr>"

definition example_request :: http_request where
  "example_request = \<lparr>rq_protocol = [], rq_remoteAddr = ''192.0.2.7:5000'', rq_header = (\<lambda>_. [])\<rparr>"

definition example_server :: server where
  "example_server = create_handler (\<lambda>_ :: unit. None) Map.empty 0 0 one_connection"

lemma example_accept:
  "\<exists>c. handle_request example_request (Some (nc_fresh [])) example_server
     = (Accepted c, snd (handle_request example_request (Some (nc_fresh [])) example_server)) \<and> wc_connID c = 1"
  by (simp add: handle_request_def acquire_connection_def example_server_def create_handler_def
      InitResolver_def BuildGlobals_def Let_def flood_globals_def one_connection_def example_flood_def
      DefaultConfig_def NewSemaphore_def TryAcquire_def Semaphore_TryAcquire_def requiresV2_def
      example_request_def start_connection_def newConnection_def on_wire_def)

theorem connections_bounded_witness:
  "\<exists>g. sv_globals (snd (handle_request example_request (Some (nc_fresh [])) example_server)) = Some g
     \<and> g_Connections g = Some \<lparr>sem_max = 1, sem_current = 1\<rparr>"
proof -
  obtain c where c: "handle_request example_request (Some (nc_fresh [])) example_server
      = (Accepted c, snd (handle_request example_request (Some (nc_fresh [])) example_server))"
    using example_accept by blast
  have "serving example_server (snd (handle_request example_request (Some (nc_fresh [])) example_server))
      [wc_connID c]"
    by (rule serve_accept [OF serve_start c])
  from connections_bounded [OF _ _ _ this [unfolded example_server_def]] show ?thesis
    by (simp add: one_connection_def example_flood_def example_server_def)
qed

section \<open>Accepted connections\<close>

lemma accepted_reachable:
  assumes "handle_request rq up sv = (Accepted c, sv')" and "(conn_step bcrypt)\<^sup>*\<^sup>* c d"
  shows "\<exists>g useV2 ip n nc. reachable bcrypt (newConnection (sv_config sv) g (sv_dns sv) useV2 ip n nc) d
    \<and> (requiresV2 (sv_config sv) \<longrightarrow> useV2)"
proof -
  from handle_request_cases [OF assms(1)] show ?thesis
  proof (elim disjE conjE exE)
    fix sv1 netConn useV2
    assume a: "acquire_connection sv = (True, sv1)" and v2: "requiresV2 (sv_config sv) \<longrightarrow> useV2"
      and c: "Accepted c = Accepted (start_connection (newConnection (sv_config sv) (sv_globals sv1) (sv_dns sv1)
             useV2 (remote_ip (sv_config sv) rq) (sv_connIDCounter sv + 1) netConn))"
    have dns: "sv_dns sv1 = sv_dns sv" using acquire_connection_slots [OF a] by simp
    let ?c0 = "newConnection (sv_config sv) (sv_globals sv1) (sv_dns sv) useV2
             (remote_ip (sv_config sv) rq) (sv_connIDCounter sv + 1) netConn"
    have c0: "c = start_connection ?c0" using c dns by simp
    have "reachable bcrypt ?c0 d"
      using reach.runs [OF _ reach_start] assms(2) unfolding c0 .
    with v2 show ?thesis by blast
  qed simp
qed

text \<open>
  C4: A required password is required of everybody: on a server that demands one, no
  connection it accepts, whatever version its client asks for, ever has a stream, a
  terminal or a connection attempt without having authenticated.
\<close>

theorem server_requires_password:
  assumes "cfg_PasswordAuthRequired (sv_config sv)"
    and "handle_request rq up sv = (Accepted c, sv')" and "(conn_step bcrypt)\<^sup>*\<^sup>* c d"
    and "wc_heap d \<noteq> [] \<or> wc_theap d \<noteq> [] \<or> wc_dials d \<noteq> []"
  shows "wc_authenticated d"
proof -
  obtain g useV2 ip n nc
    where r: "reachable bcrypt (newConnection (sv_config sv) g (sv_dns sv) useV2 ip n nc) d" and "useV2"
    using accepted_reachable [OF assms(2,3)] assms(1) by (auto simp: requiresV2_def)
  then have "\<not> handshake_pending d" "wc_isV2 d" "wc_config d = sv_config sv"
    using safeD(1) [OF reachable_safe [OF r]] assms(4) reachable_setup [OF r] by auto
  with safeD(2) [OF reachable_safe [OF r]] assms(1) show ?thesis by simp
qed



definition login_server :: server where
  "login_server = \<lparr>sv_config = login_cfg, sv_globals = None, sv_dns = NewDNSCache [] 0 [] [],
     sv_connIDCounter = 0\<rparr>"

definition login_request :: http_request where
  "login_request = \<lparr>rq_protocol = ''wisp-v2'', rq_remoteAddr = ''192.0.2.7:5000'', rq_header = (\<lambda>_. [])\<rparr>"

lemma login_accepted:
  "\<exists>sv'. handle_request login_request (Some (nc_fresh [])) login_server
     = (Accepted (start_connection login_conn), sv')"
proof -
  have "ResolveClientIP ''192.0.2.7:5000'' (\<lambda>_. []) [] hs = ParseIP ''192.0.2.7''" for hs
    by (simp add: ResolveClientIP_def ipInAny_def peer_ip_def go_eval)
  then have "remote_ip login_cfg login_request = ''192.0.2.7''"
    by (simp add: remote_ip_def login_cfg_def DefaultConfig_def login_request_def) (simp add: go_eval)
  then show ?thesis
    by (simp add: handle_request_def acquire_connection_def login_server_def Let_def login_conn_def)
      (simp add: login_cfg_def DefaultConfig_def login_request_def)
qed

theorem server_requires_password_witness: "wc_authenticated stream_after_login"
proof -
  obtain sv' where h: "handle_request login_request (Some (nc_fresh [])) login_server
     = (Accepted (start_connection login_conn), sv')" using login_accepted by blast
  have steps: "(conn_step (\<lambda>_ _. False))\<^sup>*\<^sup>* (start_connection login_conn) stream_after_login"
    by (rule converse_rtranclp_into_rtranclp [OF stream_after_login_step(1)
          r_into_rtranclp [of "conn_step (\<lambda>_ _. False)", OF stream_after_login_step(2)]])
  show ?thesis
    by (rule server_requires_password [OF _ h steps])
      (simp_all add: login_server_def login_cfg_def stream_after_login_heap)
qed

section \<open>Trusted proxies\<close>

lemma Index_char: "c \<notin> set s \<Longrightarrow> strings_Index (s @ c # t) [c] = Some (length s)"
  by (induction s) (auto simp: strings_HasPrefix_def)

lemma string4_no_slash: "CHR ''/'' \<notin> set (string4 p)"
  by (auto simp: string4_def is_digit_def code_def dest!: itoa_no_special)

lemma trusted_v4:
  assumes p: "length p = 4"
  shows "trusted_nets [string4 p] = [\<lparr>net_IP = p, net_Mask = [255, 255, 255, 255]\<rparr>]"
proof -
  have nc: "\<not> strings_Contains (string4 p) ''/''"
  proof
    assume "strings_Contains (string4 p) ''/''"
    then obtain i where i: "strings_Index (string4 p) ''/'' = Some i" by (auto simp: strings_Contains_def)
    have "CHR ''/'' \<in> set (drop i (string4 p))"
      using Index_Some [OF i] by (cases "drop i (string4 p)") auto
    then show False using string4_no_slash [of p] by (meson in_set_dropD)
  qed
  have "trusted_entry (string4 p) = string4 p @ ''/32''"
    using nc p by (simp add: trusted_entry_def ParseIP_string4) (auto simp: go_eval)
  moreover have "ParseCIDR (string4 p @ ''/32'') = Some \<lparr>net_IP = p, net_Mask = [255, 255, 255, 255]\<rparr>"
  proof -
    have m: "CIDRMask 32 32 = [255, 255, 255, 255]" "digits_val ''32'' = 32" "is_digit (CHR ''3'')" "is_digit (CHR ''2'')"
      by (simp_all add: go_eval digits_val_def is_digit_def code_def)
    have mask: "IP_Mask (v4InV6Prefix @ p) [255, 255, 255, 255] = p"
    proof -
      obtain a b c d where pe: "p = [a, b, c, d]" using list_of_length4 [OF p] by blast
      have "(255 :: byte) = - 1" by simp
      then show ?thesis unfolding pe by (simp only:) (simp add: IP_Mask_def v4InV6Prefix_def)
    qed
    show ?thesis
      using Index_char [OF string4_no_slash [of p], of "''32''"]
      by (simp add: ParseCIDR_def Let_def netip_string4 [OF p] m mask)
  qed
  ultimately show ?thesis by (simp add: trusted_nets_def)
qed

text \<open>
  An entry of \<open>trustedProxies\<close> that is an IPv4 address trusts this one host, in both forms
  of its address, and nobody else.
\<close>

theorem trusted_proxy_single_host:
  assumes "length p = 4"
  shows "ipInAny q (trusted_nets [string4 p]) \<longleftrightarrow> IP_To4 q = p"
proof -
  obtain a b c d where pe: "p = [a, b, c, d]" using list_of_length4 [OF assms] by blast
  have ff: "(255 :: byte) = - 1" by simp
  have nn: "networkNumberAndMask \<lparr>net_IP = p, net_Mask = [255, 255, 255, 255]\<rparr> = (p, [255, 255, 255, 255])"
    using assms by (cases p) (simp_all add: networkNumberAndMask_def Let_def)
  have "IPNet_Contains \<lparr>net_IP = p, net_Mask = [255, 255, 255, 255]\<rparr> q \<longleftrightarrow> IP_To4 q = p"
  proof (cases "IP_To4 q = []")
    case True
    have "length q \<noteq> 4" using True IP_To4_4 by fastforce
    then show ?thesis unfolding IPNet_Contains_def nn using True assms by auto
  next
    case False
    then have "length (IP_To4 q) = 4" by (rule IP_To4_length)
    then obtain e f g h where q: "IP_To4 q = [e, f, g, h]" using list_of_length4 by blast
    show ?thesis
      using False unfolding IPNet_Contains_def nn unfolding q pe ff by (auto simp: upt_rec)
  qed
  then show ?thesis
    using trusted_v4 [OF assms] by (simp add: ipInAny_def)
qed

theorem trusted_proxy_single_host_witness:
  "ipInAny [10, 0, 0, 1] (trusted_nets [string4 [10, 0, 0, 1]]) \<longleftrightarrow> IP_To4 [10, 0, 0, 1] = [10, 0, 0, 1]"
  by (rule trusted_proxy_single_host) simp

text \<open>
  An entry in the mapped form goes wrong: its prefix length is chosen for four bytes but
  read against sixteen, so the host itself is not trusted, and others are.
\<close>

theorem trusted_proxy_mapped:
  "\<not> ipInAny [10, 0, 0, 1] (trusted_nets [''::ffff:10.0.0.1''])
   \<and> ipInAny (ParseIP ''::1'') (trusted_nets [''::ffff:10.0.0.1''])"
  by (simp add: trusted_nets_def trusted_entry_def strings_Contains_def ipInAny_def List.map_filter_simps go_eval)

section \<open>An open server\<close>

text \<open>
  Without flood protection and reputation the shared limits of a server are empty, and
  every connection it accepts starts without limits.
\<close>

lemma BuildGlobals_no_limits:
  assumes "cfg_FloodProtection cfg = None" and "cfg_Reputation cfg = None" and "old = None"
  shows "\<exists>g. BuildGlobals decode fs now cfg old = Some g \<and> no_limits g"
  using assms by (simp add: BuildGlobals_def Let_def noGlobals_def no_limits_def)

lemma accepted_unlimited:
  assumes "handle_request rq up sv = (Accepted c, sv')"
    and "\<forall>g. sv_globals sv = Some g \<longrightarrow> no_limits g"
  shows "unlimited c"
proof -
  from handle_request_cases [OF assms(1)] obtain sv1 useV2 nc where
    a: "acquire_connection sv = (True, sv1)"
    and c: "c = start_connection (newConnection (sv_config sv) (sv_globals sv1) (sv_dns sv1)
             useV2 (remote_ip (sv_config sv) rq) (sv_connIDCounter sv + 1) nc)"
    by auto
  have "\<forall>g. sv_globals sv1 = Some g \<longrightarrow> no_limits g"
    using a assms(2) by (auto simp: acquire_connection_def no_limits_def split: option.splits prod.splits)
  then show ?thesis
    by (simp add: c unlimited_def start_connection_def newConnection_def)
qed

text \<open>A server that lets clients name addresses, otherwise with the defaults, and its first client.\<close>

definition direct_cfg :: Config where
  "direct_cfg = DefaultConfig\<lparr>cfg_AllowDirectIP := True\<rparr>"

definition direct_server :: server where
  "direct_server = create_handler (\<lambda>_ :: unit. None) Map.empty 0 0 (CreateWispConfig direct_cfg)"

definition direct_conn :: wispConnection where
  "direct_conn = start_connection (newConnection (sv_config direct_server) (sv_globals direct_server)
     (sv_dns direct_server) False ''192.0.2.7'' 1 (nc_fresh []))"

lemma direct_config:
  "sv_config direct_server = direct_cfg\<lparr>cfg_hasDNSCache := True\<rparr>"
  "sv_globals direct_server = Some (noGlobals (PolicyFromConfig (sv_config direct_server)))"
  "sv_connIDCounter direct_server = 0"
  by (simp_all add: direct_server_def create_handler_def InitResolver_def CreateWispConfig_eq direct_cfg_def
      DefaultConfig_def trusted_nets_def List.map_filter_simps BuildGlobals_def Let_def)

lemma direct_accepted:
  "\<exists>sv'. handle_request example_request (Some (nc_fresh [])) direct_server = (Accepted direct_conn, sv')"
proof -
  have "ResolveClientIP ''192.0.2.7:5000'' (\<lambda>_. []) [] hs = ParseIP ''192.0.2.7''" for hs
    by (simp add: ResolveClientIP_def ipInAny_def peer_ip_def go_eval)
  then have "remote_ip (sv_config direct_server) example_request = ''192.0.2.7''"
    by (simp add: remote_ip_def direct_config direct_cfg_def DefaultConfig_def example_request_def)
      (simp add: go_eval)
  then show ?thesis
    by (simp add: handle_request_def acquire_connection_def direct_config Let_def direct_conn_def
        noGlobals_def TryAcquire_def requiresV2_def)
      (simp add: direct_cfg_def DefaultConfig_def example_request_def)
qed


lemma direct_conn_fields:
  "wc_handshakeDone direct_conn = None" "wc_isV2 direct_conn = False"
  "wc_config direct_conn = direct_cfg\<lparr>cfg_hasDNSCache := True\<rparr>"
  "wc_globals direct_conn = Some (noGlobals (PolicyFromConfig (sv_config direct_server)))"
  "wc_streams direct_conn = Map.empty" "wc_heap direct_conn = []" "wc_streamConfirm direct_conn = False"
  by (simp_all add: direct_conn_def start_connection_def newConnection_def direct_config)

lemma direct_conn_ready:
  "\<not> handshake_pending direct_conn" "\<not> stream_limit_reached direct_conn" "unlimited direct_conn"
  "wc_streams direct_conn i = None"
  by (simp_all add: direct_conn_fields handshake_pending_def stream_limit_reached_def unlimited_def
      no_limits_def noGlobals_def direct_cfg_def DefaultConfig_def)

lemma direct_reaches: "reaches (wc_config direct_conn) example_env dns 80 ''8.8.8.8'' ''8.8.8.8''"
proof -
  let ?cfg = "wc_config direct_conn"
  note c = direct_conn_fields(3)
  have n: "NormalizeTargetHostname ''8.8.8.8'' = ''8.8.8.8''" "ParseIP ''8.8.8.8'' \<noteq> []"
    "IP_String (ParseIP ''8.8.8.8'') = ''8.8.8.8''"
    by (simp_all add: NormalizeTargetHostname_def go_eval)
  have p: "ParseIP ''8.8.8.8'' = v4InV6Prefix @ [8, 8, 8, 8]"
    by (simp add: go_eval)
  have ok: "fst (Evaluate (Some (PolicyFromConfig ?cfg)) (ParseIP ''8.8.8.8''))"
    unfolding Evaluate_policy p egress_ok_def internal_ip_def by (simp add: go_eval)
  then have "resolve_target ?cfg example_env ''8.8.8.8'' dns = (Target ''8.8.8.8'', dns)"
    using n by (simp add: resolve_target_def) (simp add: c direct_cfg_def)
  then show ?thesis
    by (simp add: reaches_def n) (simp add: c direct_cfg_def DefaultConfig_def emptyFilter_def
        hostname_blocked_def port_blocked_def)
qed

text \<open>The client asks for port 80 of 8.8.8.8, and the goroutine dials it.\<close>

lemma direct_dials:
  defines "d \<equiv> stream_dialling example_env 0 0 5 80 ''8.8.8.8'' direct_conn"
  shows "(conn_step (\<lambda>_ _. False))\<^sup>*\<^sup>* direct_conn d"
    "DirectDial ''tcp'' (JoinHostPort ''8.8.8.8'' ''80'') \<in> set (wc_dials d)"
proof -
  show "(conn_step (\<lambda>_ _. False))\<^sup>*\<^sup>* direct_conn d"
    unfolding d_def by (rule stream_dialling_steps [OF direct_conn_ready])
  have "itoa (unat (80 :: u16)) = ''80''" by (simp add: go_eval)
  then show "DirectDial ''tcp'' (JoinHostPort ''8.8.8.8'' ''80'') \<in> set (wc_dials d)"
    using stream_dialling_shape(8) [OF direct_conn_ready direct_reaches, where now = 0 and b = 0]
    by (simp add: d_def)
qed

end
