(* ===== verification/Main_Program.thy ===== *)
theory Main_Program
  imports Server
begin

text \<open>
  The two goroutines of \<open>main\<close> (\<open>main.go\<close>): the one that serves and the one that waits for a
  signal and shuts the HTTP server down, as steps of a small transition system with the
  messages printed. The parts of \<open>net/http\<close> and \<open>os/signal\<close> they use are the labels of the
  steps: \<open>ListenAndServe\<close> returns an error, \<open>ErrServerClosed\<close> only if \<open>Shutdown\<close> has been called;
  \<open>Shutdown\<close> returns later, with an error if its ten seconds have passed. The goroutines of
  the connections show in one way only: a panic in one of them ends the process, and the
  run-time system prints it (\<open>Data_Race\<close> and \<open>Relay\<close> have two ways for this to happen). So does
  a signal the program does not catch, without a word.
\<close>

section \<open>Messages\<close>

datatype main_msg =
    LoadFailed string
  | Starting int
  | ShuttingDown string
  | ShutdownError string
  | StartFailed string
  | Panicked string

definition newline :: string where "newline = [CHR 0x0A]"

fun main_text :: "main_msg \<Rightarrow> string" where
  "main_text (LoadFailed e) = ''Failed to load config: '' @ e @ newline"
| "main_text (Starting port) = ''[INFO] Starting Mrrowisp on port '' @ itoa_int port @ ''. . .'' @ newline"
| "main_text (ShuttingDown sig) = ''[INFO] Shutting down (signal: '' @ sig @ '')'' @ newline"
| "main_text (ShutdownError e) = ''[INFO] Shutdown error: '' @ e @ newline"
| "main_text (StartFailed e) = ''[INFO] Failed to start Mrrowisp: '' @ e"
| "main_text (Panicked e) = ''panic: '' @ e @ newline"

section \<open>State\<close>

text \<open>The settings of the \<open>http.Server\<close> and the deadline of the shut-down.\<close>

record http_server =
  hs_Addr :: string
  hs_ReadHeaderTimeout :: int
  hs_IdleTimeout :: int

definition main_http_server :: "Config \<Rightarrow> http_server" where
  "main_http_server cfg =
     \<lparr>hs_Addr = main_addr cfg, hs_ReadHeaderTimeout = 5 * second, hs_IdleTimeout = 120 * second\<rparr>"

definition shutdown_timeout :: int where "shutdown_timeout = 10 * second"

datatype serve_error = ErrServerClosed | ServeError string

text \<open>
  \<open>main\<close> serves, or has the result of \<open>ListenAndServe\<close>, or has returned (after a failed load
  without having served); \<open>Crashed\<close> and \<open>Killed\<close> are the other ends of the process. The signal
  goroutine waits, has taken a signal, has announced it, is inside \<open>Shutdown\<close>, or is through.
\<close>

datatype main_pc = Serving | Served serve_error | Exited "serve_error option" | Crashed string | Killed string

datatype signal_pc = AwaitSignal | Taken string | Announced | InShutdown | ShutdownDone

text \<open>\<open>m_sigch\<close> is the channel of capacity one: a signal that finds it full is dropped.\<close>

record main_state =
  m_out :: "main_msg list"
  m_main :: main_pc
  m_signal :: signal_pc
  m_sigch :: "string option"

definition main_begin :: "(config_error \<Rightarrow> string) \<Rightarrow> config_error + Config \<Rightarrow> main_state" where
  "main_begin show_error loaded =
     (case loaded of
        Inl e \<Rightarrow> \<lparr>m_out = [LoadFailed (show_error e)], m_main = Exited None, m_signal = AwaitSignal,
                 m_sigch = None\<rparr>
      | Inr cfg \<Rightarrow> \<lparr>m_out = [Starting (cfg_Port cfg)], m_main = Serving, m_signal = AwaitSignal,
                 m_sigch = None\<rparr>)"

section \<open>Steps\<close>

text \<open>When the process has ended, all goroutines are gone with it.\<close>

definition running :: "main_state \<Rightarrow> bool" where
  "running s = (case m_main s of Serving \<Rightarrow> True | Served _ \<Rightarrow> True | _ \<Rightarrow> False)"

definition print_msg :: "main_msg \<Rightarrow> main_state \<Rightarrow> main_state" where
  "print_msg msg s = s\<lparr>m_out := m_out s @ [msg]\<rparr>"

definition notify :: "string \<Rightarrow> main_state \<Rightarrow> main_state" where
  "notify sig s = (if m_sigch s = None then s\<lparr>m_sigch := Some sig\<rparr> else s)"

definition signal_taken :: "string \<Rightarrow> main_state \<Rightarrow> main_state" where
  "signal_taken sig s = s\<lparr>m_sigch := None, m_signal := Taken sig\<rparr>"

definition signal_announced :: "string \<Rightarrow> main_state \<Rightarrow> main_state" where
  "signal_announced sig s = print_msg (ShuttingDown sig) (s\<lparr>m_signal := Announced\<rparr>)"

definition shutdown_begins :: "main_state \<Rightarrow> main_state" where
  "shutdown_begins s = s\<lparr>m_signal := InShutdown\<rparr>"

definition shutdown_returns :: "string option \<Rightarrow> main_state \<Rightarrow> main_state" where
  "shutdown_returns err s =
     (case err of
        None \<Rightarrow> s\<lparr>m_signal := ShutdownDone\<rparr>
      | Some e \<Rightarrow> print_msg (ShutdownError e) (s\<lparr>m_signal := ShutdownDone\<rparr>))"

definition main_returns :: "serve_error \<Rightarrow> main_state \<Rightarrow> main_state" where
  "main_returns err s =
     (case err of
        ErrServerClosed \<Rightarrow> s\<lparr>m_main := Exited (Some err)\<rparr>
      | ServeError e \<Rightarrow> print_msg (StartFailed e) (s\<lparr>m_main := Exited (Some err)\<rparr>))"

definition goroutine_panics :: "string \<Rightarrow> main_state \<Rightarrow> main_state" where
  "goroutine_panics e s = print_msg (Panicked e) (s\<lparr>m_main := Crashed e\<rparr>)"

definition shutdown_called :: "main_state \<Rightarrow> bool" where
  "shutdown_called s = (m_signal s = InShutdown \<or> m_signal s = ShutdownDone)"

inductive main_step :: "main_state \<Rightarrow> main_state \<Rightarrow> bool" where
  ms_notify: "running s \<Longrightarrow> main_step s (notify sig s)"
| ms_signal: "running s \<Longrightarrow> m_signal s = AwaitSignal \<Longrightarrow> m_sigch s = Some sig
    \<Longrightarrow> main_step s (signal_taken sig s)"
| ms_announce: "running s \<Longrightarrow> m_signal s = Taken sig \<Longrightarrow> main_step s (signal_announced sig s)"
| ms_call: "running s \<Longrightarrow> m_signal s = Announced \<Longrightarrow> main_step s (shutdown_begins s)"
| ms_shutdown: "running s \<Longrightarrow> m_signal s = InShutdown \<Longrightarrow> main_step s (shutdown_returns err s)"
| ms_closed: "m_main s = Serving \<Longrightarrow> shutdown_called s \<Longrightarrow> main_step s (s\<lparr>m_main := Served ErrServerClosed\<rparr>)"
| ms_failed: "m_main s = Serving \<Longrightarrow> main_step s (s\<lparr>m_main := Served (ServeError e)\<rparr>)"
| ms_return: "m_main s = Served err \<Longrightarrow> main_step s (main_returns err s)"
| ms_panic: "running s \<Longrightarrow> main_step s (goroutine_panics e s)"
| ms_killed: "running s \<Longrightarrow> main_step s (s\<lparr>m_main := Killed sig\<rparr>)"

abbreviation main_run :: "main_state \<Rightarrow> main_state \<Rightarrow> bool" where
  "main_run \<equiv> main_step\<^sup>*\<^sup>*"

lemmas main_ops = notify_def signal_taken_def signal_announced_def shutdown_begins_def shutdown_returns_def
  main_returns_def goroutine_panics_def print_msg_def

section \<open>How the process ends\<close>

text \<open>
  What has been printed: the messages of the signal goroutine, according to the place it has
  reached, and the last words of the process.
\<close>

definition signal_msgs :: "main_state \<Rightarrow> main_msg list \<Rightarrow> bool" where
  "signal_msgs s ms =
     (case m_signal s of
        AwaitSignal \<Rightarrow> ms = []
      | Taken sig \<Rightarrow> ms = []
      | Announced \<Rightarrow> \<exists>sig. ms = [ShuttingDown sig]
      | InShutdown \<Rightarrow> \<exists>sig. ms = [ShuttingDown sig]
      | ShutdownDone \<Rightarrow> \<exists>sig. ms = [ShuttingDown sig] \<or> (\<exists>e. ms = [ShuttingDown sig, ShutdownError e]))"

definition last_words :: "main_state \<Rightarrow> main_msg list" where
  "last_words s =
     (case m_main s of
        Exited (Some (ServeError e)) \<Rightarrow> [StartFailed e]
      | Crashed e \<Rightarrow> [Panicked e]
      | _ \<Rightarrow> [])"

definition main_inv :: "Config \<Rightarrow> main_state \<Rightarrow> bool" where
  "main_inv cfg s \<longleftrightarrow>
     (\<exists>ms. signal_msgs s ms \<and> m_out s = Starting (cfg_Port cfg) # ms @ last_words s)
     \<and> (m_main s \<in> {Served ErrServerClosed, Exited (Some ErrServerClosed)} \<longrightarrow> shutdown_called s)
     \<and> m_main s \<noteq> Exited None"

lemmas main_inv_defs = main_inv_def signal_msgs_def last_words_def shutdown_called_def running_def

lemma main_inv_running:
  "running s \<Longrightarrow> main_inv cfg s \<longleftrightarrow>
     (\<exists>ms. signal_msgs s ms \<and> m_out s = Starting (cfg_Port cfg) # ms)
     \<and> (m_main s = Served ErrServerClosed \<longrightarrow> shutdown_called s)"
  by (auto simp: main_inv_def running_def last_words_def split: main_pc.splits)

lemma main_inv_step:
  assumes "main_step s t" and inv: "main_inv cfg s"
  shows "main_inv cfg t"
  using assms(1)
proof cases
  case (ms_notify sig)
  with inv show ?thesis
    by (simp add: notify_def main_inv_def signal_msgs_def last_words_def shutdown_called_def)
next
  case (ms_signal sig)
  with inv show ?thesis
    by (simp add: signal_taken_def main_inv_def signal_msgs_def last_words_def shutdown_called_def)
next
  case (ms_announce sig)
  then have "running t" "m_main t = m_main s" by (simp_all add: main_ops running_def)
  with ms_announce inv show ?thesis
    by (auto simp: main_inv_running main_ops signal_msgs_def shutdown_called_def)
next
  case ms_call
  then have "running t" "m_main t = m_main s" by (simp_all add: main_ops running_def)
  with ms_call inv show ?thesis
    by (auto simp: main_inv_running main_ops signal_msgs_def shutdown_called_def)
next
  case (ms_shutdown err)
  then have "running t" "m_main t = m_main s"
    by (simp_all add: main_ops running_def split: option.splits)
  with ms_shutdown inv show ?thesis
    by (auto simp: main_inv_running main_ops signal_msgs_def shutdown_called_def split: option.splits)
next
  case ms_closed
  with inv show ?thesis
    by (auto simp: main_inv_def last_words_def signal_msgs_def shutdown_called_def)
next
  case (ms_failed e)
  with inv show ?thesis
    by (auto simp: main_inv_def last_words_def signal_msgs_def)
next
  case (ms_return err)
  with inv show ?thesis
    by (cases err) (auto simp: main_inv_def last_words_def signal_msgs_def shutdown_called_def main_ops)
next
  case (ms_panic e)
  with inv show ?thesis
    by (auto simp: main_inv_running) (auto simp: main_inv_def last_words_def signal_msgs_def main_ops)
next
  case (ms_killed sig)
  with inv show ?thesis
    by (auto simp: main_inv_running) (auto simp: main_inv_def last_words_def signal_msgs_def)
qed

interpretation program: step_invariant main_step "main_inv cfg" for cfg
  by unfold_locales (rule main_inv_step)

lemma main_inv_run: "main_run (main_begin sh (Inr cfg)) s \<Longrightarrow> main_inv cfg s"
  by (erule program.runs) (simp add: main_begin_def main_inv_defs)

text \<open>
  C20: A process that has loaded its configuration ends in one of four ways and, but for the
  last, says which: \<open>main\<close> returns after a signal was taken and \<open>Shutdown\<close> called; it returns
  because the listener failed; a goroutine panics; or a signal the program does not catch
  kills it. The text printed is the start message, then what the signal goroutine says as
  far as it has come, then the failure or the panic.
\<close>

theorem main_ends_with_reason:
  assumes "main_run (main_begin sh (Inr cfg)) s" and "\<not> running s"
  shows "\<exists>ms. signal_msgs s ms \<and>
    (m_main s = Exited (Some ErrServerClosed) \<and> m_out s = Starting (cfg_Port cfg) # ms
        \<and> (\<exists>sig. ShuttingDown sig \<in> set ms)
     \<or> (\<exists>e. m_main s = Exited (Some (ServeError e)) \<and> m_out s = Starting (cfg_Port cfg) # ms @ [StartFailed e])
     \<or> (\<exists>e. m_main s = Crashed e \<and> m_out s = Starting (cfg_Port cfg) # ms @ [Panicked e])
     \<or> (\<exists>sig. m_main s = Killed sig \<and> m_out s = Starting (cfg_Port cfg) # ms))"
proof -
  obtain ms where ms: "signal_msgs s ms" "m_out s = Starting (cfg_Port cfg) # ms @ last_words s"
    and called: "m_main s = Exited (Some ErrServerClosed) \<longrightarrow> shutdown_called s" and "m_main s \<noteq> Exited None"
    using main_inv_run [OF assms(1)] by (auto simp: main_inv_def)
  moreover have "\<exists>sig. ShuttingDown sig \<in> set ms" if "shutdown_called s"
    using that ms(1) by (auto simp: shutdown_called_def signal_msgs_def)
  ultimately show ?thesis
    using assms(2)
    by (intro exI [of _ ms], cases "m_main s")
      (auto simp: running_def last_words_def split: option.splits serve_error.splits)
qed

text \<open>A run: a signal arrives, is taken and announced, the listener returns, and so does \<open>main\<close>.\<close>

definition interrupted :: "(config_error \<Rightarrow> string) \<Rightarrow> Config \<Rightarrow> string \<Rightarrow> main_state" where
  "interrupted sh cfg sig = shutdown_begins (signal_announced sig (signal_taken sig
     (notify sig (main_begin sh (Inr cfg)))))"

definition ended :: "main_state \<Rightarrow> main_state" where
  "ended s = main_returns ErrServerClosed (s\<lparr>m_main := Served ErrServerClosed\<rparr>)"

lemma interrupted_run:
  "main_run (main_begin sh (Inr cfg)) (interrupted sh cfg sig)"
  "interrupted sh cfg sig = \<lparr>m_out = [Starting (cfg_Port cfg), ShuttingDown sig], m_main = Serving,
     m_signal = InShutdown, m_sigch = None\<rparr>"
proof -
  let ?s0 = "main_begin sh (Inr cfg)"
  let ?s1 = "notify sig ?s0"
  let ?s2 = "signal_taken sig ?s1"
  let ?s3 = "signal_announced sig ?s2"
  have "main_step ?s0 ?s1"
    by (rule ms_notify) (simp add: main_begin_def running_def)
  moreover have "main_step ?s1 ?s2"
    by (rule ms_signal) (simp_all add: main_begin_def main_ops running_def)
  moreover have "main_step ?s2 ?s3"
    by (rule ms_announce) (simp_all add: main_begin_def main_ops running_def)
  moreover have "main_step ?s3 (interrupted sh cfg sig)"
    unfolding interrupted_def by (rule ms_call) (simp_all add: main_begin_def main_ops running_def)
  ultimately show "main_run ?s0 (interrupted sh cfg sig)"
    by (meson converse_rtranclp_into_rtranclp rtranclp.rtrancl_refl)
qed (simp add: interrupted_def main_begin_def main_ops)

lemma ended_run:
  assumes "m_main s = Serving" and "shutdown_called s"
  shows "main_run s (ended s)"
proof -
  have "main_step s (s\<lparr>m_main := Served ErrServerClosed\<rparr>)"
    using assms by (rule ms_closed)
  moreover have "main_step (s\<lparr>m_main := Served ErrServerClosed\<rparr>) (ended s)"
    unfolding ended_def by (rule ms_return) simp
  ultimately show ?thesis
    by (meson converse_rtranclp_into_rtranclp rtranclp.rtrancl_refl)
qed

lemma ended_fields [simp]:
  "m_main (ended s) = Exited (Some ErrServerClosed)" "m_signal (ended s) = m_signal s" "m_out (ended s) = m_out s"
  by (simp_all add: ended_def main_returns_def)

lemma interrupted_ends: "main_run (main_begin sh (Inr cfg)) (ended (interrupted sh cfg sig))"
  using interrupted_run(1) by (rule rtranclp_trans)
    (rule ended_run, simp_all add: interrupted_run(2) shutdown_called_def)

theorem main_ends_with_reason_witness:
  "\<exists>ms sig. m_out (ended (interrupted (\<lambda>_. []) DefaultConfig ''interrupt''))
      = Starting (cfg_Port DefaultConfig) # ms \<and> ShuttingDown sig \<in> set ms"
  using main_ends_with_reason [OF interrupted_ends, of "\<lambda>_. []" DefaultConfig "''interrupt''"]
  by (auto simp: running_def)

text \<open>
  The shut-down is not awaited: after any signal the process can end while \<open>Shutdown\<close> is
  still waiting for the requests in progress, whatever the deadline of ten seconds says.
\<close>

theorem shutdown_not_awaited:
  "\<exists>s. main_run (main_begin sh (Inr cfg)) s \<and> m_main s = Exited (Some ErrServerClosed)
     \<and> m_signal s = InShutdown \<and> m_out s = [Starting (cfg_Port cfg), ShuttingDown sig]"
  using interrupted_ends [of sh cfg sig]
  by (intro exI [of _ "ended (interrupted sh cfg sig)"]) (simp add: interrupted_run(2))

text \<open>
  Returning is always within reach once the shut-down has begun and the process lives: no
  state of the signal goroutine, and no further signal, keeps \<open>main\<close> from it.
\<close>

theorem main_can_end:
  assumes "running s" and "shutdown_called s"
  shows "\<exists>t. main_run s t \<and> (\<exists>err. m_main t = Exited (Some err))"
proof (cases "m_main s")
  case Serving
  from ended_run [OF this assms(2)] show ?thesis
    using ended_fields(1) by blast
next
  case (Served err)
  have "main_step s (main_returns err s)"
    using Served by (rule ms_return)
  moreover have "m_main (main_returns err s) = Exited (Some err)"
    by (simp add: main_ops split: serve_error.splits)
  ultimately show ?thesis by blast
qed (use assms(1) in \<open>simp_all add: running_def\<close>)

end
