(* ===== verification/Config_Load.thy ===== *)
theory Config_Load
  imports Wisp_Config
begin

text \<open>
  Reading the configuration (\<open>LoadConfig\<close> of \<open>wisp/config.go\<close>): a JSON document, given as text
  or in a file, is decoded over the defaults. \<open>encoding/json\<close> is modelled as far as the
  struct tags of the configuration use it: members in their order, keys matched under
  case folding, null leaving plain values alone and emptying slices, maps and pointers,
  the first type error reported. Members that name a run-time field (\<open>Logger\<close>, \<open>Globals\<close>
  and the like) are not looked at.
\<close>

section \<open>Decoding values\<close>

type_synonym 'c decoder = "json \<Rightarrow> 'c \<Rightarrow> config_error + 'c"

definition set_bool :: "(bool \<Rightarrow> 'c \<Rightarrow> 'c) \<Rightarrow> 'c decoder" where
  "set_bool upd j c =
     (case j of JBool b \<Rightarrow> Inr (upd b c) | JNull \<Rightarrow> Inr c | _ \<Rightarrow> Inl UnmarshalTypeError)"

definition set_string :: "(string \<Rightarrow> 'c \<Rightarrow> 'c) \<Rightarrow> 'c decoder" where
  "set_string upd j c =
     (case j of JStr s \<Rightarrow> Inr (upd s c) | JNull \<Rightarrow> Inr c | _ \<Rightarrow> Inl UnmarshalTypeError)"

text \<open>An integer field takes an integer literal in the range of its type.\<close>

definition set_ranged :: "int \<Rightarrow> int \<Rightarrow> (int \<Rightarrow> 'c \<Rightarrow> 'c) \<Rightarrow> 'c decoder" where
  "set_ranged lo hi upd j c =
     (case j of
        JNum _ (Some i) \<Rightarrow> if lo \<le> i \<and> i < hi then Inr (upd i c) else Inl UnmarshalTypeError
      | JNull \<Rightarrow> Inr c
      | _ \<Rightarrow> Inl UnmarshalTypeError)"

definition set_int :: "(int \<Rightarrow> 'c \<Rightarrow> 'c) \<Rightarrow> 'c decoder" where
  "set_int = set_ranged (- (2 ^ 63)) (2 ^ 63)"

definition set_uint32 :: "(u32 \<Rightarrow> 'c \<Rightarrow> 'c) \<Rightarrow> 'c decoder" where
  "set_uint32 upd = set_ranged 0 (2 ^ 32) (\<lambda>i. upd (word_of_int i))"

definition set_float64 :: "(rat \<Rightarrow> 'c \<Rightarrow> 'c) \<Rightarrow> 'c decoder" where
  "set_float64 upd j c =
     (case j of JNum v _ \<Rightarrow> Inr (upd v c) | JNull \<Rightarrow> Inr c | _ \<Rightarrow> Inl UnmarshalTypeError)"

text \<open>A slice is decoded over the old one: a null element keeps what was at its place.\<close>

fun decode_strings :: "string list \<Rightarrow> json list \<Rightarrow> string list option" where
  "decode_strings old [] = Some []"
| "decode_strings old (j # js) =
     (case j of
        JStr s \<Rightarrow> map_option ((#) s) (decode_strings (drop 1 old) js)
      | JNull \<Rightarrow> map_option ((#) (case old of [] \<Rightarrow> [] | s # _ \<Rightarrow> s)) (decode_strings (drop 1 old) js)
      | _ \<Rightarrow> None)"

definition set_strings :: "('c \<Rightarrow> string list) \<Rightarrow> (string list \<Rightarrow> 'c \<Rightarrow> 'c) \<Rightarrow> 'c decoder" where
  "set_strings sel upd j c =
     (case j of
        JNull \<Rightarrow> Inr (upd [] c)
      | JArr js \<Rightarrow> (case decode_strings (sel c) js of None \<Rightarrow> Inl UnmarshalTypeError | Some xs \<Rightarrow> Inr (upd xs c))
      | _ \<Rightarrow> Inl UnmarshalTypeError)"

text \<open>A map is decoded into the old one; a null value stores the zero value.\<close>

fun decode_string_map :: "(string \<times> json) list \<Rightarrow> (string \<rightharpoonup> string) \<Rightarrow> (string \<rightharpoonup> string) option" where
  "decode_string_map [] m = Some m"
| "decode_string_map ((k, j) # ms) m =
     (case j of
        JStr s \<Rightarrow> decode_string_map ms (m(k \<mapsto> s))
      | JNull \<Rightarrow> decode_string_map ms (m(k \<mapsto> []))
      | _ \<Rightarrow> None)"

fun decode_int_map :: "(string \<times> json) list \<Rightarrow> (string \<rightharpoonup> int) \<Rightarrow> (string \<rightharpoonup> int) option" where
  "decode_int_map [] m = Some m"
| "decode_int_map ((k, j) # ms) m =
     (case set_int (\<lambda>i _. i) j 0 of Inr i \<Rightarrow> decode_int_map ms (m(k \<mapsto> i)) | Inl _ \<Rightarrow> None)"

definition set_map ::
    "((string \<times> json) list \<Rightarrow> (string \<rightharpoonup> 'v) \<Rightarrow> (string \<rightharpoonup> 'v) option)
     \<Rightarrow> ('c \<Rightarrow> (string \<rightharpoonup> 'v)) \<Rightarrow> ((string \<rightharpoonup> 'v) \<Rightarrow> 'c \<Rightarrow> 'c) \<Rightarrow> 'c decoder" where
  "set_map dec sel upd j c =
     (case j of
        JNull \<Rightarrow> Inr (upd Map.empty c)
      | JObj ms \<Rightarrow> (case dec ms (sel c) of None \<Rightarrow> Inl UnmarshalTypeError | Some m \<Rightarrow> Inr (upd m c))
      | _ \<Rightarrow> Inl UnmarshalTypeError)"

section \<open>Decoding objects\<close>

definition decode_member :: "(string \<times> 'c decoder) list \<Rightarrow> string \<Rightarrow> json \<Rightarrow> 'c \<Rightarrow> config_error + 'c" where
  "decode_member tags k j c =
     (case find (\<lambda>(tag, _). key_matches k tag) tags of None \<Rightarrow> Inr c | Some (_, dec) \<Rightarrow> dec j c)"

fun decode_members :: "(string \<times> 'c decoder) list \<Rightarrow> (string \<times> json) list \<Rightarrow> 'c \<Rightarrow> config_error + 'c" where
  "decode_members tags [] c = Inr c"
| "decode_members tags ((k, j) # ms) c =
     (case decode_member tags k j c of Inl e \<Rightarrow> Inl e | Inr c' \<Rightarrow> decode_members tags ms c')"

definition decode_object :: "(string \<times> 'c decoder) list \<Rightarrow> 'c decoder" where
  "decode_object tags j c =
     (case j of JObj ms \<Rightarrow> decode_members tags ms c | JNull \<Rightarrow> Inr c | _ \<Rightarrow> Inl UnmarshalTypeError)"

definition set_struct :: "'d decoder \<Rightarrow> ('c \<Rightarrow> 'd) \<Rightarrow> ('d \<Rightarrow> 'c \<Rightarrow> 'c) \<Rightarrow> 'c decoder" where
  "set_struct dec sel upd j c = (case dec j (sel c) of Inl e \<Rightarrow> Inl e | Inr d \<Rightarrow> Inr (upd d c))"

definition set_pointer :: "'d decoder \<Rightarrow> 'd \<Rightarrow> ('c \<Rightarrow> 'd option) \<Rightarrow> ('d option \<Rightarrow> 'c \<Rightarrow> 'c) \<Rightarrow> 'c decoder" where
  "set_pointer dec zero sel upd j c =
     (if j = JNull then Inr (upd None c)
      else case dec j (case sel c of None \<Rightarrow> zero | Some d \<Rightarrow> d) of
          Inl e \<Rightarrow> Inl e | Inr d \<Rightarrow> Inr (upd (Some d) c))"

section \<open>The structs\<close>

definition SynFloodSignature_fields :: "(string \<times> SynFloodSignatureConfig decoder) list" where
  "SynFloodSignature_fields =
     [(''enabled'', set_bool (\<lambda>v c. c\<lparr>sfs_Enabled := v\<rparr>)),
      (''windowMs'', set_int (\<lambda>v c. c\<lparr>sfs_WindowMs := v\<rparr>)),
      (''minSamples'', set_int (\<lambda>v c. c\<lparr>sfs_MinSamples := v\<rparr>)),
      (''failedHandshakeRatio'', set_float64 (\<lambda>v c. c\<lparr>sfs_FailedHandshakeRatio := v\<rparr>))]"

definition FloodProtection_fields :: "(string \<times> FloodProtectionConfig decoder) list" where
  "FloodProtection_fields =
     [(''enabled'', set_bool (\<lambda>v c. c\<lparr>fp_Enabled := v\<rparr>)),
      (''maxConnectsPerSourceIPPerSecond'', set_int (\<lambda>v c. c\<lparr>fp_MaxConnectsPerSourceIPPerSecond := v\<rparr>)),
      (''maxConnectsPerDestPerSecond'', set_int (\<lambda>v c. c\<lparr>fp_MaxConnectsPerDestPerSecond := v\<rparr>)),
      (''maxConnectsPerDestPerMinute'', set_int (\<lambda>v c. c\<lparr>fp_MaxConnectsPerDestPerMinute := v\<rparr>)),
      (''maxInFlightSyns'', set_int (\<lambda>v c. c\<lparr>fp_MaxInFlightSyns := v\<rparr>)),
      (''maxConcurrentStreamsPerConnection'', set_int (\<lambda>v c. c\<lparr>fp_MaxConcurrentStreamsPerConnection := v\<rparr>)),
      (''maxConcurrentConnections'', set_int (\<lambda>v c. c\<lparr>fp_MaxConcurrentConnections := v\<rparr>)),
      (''synFloodSignature'', set_struct (decode_object SynFloodSignature_fields)
         fp_SynFloodSignature (\<lambda>v c. c\<lparr>fp_SynFloodSignature := v\<rparr>)),
      (''wsCloseAfterViolations'', set_int (\<lambda>v c. c\<lparr>fp_WsCloseAfterViolations := v\<rparr>)),
      (''logBlockedDials'', set_bool (\<lambda>v c. c\<lparr>fp_LogBlockedDials := v\<rparr>))]"

text \<open>The anonymous struct of the thresholds, whose fields the record of the configuration holds.\<close>

definition Thresholds_fields :: "(string \<times> ReputationConfig decoder) list" where
  "Thresholds_fields =
     [(''warn'', set_int (\<lambda>v c. c\<lparr>rc_Warn := v\<rparr>)),
      (''throttle'', set_int (\<lambda>v c. c\<lparr>rc_Throttle := v\<rparr>)),
      (''strict'', set_int (\<lambda>v c. c\<lparr>rc_Strict := v\<rparr>))]"

definition Reputation_fields :: "(string \<times> ReputationConfig decoder) list" where
  "Reputation_fields =
     [(''enabled'', set_bool (\<lambda>v c. c\<lparr>rc_Enabled := v\<rparr>)),
      (''storePath'', set_string (\<lambda>v c. c\<lparr>rc_StorePath := v\<rparr>)),
      (''scoreDecayPerHour'', set_int (\<lambda>v c. c\<lparr>rc_DecayPerHour := v\<rparr>)),
      (''EvictAfter'', set_int (\<lambda>v c. c\<lparr>rc_EvictAfter := v\<rparr>)),
      (''evictAfterDays'', set_int (\<lambda>v c. c\<lparr>rc_EvictDays := v\<rparr>)),
      (''weights'', set_map decode_int_map rc_Weights (\<lambda>v c. c\<lparr>rc_Weights := v\<rparr>)),
      (''destinationWeights'', set_map decode_int_map rc_DestWeights (\<lambda>v c. c\<lparr>rc_DestWeights := v\<rparr>)),
      (''thresholds'', decode_object Thresholds_fields),
      (''saveIntervalSeconds'', set_int (\<lambda>v c. c\<lparr>rc_SaveIntervalSeconds := v\<rparr>))]"

definition zeroFloodProtection :: FloodProtectionConfig where
  "zeroFloodProtection = \<lparr>fp_Enabled = False, fp_MaxConnectsPerSourceIPPerSecond = 0,
     fp_MaxConnectsPerDestPerSecond = 0, fp_MaxConnectsPerDestPerMinute = 0, fp_MaxInFlightSyns = 0,
     fp_MaxConcurrentStreamsPerConnection = 0, fp_MaxConcurrentConnections = 0,
     fp_SynFloodSignature = \<lparr>sfs_Enabled = False, sfs_WindowMs = 0, sfs_MinSamples = 0,
       sfs_FailedHandshakeRatio = 0\<rparr>,
     fp_WsCloseAfterViolations = 0, fp_LogBlockedDials = False\<rparr>"

definition zeroReputation :: ReputationConfig where
  "zeroReputation = \<lparr>rc_Enabled = False, rc_StorePath = [], rc_DecayPerHour = 0, rc_EvictAfter = 0,
     rc_EvictDays = 0, rc_Weights = Map.empty, rc_DestWeights = Map.empty, rc_Warn = 0,
     rc_Throttle = 0, rc_Strict = 0, rc_SaveIntervalSeconds = 0\<rparr>"

definition Config_fields :: "(string \<times> Config decoder) list" where
  "Config_fields =
     [(''port'', set_int (\<lambda>v c. c\<lparr>cfg_Port := v\<rparr>)),
      (''allowTCP'', set_bool (\<lambda>v c. c\<lparr>cfg_AllowTCP := v\<rparr>)),
      (''allowUDP'', set_bool (\<lambda>v c. c\<lparr>cfg_AllowUDP := v\<rparr>)),
      (''allowDirectIP'', set_bool (\<lambda>v c. c\<lparr>cfg_AllowDirectIP := v\<rparr>)),
      (''allowPrivateIPs'', set_bool (\<lambda>v c. c\<lparr>cfg_AllowPrivateIPs := v\<rparr>)),
      (''allowLoopbackIPs'', set_bool (\<lambda>v c. c\<lparr>cfg_AllowLoopbackIPs := v\<rparr>)),
      (''tcpBufferSize'', set_int (\<lambda>v c. c\<lparr>cfg_TcpBufferSize := v\<rparr>)),
      (''tcpNoDelay'', set_bool (\<lambda>v c. c\<lparr>cfg_TcpNoDelay := v\<rparr>)),
      (''blacklist'', set_struct UnmarshalJSON cfg_Blacklist (\<lambda>v c. c\<lparr>cfg_Blacklist := v\<rparr>)),
      (''whitelist'', set_struct UnmarshalJSON cfg_Whitelist (\<lambda>v c. c\<lparr>cfg_Whitelist := v\<rparr>)),
      (''websocketPermessageDeflate'', set_bool (\<lambda>v c. c\<lparr>cfg_WebsocketPermessageDeflate := v\<rparr>)),
      (''dnsServers'', set_strings cfg_DnsServers (\<lambda>v c. c\<lparr>cfg_DnsServers := v\<rparr>)),
      (''dnsMethod'', set_string (\<lambda>v c. c\<lparr>cfg_DnsMethod := v\<rparr>)),
      (''dnsResultOrder'', set_string (\<lambda>v c. c\<lparr>cfg_DnsResultOrder := v\<rparr>)),
      (''enableTwisp'', set_bool (\<lambda>v c. c\<lparr>cfg_EnableTwisp := v\<rparr>)),
      (''enableV2'', set_bool (\<lambda>v c. c\<lparr>cfg_EnableV2 := v\<rparr>)),
      (''motd'', set_string (\<lambda>v c. c\<lparr>cfg_Motd := v\<rparr>)),
      (''passwordAuth'', set_bool (\<lambda>v c. c\<lparr>cfg_PasswordAuth := v\<rparr>)),
      (''passwordAuthRequired'', set_bool (\<lambda>v c. c\<lparr>cfg_PasswordAuthRequired := v\<rparr>)),
      (''passwordUsers'', set_map decode_string_map cfg_PasswordUsers (\<lambda>v c. c\<lparr>cfg_PasswordUsers := v\<rparr>)),
      (''parseRealIP'', set_bool (\<lambda>v c. c\<lparr>cfg_ParseRealIP := v\<rparr>)),
      (''trustedProxies'', set_strings cfg_TrustedProxies (\<lambda>v c. c\<lparr>cfg_TrustedProxies := v\<rparr>)),
      (''trustedHeaders'', set_strings cfg_TrustedHeaders (\<lambda>v c. c\<lparr>cfg_TrustedHeaders := v\<rparr>)),
      (''nonWSResponse'', set_string (\<lambda>v c. c\<lparr>cfg_NonWSResponse := v\<rparr>)),
      (''logLevel'', set_string (\<lambda>v c. c\<lparr>cfg_LogLevel := v\<rparr>)),
      (''proxy'', set_string (\<lambda>v c. c\<lparr>cfg_Proxy := v\<rparr>)),
      (''maxMessageSize'', set_int (\<lambda>v c. c\<lparr>cfg_MaxMessageSize := v\<rparr>)),
      (''staticDir'', set_string (\<lambda>v c. c\<lparr>cfg_StaticDir := v\<rparr>)),
      (''bandwidthLimitKbps'', set_int (\<lambda>v c. c\<lparr>cfg_BandwidthLimitKbps := v\<rparr>)),
      (''connectionsLimitPerIP'', set_int (\<lambda>v c. c\<lparr>cfg_ConnectionsLimitPerIP := v\<rparr>)),
      (''connectionWindowSeconds'', set_int (\<lambda>v c. c\<lparr>cfg_ConnectionWindowSeconds := v\<rparr>)),
      (''bufferRemainingLength'', set_uint32 (\<lambda>v c. c\<lparr>cfg_BufferRemainingLength := v\<rparr>)),
      (''floodProtection'', set_pointer (decode_object FloodProtection_fields) zeroFloodProtection
         cfg_FloodProtection (\<lambda>v c. c\<lparr>cfg_FloodProtection := v\<rparr>)),
      (''reputation'', set_pointer (decode_object Reputation_fields) zeroReputation
         cfg_Reputation (\<lambda>v c. c\<lparr>cfg_Reputation := v\<rparr>))]"

text \<open>
  \<open>LoadConfig\<close>: \<open>parse\<close> reads a whole text as one JSON document, \<open>parse_first\<close> the first
  document of a file; \<open>files\<close> are the readable files.
\<close>

definition LoadConfig ::
    "(string \<Rightarrow> json option) \<Rightarrow> (string \<Rightarrow> json option) \<Rightarrow> (string \<rightharpoonup> string) \<Rightarrow> string
     \<Rightarrow> config_error + Config" where
  "LoadConfig parse parse_first files config =
     (let trimConfig = strings_TrimSpace config in
      if strings_HasPrefix trimConfig ''{'' then
        (case parse trimConfig of
           None \<Rightarrow> Inl SyntaxError
         | Some j \<Rightarrow> decode_object Config_fields j DefaultConfig)
      else (case files config of
          None \<Rightarrow> Inl FileError
        | Some contents \<Rightarrow>
            (case parse_first contents of
               None \<Rightarrow> Inl SyntaxError
             | Some j \<Rightarrow> decode_object Config_fields j DefaultConfig)))"

section \<open>What a document leaves alone\<close>

definition keeps :: "('c \<Rightarrow> 'v) \<Rightarrow> 'c decoder \<Rightarrow> bool" where
  "keeps sel dec = (\<forall>j c c'. dec j c = Inr c' \<longrightarrow> sel c' = sel c)"

lemma keeps_setters [intro]:
  "(\<And>v c. sel (upd1 v c) = sel c) \<Longrightarrow> keeps sel (set_bool upd1)"
  "(\<And>v c. sel (upd2 v c) = sel c) \<Longrightarrow> keeps sel (set_string upd2)"
  "(\<And>v c. sel (upd3 v c) = sel c) \<Longrightarrow> keeps sel (set_int upd3)"
  "(\<And>v c. sel (upd4 v c) = sel c) \<Longrightarrow> keeps sel (set_uint32 upd4)"
  "(\<And>v c. sel (upd5 v c) = sel c) \<Longrightarrow> keeps sel (set_strings get upd5)"
  "(\<And>v c. sel (upd6 v c) = sel c) \<Longrightarrow> keeps sel (set_map dm getm upd6)"
  "(\<And>v c. sel (upd7 v c) = sel c) \<Longrightarrow> keeps sel (set_struct ds gets upd7)"
  "(\<And>v c. sel (upd8 v c) = sel c) \<Longrightarrow> keeps sel (set_pointer dp zero getp upd8)"
  by (auto simp: keeps_def set_bool_def set_string_def set_int_def set_uint32_def set_ranged_def
      set_strings_def set_map_def set_struct_def set_pointer_def
      split: json.splits option.splits if_splits sum.splits)

definition mentions :: "(string \<times> json) list \<Rightarrow> string \<Rightarrow> bool" where
  "mentions ms tag = (\<exists>m \<in> set ms. key_matches (fst m) tag)"

lemma decode_member_keeps:
  assumes all: "list_all (\<lambda>(t, dec). t = tag \<or> keeps sel dec) tags"
    and "decode_member tags k j c = Inr c'" and "\<not> key_matches k tag"
  shows "sel c' = sel c"
proof (cases "find (\<lambda>(tag, _). key_matches k tag) tags")
  case None
  with assms(2) show ?thesis by (simp add: decode_member_def)
next
  case (Some f)
  obtain t dec where f: "f = (t, dec)" by (cases f)
  have "(t, dec) \<in> set tags" "key_matches k t"
    using Some f by (auto simp: find_Some_iff dest: nth_mem)
  then have "keeps sel dec" using all assms(3) by (auto simp: list_all_iff)
  moreover have "dec j c = Inr c'" using assms(2) Some f by (simp add: decode_member_def)
  ultimately show ?thesis by (simp add: keeps_def)
qed

lemma decode_members_keeps:
  assumes "list_all (\<lambda>(t, dec). t = tag \<or> keeps sel dec) tags"
  shows "decode_members tags ms c = Inr c' \<Longrightarrow> \<not> mentions ms tag \<Longrightarrow> sel c' = sel c"
proof (induction ms arbitrary: c)
  case Nil
  then show ?case by simp
next
  case (Cons m ms)
  obtain k j where m: "m = (k, j)" by (cases m)
  obtain d where d: "decode_member tags k j c = Inr d" and r: "decode_members tags ms d = Inr c'"
    using Cons.prems(1) by (auto simp: m split: sum.splits)
  have "sel d = sel c"
    by (rule decode_member_keeps [OF assms d]) (use Cons.prems(2) in \<open>simp add: mentions_def m\<close>)
  moreover have "sel c' = sel d"
    by (rule Cons.IH [OF r]) (use Cons.prems(2) in \<open>simp add: mentions_def\<close>)
  ultimately show ?case by simp
qed

lemma fields_keep:
  "list_all (\<lambda>(t, dec). t = ''allowDirectIP'' \<or> keeps cfg_AllowDirectIP dec) Config_fields"
  "list_all (\<lambda>(t, dec). t = ''allowPrivateIPs'' \<or> keeps cfg_AllowPrivateIPs dec) Config_fields"
  "list_all (\<lambda>(t, dec). t = ''allowLoopbackIPs'' \<or> keeps cfg_AllowLoopbackIPs dec) Config_fields"
  "list_all (\<lambda>(t, dec). t = ''enableTwisp'' \<or> keeps cfg_EnableTwisp dec) Config_fields"
  "list_all (\<lambda>(t, dec). t = ''trustedProxies'' \<or> keeps cfg_TrustedProxies dec) Config_fields"
  "list_all (\<lambda>(t, dec). t = ''whitelist'' \<or> keeps cfg_Whitelist dec) Config_fields"
  by (simp_all add: Config_fields_def keeps_setters)

text \<open>
  The members of the document a text given as configuration stands for, inline or in a
  file: none without a configuration and for a document that is just null.
\<close>

definition config_members ::
    "(string \<Rightarrow> json option) \<Rightarrow> (string \<Rightarrow> json option) \<Rightarrow> (string \<rightharpoonup> string) \<Rightarrow> string
     \<Rightarrow> (string \<times> json) list option" where
  "config_members parse parse_first files text =
     (if text = [] then Some []
      else case (if strings_HasPrefix (strings_TrimSpace text) ''{'' then parse (strings_TrimSpace text)
                 else case files text of None \<Rightarrow> None | Some contents \<Rightarrow> parse_first contents) of
          Some (JObj ms) \<Rightarrow> Some ms
        | Some JNull \<Rightarrow> Some []
        | _ \<Rightarrow> None)"

lemma LoadConfig_members:
  assumes "LoadConfig parse parse_first files text = Inr cfg" and "text \<noteq> []"
    and "config_members parse parse_first files text = Some ms"
  shows "decode_members Config_fields ms DefaultConfig = Inr cfg"
  using assms
  by (auto simp: LoadConfig_def config_members_def Let_def decode_object_def
      split: if_splits option.splits json.splits)

text \<open>
  The dangerous options are off unless a document names them: direct IP targets, private
  and loopback targets, terminals, trusted proxies and the whitelist have their closed
  defaults in every configuration that loads without a member of that name.
\<close>

theorem LoadConfig_closed_defaults:
  assumes "LoadConfig parse parse_first files text = Inr cfg" and "text \<noteq> []"
    and "config_members parse parse_first files text = Some ms"
  shows "(mentions ms ''allowDirectIP'' \<or> \<not> cfg_AllowDirectIP cfg)
    \<and> (mentions ms ''allowPrivateIPs'' \<or> \<not> cfg_AllowPrivateIPs cfg)
    \<and> (mentions ms ''allowLoopbackIPs'' \<or> \<not> cfg_AllowLoopbackIPs cfg)
    \<and> (mentions ms ''enableTwisp'' \<or> \<not> cfg_EnableTwisp cfg)
    \<and> (mentions ms ''trustedProxies'' \<or> cfg_TrustedProxies cfg = [])
    \<and> (mentions ms ''whitelist'' \<or> cfg_Whitelist cfg = emptyFilter)"
  using fields_keep [THEN decode_members_keeps, OF LoadConfig_members [OF assms]]
  by (auto simp: DefaultConfig_def)

theorem LoadConfig_closed_defaults_witness:
  "mentions [(''port'', JNum 80 (Some 80))] ''allowPrivateIPs''
     \<or> \<not> cfg_AllowPrivateIPs (DefaultConfig\<lparr>cfg_Port := 80\<rparr>)"
proof -
  have "LoadConfig (\<lambda>_. Some (JObj [(''port'', JNum 80 (Some 80))])) (\<lambda>_. None) Map.empty ''{\"port\": 80}''
      = Inr (DefaultConfig\<lparr>cfg_Port := 80\<rparr>)"
    by (simp add: LoadConfig_def Let_def decode_object_def decode_member_def Config_fields_def key_matches_def
        set_int_def set_ranged_def go_eval strings_HasPrefix_def)
  from LoadConfig_closed_defaults [OF this, where ms = "[(''port'', JNum 80 (Some 80))]"] show ?thesis
    by (simp add: config_members_def go_eval strings_HasPrefix_def)
qed

end
