(* ===== verification/Rep_Store.thy ===== *)
theory Rep_Store
  imports Reputation Config_Load "HOL-Library.Char_ord" "HOL-Library.List_Lexorder"
begin

text \<open>
  The file of the reputation store (\<open>SaveNow\<close> and \<open>Load\<close> of \<open>wisp/reputation.go\<close>) down to its
  JSON members: the snapshot as \<open>encoding/json\<close> prints it from the struct tags of
  \<open>wisp/types.go\<close>, and as it reads it back. Left to parameters are the text of a JSON value
  (\<open>print\<close>, \<open>parse\<close>) and of a time (\<open>print_time\<close>, \<open>parse_time\<close>: RFC 3339 with nanoseconds).
\<close>

section \<open>Printing the snapshot\<close>

definition int_json :: "int \<Rightarrow> json" where
  "int_json i = JNum (f64 (of_int i)) (Some i)"

text \<open>A map is printed as an object, its keys in order.\<close>

definition map_json :: "('v \<Rightarrow> json) \<Rightarrow> (string \<rightharpoonup> 'v) \<Rightarrow> json" where
  "map_json enc m = JObj (map (\<lambda>k. (k, enc (the (m k)))) (sorted_list_of_set (dom m)))"

definition source_json :: "(time \<Rightarrow> string) \<Rightarrow> SourceEntry \<Rightarrow> json" where
  "source_json print_time e =
     JObj [(''score'', int_json (se_Score e)),
           (''firstSeen'', JStr (print_time (se_FirstSeen e))),
           (''lastSeen'', JStr (print_time (se_LastSeen e))),
           (''events'', map_json int_json (se_Events e))]"

definition dest_json :: "(time \<Rightarrow> string) \<Rightarrow> DestEntry \<Rightarrow> json" where
  "dest_json print_time e =
     JObj [(''score'', int_json (de_Score e)),
           (''firstSeen'', JStr (print_time (de_FirstSeen e))),
           (''lastSeen'', JStr (print_time (de_LastSeen e))),
           (''events'', map_json int_json (de_Events e)),
           (''distinctSources'', int_json (de_DistinctSources e)),
           (''seenSources'', map_json JBool (de_SeenSources e))]"

definition snapshot_json :: "(time \<Rightarrow> string) \<Rightarrow> snapshot \<Rightarrow> json" where
  "snapshot_json print_time s =
     JObj [(''sources'', map_json (source_json print_time) (fst s)),
           (''destinations'', map_json (dest_json print_time) (snd s))]"

section \<open>Reading it back\<close>

definition set_time :: "(string \<Rightarrow> time option) \<Rightarrow> (time \<Rightarrow> 'c \<Rightarrow> 'c) \<Rightarrow> 'c decoder" where
  "set_time parse_time upd j c =
     (case j of
        JStr s \<Rightarrow> (case parse_time s of None \<Rightarrow> Inl UnmarshalTypeError | Some t \<Rightarrow> Inr (upd t c))
      | JNull \<Rightarrow> Inr c
      | _ \<Rightarrow> Inl UnmarshalTypeError)"

text \<open>Each value of a map is decoded over a zero value of its own.\<close>

fun decode_map :: "'v decoder \<Rightarrow> 'v \<Rightarrow> (string \<times> json) list \<Rightarrow> (string \<rightharpoonup> 'v) \<Rightarrow> (string \<rightharpoonup> 'v) option" where
  "decode_map dec zero [] m = Some m"
| "decode_map dec zero ((k, j) # ms) m =
     (case dec j zero of Inr v \<Rightarrow> decode_map dec zero ms (m(k \<mapsto> v)) | Inl _ \<Rightarrow> None)"

text \<open>
  An entry of the store, a pointer to a struct. A null entry, which the program never
  writes, would be a nil pointer in the map; it is refused here.
\<close>

definition decode_entry :: "(string \<times> 'v decoder) list \<Rightarrow> 'v decoder" where
  "decode_entry tags j zero = (if j = JNull then Inl UnmarshalTypeError else decode_object tags j zero)"

text \<open>The zero \<open>time.Time\<close>, the start of the year 1, in nanoseconds from the Unix epoch.\<close>

definition zero_time :: time where
  "zero_time = - 62135596800000000000"

definition zeroSource :: SourceEntry where
  "zeroSource = \<lparr>se_Score = 0, se_FirstSeen = zero_time, se_LastSeen = zero_time, se_Events = Map.empty\<rparr>"

definition zeroDest :: DestEntry where
  "zeroDest = \<lparr>de_Score = 0, de_FirstSeen = zero_time, de_LastSeen = zero_time, de_Events = Map.empty,
     de_DistinctSources = 0, de_SeenSources = Map.empty\<rparr>"

definition source_fields :: "(string \<Rightarrow> time option) \<Rightarrow> (string \<times> SourceEntry decoder) list" where
  "source_fields parse_time =
     [(''score'', set_int (\<lambda>v e. e\<lparr>se_Score := v\<rparr>)),
      (''firstSeen'', set_time parse_time (\<lambda>v e. e\<lparr>se_FirstSeen := v\<rparr>)),
      (''lastSeen'', set_time parse_time (\<lambda>v e. e\<lparr>se_LastSeen := v\<rparr>)),
      (''events'', set_map (decode_map (set_int (\<lambda>i _. i)) 0) se_Events (\<lambda>v e. e\<lparr>se_Events := v\<rparr>))]"

definition dest_fields :: "(string \<Rightarrow> time option) \<Rightarrow> (string \<times> DestEntry decoder) list" where
  "dest_fields parse_time =
     [(''score'', set_int (\<lambda>v e. e\<lparr>de_Score := v\<rparr>)),
      (''firstSeen'', set_time parse_time (\<lambda>v e. e\<lparr>de_FirstSeen := v\<rparr>)),
      (''lastSeen'', set_time parse_time (\<lambda>v e. e\<lparr>de_LastSeen := v\<rparr>)),
      (''events'', set_map (decode_map (set_int (\<lambda>i _. i)) 0) de_Events (\<lambda>v e. e\<lparr>de_Events := v\<rparr>)),
      (''distinctSources'', set_int (\<lambda>v e. e\<lparr>de_DistinctSources := v\<rparr>)),
      (''seenSources'', set_map (decode_map (set_bool (\<lambda>b _. b)) False) de_SeenSources
         (\<lambda>v e. e\<lparr>de_SeenSources := v\<rparr>))]"

text \<open>The two maps of the snapshot start as nil, and a null member makes them nil again.\<close>

definition set_store_map :: "'v decoder \<Rightarrow> 'v \<Rightarrow> ('c \<Rightarrow> (string \<rightharpoonup> 'v) option)
    \<Rightarrow> ((string \<rightharpoonup> 'v) option \<Rightarrow> 'c \<Rightarrow> 'c) \<Rightarrow> 'c decoder" where
  "set_store_map dec zero sel upd j c =
     (case j of
        JNull \<Rightarrow> Inr (upd None c)
      | JObj ms \<Rightarrow> (case decode_map dec zero ms (case sel c of None \<Rightarrow> Map.empty | Some m \<Rightarrow> m) of
            None \<Rightarrow> Inl UnmarshalTypeError | Some m \<Rightarrow> Inr (upd (Some m) c))
      | _ \<Rightarrow> Inl UnmarshalTypeError)"

type_synonym loaded = "(string \<rightharpoonup> SourceEntry) option \<times> (string \<rightharpoonup> DestEntry) option"

definition snapshot_fields :: "(string \<Rightarrow> time option) \<Rightarrow> (string \<times> loaded decoder) list" where
  "snapshot_fields parse_time =
     [(''sources'', set_store_map (decode_entry (source_fields parse_time)) zeroSource fst (\<lambda>m s. (m, snd s))),
      (''destinations'', set_store_map (decode_entry (dest_fields parse_time)) zeroDest snd (\<lambda>m s. (fst s, m)))]"

definition decode_snapshot :: "(string \<Rightarrow> time option) \<Rightarrow> json \<Rightarrow> loaded option" where
  "decode_snapshot parse_time j =
     (case decode_object (snapshot_fields parse_time) j (None, None) of Inl _ \<Rightarrow> None | Inr s \<Rightarrow> Some s)"

text \<open>The whole path of a snapshot to the text of the file, and of the text to a snapshot.\<close>

definition snapshot_text :: "(json \<Rightarrow> 'd) \<Rightarrow> (time \<Rightarrow> string) \<Rightarrow> snapshot \<Rightarrow> 'd" where
  "snapshot_text print print_time s = print (snapshot_json print_time s)"

definition text_snapshot :: "('d \<Rightarrow> json option) \<Rightarrow> (string \<Rightarrow> time option) \<Rightarrow> 'd \<Rightarrow> loaded option" where
  "text_snapshot parse parse_time d = Option.bind (parse d) (decode_snapshot parse_time)"

section \<open>Reading inverts printing\<close>

lemma decode_map_json:
  assumes "finite (dom m)" and "\<forall>k v. m k = Some v \<longrightarrow> dec (enc v) zero = Inr v"
  shows "decode_map dec zero (map (\<lambda>k. (k, enc (the (m k)))) (sorted_list_of_set (dom m))) Map.empty = Some m"
proof -
  have "set ks \<subseteq> dom m \<Longrightarrow>
      decode_map dec zero (map (\<lambda>k. (k, enc (the (m k)))) ks) acc = Some (acc ++ m |` set ks)" for ks acc
  proof (induction ks arbitrary: acc)
    case Nil
    then show ?case by simp
  next
    case (Cons k ks)
    then obtain v where v: "m k = Some v" by auto
    then have "acc(k \<mapsto> v) ++ m |` set ks = acc ++ m |` set (k # ks)"
      by (auto simp: map_add_def restrict_map_def fun_eq_iff split: option.splits)
    with Cons v assms(2) show ?case by simp
  qed
  from this [of "sorted_list_of_set (dom m)" Map.empty] show ?thesis
    using assms(1) by (simp add: restrict_map_def fun_eq_iff) (metis domIff)
qed

definition int64 :: "int \<Rightarrow> bool" where
  "int64 i = (- (2 ^ 63) \<le> i \<and> i < 2 ^ 63)"

lemma set_int_json: "int64 i \<Longrightarrow> set_int upd (int_json i) c = Inr (upd i c)"
  by (simp add: set_int_def set_ranged_def int_json_def int64_def)

definition source_saved :: "(time \<Rightarrow> bool) \<Rightarrow> SourceEntry \<Rightarrow> bool" where
  "source_saved ok e = (int64 (se_Score e) \<and> ok (se_FirstSeen e) \<and> ok (se_LastSeen e)
     \<and> finite (dom (se_Events e)) \<and> (\<forall>k n. se_Events e k = Some n \<longrightarrow> int64 n))"

definition dest_saved :: "(time \<Rightarrow> bool) \<Rightarrow> DestEntry \<Rightarrow> bool" where
  "dest_saved ok e = (int64 (de_Score e) \<and> ok (de_FirstSeen e) \<and> ok (de_LastSeen e)
     \<and> finite (dom (de_Events e)) \<and> (\<forall>k n. de_Events e k = Some n \<longrightarrow> int64 n)
     \<and> int64 (de_DistinctSources e) \<and> finite (dom (de_SeenSources e)))"

lemma decode_source_json:
  assumes "source_saved (\<lambda>t. parse_time (print_time t) = Some t) e"
  shows "decode_entry (source_fields parse_time) (source_json print_time e) zeroSource = Inr e"
proof -
  have ev: "decode_map (set_int (\<lambda>i _. i)) 0
      (map (\<lambda>k. (k, int_json (the (se_Events e k)))) (sorted_list_of_set (dom (se_Events e)))) Map.empty
      = Some (se_Events e)"
    using assms by (intro decode_map_json) (auto simp: source_saved_def set_int_json)
  have keys: "\<not> key_matches ''firstSeen'' ''score''" "\<not> key_matches ''lastSeen'' ''score''"
    "\<not> key_matches ''lastSeen'' ''firstSeen''" "\<not> key_matches ''events'' ''score''"
    "\<not> key_matches ''events'' ''firstSeen''" "\<not> key_matches ''events'' ''lastSeen''"
    "key_matches k k" for k
    by (simp_all add: key_matches_def char_of_def bit_0 go_eval)
  show ?thesis
    using assms
    by (simp add: decode_entry_def source_json_def decode_object_def decode_member_def source_fields_def
        keys set_int_json source_saved_def set_time_def set_map_def map_json_def ev zeroSource_def)
qed

lemma decode_dest_json:
  assumes "dest_saved (\<lambda>t. parse_time (print_time t) = Some t) e"
  shows "decode_entry (dest_fields parse_time) (dest_json print_time e) zeroDest = Inr e"
proof -
  have ev: "decode_map (set_int (\<lambda>i _. i)) 0
      (map (\<lambda>k. (k, int_json (the (de_Events e k)))) (sorted_list_of_set (dom (de_Events e)))) Map.empty
      = Some (de_Events e)"
    using assms by (intro decode_map_json) (auto simp: dest_saved_def set_int_json)
  have seen: "decode_map (set_bool (\<lambda>b _. b)) False
      (map (\<lambda>k. (k, JBool (the (de_SeenSources e k)))) (sorted_list_of_set (dom (de_SeenSources e)))) Map.empty
      = Some (de_SeenSources e)"
    using assms by (intro decode_map_json) (auto simp: dest_saved_def set_bool_def)
  have keys: "\<not> key_matches ''firstSeen'' ''score''" "\<not> key_matches ''lastSeen'' ''score''"
    "\<not> key_matches ''lastSeen'' ''firstSeen''" "\<not> key_matches ''events'' ''score''"
    "\<not> key_matches ''events'' ''firstSeen''" "\<not> key_matches ''events'' ''lastSeen''"
    "\<not> key_matches ''distinctSources'' ''score''" "\<not> key_matches ''distinctSources'' ''firstSeen''"
    "\<not> key_matches ''distinctSources'' ''lastSeen''" "\<not> key_matches ''distinctSources'' ''events''"
    "\<not> key_matches ''seenSources'' ''score''" "\<not> key_matches ''seenSources'' ''firstSeen''"
    "\<not> key_matches ''seenSources'' ''lastSeen''" "\<not> key_matches ''seenSources'' ''events''"
    "\<not> key_matches ''seenSources'' ''distinctSources''" "key_matches k k" for k
    by (simp_all add: key_matches_def char_of_def bit_0 go_eval)
  show ?thesis
    using assms
    by (simp add: decode_entry_def dest_json_def decode_object_def decode_member_def dest_fields_def
        keys set_int_json dest_saved_def set_time_def set_map_def map_json_def ev seen zeroDest_def)
qed

text \<open>A store whose entries can be printed: what every run of the program keeps it to.\<close>

definition rep_saved :: "(time \<Rightarrow> bool) \<Rightarrow> Reputation \<Rightarrow> bool" where
  "rep_saved ok r = (finite (dom (rep_sources r)) \<and> finite (dom (rep_dests r))
     \<and> (\<forall>k e. rep_sources r k = Some e \<longrightarrow> source_saved ok e)
     \<and> (\<forall>k e. rep_dests r k = Some e \<longrightarrow> dest_saved ok e))"

lemma decode_snapshot_json:
  assumes "rep_saved (\<lambda>t. parse_time (print_time t) = Some t) r"
  shows "decode_snapshot parse_time (snapshot_json print_time (rep_sources r, rep_dests r))
    = Some (Some (rep_sources r), Some (rep_dests r))"
proof -
  let ?s = "rep_sources r" and ?d = "rep_dests r"
  have s: "decode_map (decode_entry (source_fields parse_time)) zeroSource
      (map (\<lambda>k. (k, source_json print_time (the (?s k)))) (sorted_list_of_set (dom ?s))) Map.empty = Some ?s"
    using assms by (intro decode_map_json) (auto simp: rep_saved_def intro: decode_source_json)
  have d: "decode_map (decode_entry (dest_fields parse_time)) zeroDest
      (map (\<lambda>k. (k, dest_json print_time (the (?d k)))) (sorted_list_of_set (dom ?d))) Map.empty = Some ?d"
    using assms by (intro decode_map_json) (auto simp: rep_saved_def intro: decode_dest_json)
  have keys: "\<not> key_matches ''destinations'' ''sources''" "key_matches k k" for k
    by (simp_all add: key_matches_def char_of_def bit_0 go_eval)
  show ?thesis
    by (simp add: decode_snapshot_def snapshot_json_def decode_object_def decode_member_def
        snapshot_fields_def set_store_map_def keys map_json_def s d)
qed

section \<open>What the events keep\<close>

text \<open>
  The counters grow by at most one per event, so the invariant bounds them by the number of
  events; \<open>ok\<close> is any condition the times of the events meet.
\<close>

definition counts_below :: "nat \<Rightarrow> (string \<rightharpoonup> int) \<Rightarrow> bool" where
  "counts_below n m = (finite (dom m) \<and> (\<forall>k v. m k = Some v \<longrightarrow> 0 \<le> v \<and> v \<le> int n))"

definition source_kept :: "(time \<Rightarrow> bool) \<Rightarrow> nat \<Rightarrow> SourceEntry \<Rightarrow> bool" where
  "source_kept ok n e = (source_ok e \<and> ok (se_FirstSeen e) \<and> ok (se_LastSeen e)
     \<and> counts_below n (se_Events e))"

definition dest_kept :: "(time \<Rightarrow> bool) \<Rightarrow> nat \<Rightarrow> DestEntry \<Rightarrow> bool" where
  "dest_kept ok n e = (dest_ok e \<and> ok (de_FirstSeen e) \<and> ok (de_LastSeen e)
     \<and> counts_below n (de_Events e) \<and> de_DistinctSources e \<le> int n \<and> finite (dom (de_SeenSources e)))"

definition rep_kept :: "(time \<Rightarrow> bool) \<Rightarrow> nat \<Rightarrow> Reputation \<Rightarrow> bool" where
  "rep_kept ok n r = (finite (dom (rep_sources r)) \<and> finite (dom (rep_dests r))
     \<and> (\<forall>k e. rep_sources r k = Some e \<longrightarrow> source_kept ok n e)
     \<and> (\<forall>k e. rep_dests r k = Some e \<longrightarrow> dest_kept ok n e))"

fun event_time :: "rep_event \<Rightarrow> time" where
  "event_time (EvSource now key reason) = now"
| "event_time (EvDest now ip port reason src) = now"
| "event_time (EvTick now) = now"

lemma counts_below_Suc: "counts_below n m \<Longrightarrow> counts_below (Suc n) m"
  unfolding counts_below_def by fastforce

lemma counts_below_bump: "counts_below n m \<Longrightarrow> counts_below (Suc n) (bump_event m k)"
  by (cases "m k") (force simp: counts_below_def bump_event_def map_int_def)+

lemma kept_Suc: "source_kept ok n e \<Longrightarrow> source_kept ok (Suc n) e" "dest_kept ok n d \<Longrightarrow> dest_kept ok (Suc n) d"
  by (auto simp: source_kept_def dest_kept_def counts_below_Suc)

lemma kept_new:
  "ok now \<Longrightarrow> source_kept ok n (newSource now)" "ok now \<Longrightarrow> dest_kept ok n (newDest now)"
  by (simp_all add: source_kept_def dest_kept_def newSource_def newDest_def counts_below_def source_ok_def
      dest_ok_def seen_set_def)

lemma kept_score:
  "source_kept ok n e \<Longrightarrow> source_kept ok n (e\<lparr>se_Score := clampScore v\<rparr>)"
  "dest_kept ok n d \<Longrightarrow> dest_kept ok n (d\<lparr>de_Score := clampScore v\<rparr>)"
  by (simp_all add: source_kept_def dest_kept_def source_ok_def dest_ok_def seen_set_def)

lemma rep_kept_New: "rep_kept ok 0 (NewReputation now cfg)"
  by (simp add: rep_kept_def NewReputation_def)

lemma rep_kept_AddSource:
  assumes "rep_kept ok n r" and "ok now"
  shows "rep_kept ok (Suc n) (AddSource now key reason r)"
proof -
  define e where "e = (case rep_sources r key of None \<Rightarrow> newSource now | Some e \<Rightarrow> e)"
  have "source_kept ok n e"
    using assms by (cases "rep_sources r key") (auto simp: e_def rep_kept_def kept_new)
  then have "source_kept ok (Suc n) (e\<lparr>se_LastSeen := now, se_Events := bump_event (se_Events e) reason,
      se_Score := clampScore (go_int (se_Score e + map_int (rc_Weights (rep_cfg r)) reason))\<rparr>)"
    using assms(2) by (simp add: source_kept_def source_ok_def counts_below_bump)
  then show ?thesis
    using assms(1) kept_Suc by (auto simp: rep_kept_def AddSource_def Let_def simp flip: e_def)
qed

lemma dest_kept_see_source:
  assumes "dest_kept ok n e" and "de_DistinctSources e \<le> int m" and "m < n"
  shows "dest_kept ok n (see_source esc s e)"
  using assms dest_ok_see_source [of e esc s]
  by (auto simp: dest_kept_def see_source_def)

lemma rep_kept_AddDest:
  assumes "rep_kept ok n r" and "ok now"
  shows "rep_kept ok (Suc n) (AddDest now ip port reason src r)"
proof -
  define e where "e = (case rep_dests r (dest_key ip port) of None \<Rightarrow> newDest now | Some e \<Rightarrow> e)"
  define e1 where "e1 = e\<lparr>de_LastSeen := now, de_Events := bump_event (de_Events e) reason,
    de_Score := clampScore (go_int (de_Score e + map_int (rc_DestWeights (rep_cfg r)) reason))\<rparr>"
  have e: "dest_kept ok n e"
    using assms by (cases "rep_dests r (dest_key ip port)") (auto simp: e_def rep_kept_def kept_new)
  then have e1: "dest_kept ok (Suc n) e1"
    using assms(2) by (simp add: e1_def dest_kept_def dest_ok_def seen_set_def counts_below_bump)
  have "dest_kept ok (Suc n) (see_source esc s e1)" for esc s
    using e by (intro dest_kept_see_source [OF e1, of n]) (simp_all add: e1_def dest_kept_def)
  then show ?thesis
    using assms(1) e1 kept_Suc by (auto simp: rep_kept_def AddDest_def Let_def simp flip: e_def e1_def)
qed

lemma rep_kept_tick:
  assumes "rep_kept ok n r"
  shows "rep_kept ok (Suc n) (maintenance_tick now r)"
proof -
  have "rep_kept ok (Suc n) (ForceDecay t d r)" for t d
    using assms kept_Suc
    by (auto simp: rep_kept_def ForceDecay_def Let_def kept_score dom_map_option_comp)
  moreover have "rep_kept ok m (Reputation_Evict t q)" if "rep_kept ok m q" for t m q
  proof -
    have le: "rep_sources (Reputation_Evict t q) \<subseteq>\<^sub>m rep_sources q"
      "rep_dests (Reputation_Evict t q) \<subseteq>\<^sub>m rep_dests q"
      by (auto simp: map_le_def Reputation_Evict_def Let_def split: option.splits if_splits)
    then show ?thesis
      using that finite_subset [OF map_le_implies_dom_le] unfolding rep_kept_def
      by (metis domI map_le_def)
  qed
  ultimately show ?thesis by (simp add: maintenance_tick_def)
qed

lemma rep_kept_events:
  "rep_kept ok n r \<Longrightarrow> (\<forall>ev \<in> set evs. ok (event_time ev)) \<Longrightarrow>
   rep_kept ok (n + length evs) (foldl rep_event_step r evs)"
proof (induction evs arbitrary: n r)
  case Nil
  then show ?case by simp
next
  case (Cons ev evs)
  have "rep_kept ok (Suc n) (rep_event_step r ev)"
    using Cons.prems rep_kept_AddSource rep_kept_AddDest rep_kept_tick by (cases ev) auto
  with Cons show ?case by fastforce
qed

lemma int64_count: "0 \<le> v \<Longrightarrow> v \<le> int n \<Longrightarrow> n < 2 ^ 63 \<Longrightarrow> int64 v"
  by (simp add: int64_def)

lemma rep_saved_kept:
  assumes "rep_kept ok n r" and n: "n < 2 ^ 63"
  shows "rep_saved ok r"
proof -
  have "source_saved ok e" if "source_kept ok n e" for e
    using that int64_count [OF _ _ n]
    by (auto simp: source_kept_def source_saved_def source_ok_def counts_below_def) (simp add: int64_def)
  moreover have "dest_saved ok e" if "dest_kept ok n e" for e
    using that int64_count [OF _ _ n]
    by (auto simp: dest_kept_def dest_saved_def dest_ok_def counts_below_def) (simp add: int64_def)
  ultimately show ?thesis using assms(1) by (simp add: rep_kept_def rep_saved_def)
qed

lemma rep_cfg_event: "rep_cfg (rep_event_step r ev) = rep_cfg r"
  by (cases ev) (simp_all add: AddSource_def AddDest_def maintenance_tick_def ForceDecay_def
      Reputation_Evict_def Let_def)

lemma rep_cfg_events: "rep_cfg (foldl rep_event_step r evs) = rep_cfg r"
  by (induction evs arbitrary: r) (simp_all add: rep_cfg_event)

text \<open>
  C33: What the program has recorded survives a restart. After any history of events of a
  new store, a save that succeeds lets a new store load exactly the sources and
  destinations of the old one, and a save that fails at any point leaves what would be
  loaded as it was. The text of a JSON value and of a time are parameters: the theorem asks
  that the written document parses to the value it was printed from, as it does when host
  names are valid UTF-8, and that the times of the events read back, as they do from the
  year 0 to 9999.
\<close>

theorem Load_SaveNow:
  assumes r: "r = foldl rep_event_step (NewReputation t0 cfg) evs" and n: "length evs < 2 ^ 63"
    and times: "\<forall>ev \<in> set evs. parse_time (print_time (event_time ev)) = Some (event_time ev)"
    and json: "parse (print (snapshot_json print_time (rep_sources r, rep_dests r)))
      = Some (snapshot_json print_time (rep_sources r, rep_dests r))"
    and path: "rc_StorePath cfg \<noteq> []"
  shows "Load (text_snapshot parse parse_time)
       (snd (SaveNow (snapshot_text print print_time) io r fs)) (NewReputation t1 cfg)
     = (if io = SaveOk
        then (True, (NewReputation t1 cfg)\<lparr>rep_sources := rep_sources r, rep_dests := rep_dests r\<rparr>)
        else Load (text_snapshot parse parse_time) fs (NewReputation t1 cfg))"
proof -
  have "rep_kept (\<lambda>t. parse_time (print_time t) = Some t) (length evs) r"
    using rep_kept_events [OF rep_kept_New, of evs "\<lambda>t. parse_time (print_time t) = Some t"] times r by simp
  then have "decode_snapshot parse_time (snapshot_json print_time (rep_sources r, rep_dests r))
      = Some (Some (rep_sources r), Some (rep_dests r))"
    by (intro decode_snapshot_json rep_saved_kept [OF _ n])
  then have d: "text_snapshot parse parse_time (snapshot_text print print_time (rep_sources r, rep_dests r))
      = Some (Some (rep_sources r), Some (rep_dests r))"
    using json by (simp add: text_snapshot_def snapshot_text_def)
  have "rep_cfg r = cfg" "rep_cfg (NewReputation t1 cfg) = cfg"
    by (simp_all add: r rep_cfg_events NewReputation_def)
  with d path show ?thesis
    by (cases io) (simp_all add: Load_def SaveNow_def Let_def)
qed

text \<open>
  A source misbehaves once, the store is saved and loaded by the next process, where the
  source has its score.
\<close>

definition example_time_text :: string where
  "example_time_text = ''1970-01-01T00:00:00.000000007Z''"

definition example_store :: Reputation where
  "example_store = foldl rep_event_step (NewReputation 0 example_rep_config)
     [EvSource 7 ''10.0.0.1'' ''burstRate'']"

definition example_store_text :: string where
  "example_store_text = ''{\"sources\": {\"10.0.0.1\": {\"score\": 5, \"firstSeen\": \"'' @ example_time_text
     @ ''\", \"lastSeen\": \"'' @ example_time_text
     @ ''\", \"events\": {\"burstRate\": 1}}}, \"destinations\": {}}''"

theorem Load_SaveNow_witness:
  "SourceScore ''10.0.0.1'' (snd (Load
     (text_snapshot [example_store_text \<mapsto> snapshot_json (\<lambda>_. example_time_text)
        (rep_sources example_store, rep_dests example_store)] [example_time_text \<mapsto> 7])
     (snd (SaveNow (snapshot_text (\<lambda>_. example_store_text) (\<lambda>_. example_time_text)) SaveOk example_store Map.empty))
     (NewReputation 9 example_rep_config))) = 5"
  by (subst Load_SaveNow [OF example_store_def])
    (simp_all add: example_rep_config_def SourceScore_def example_store_def AddSource_def NewReputation_def
      Let_def newSource_def map_int_def clampScore_def go_int_def)

end
