(* ===== verification/Conn_Session.thy ===== *)
theory Conn_Session
  imports Conn_Policy
begin

text \<open>
  Whole sessions: the read loop ends whatever the client sends, each of its rounds is a step
  of the connection, and at its end every stream of the registry is closed.
\<close>

section \<open>The read loop\<close>

lemma readFrame_next:
  assumes "reader_ok f"
  obtains (none) res f' where "readFrame mx f = Some (res, f')" "\<forall>op p. res \<noteq> Frame op p"
    | (frame) op p f' where "readFrame mx f = Some (Frame op p, f')" "reader_ok f'"
        "length (fr_stream f') < length (fr_stream f)"
proof -
  obtain res rest where p: "parse_frame mx (fr_stream f) = Some (res, rest)"
    using parse_frame_total by blast
  from readFrame_parse [OF assms, of mx] obtain f' where
    f': "readFrame mx f = Some (res, f')" "\<forall>op p. res = Frame op p \<longrightarrow> reader_ok f' \<and> fr_stream f' = rest"
    by (auto simp: p)
  show ?thesis
  proof (cases "\<exists>op p. res = Frame op p")
    case True
    then obtain op q where res: "res = Frame op q" by blast
    have "length rest + 6 \<le> length (fr_stream f)"
      using parse_frame_Frame(7) [of mx "fr_stream f" op q rest] p res by simp
    with f' res show ?thesis by (intro frame [of op q f']) auto
  next
    case False
    with f'(1) show ?thesis by (intro none) auto
  qed
qed

text \<open>
  The loop returns whatever the others do, and what it has done is, together with their
  steps, a run of the connection. Each round takes at least six bytes off the stream.
\<close>

lemma readLoop_with_steps:
  assumes "reader_ok f" and others: "\<And>n d. (conn_step bcrypt)\<^sup>*\<^sup>* d (others n d)"
  shows "\<exists>c'. readLoop_with bcrypt es others n f c = Some c' \<and> (conn_step bcrypt)\<^sup>*\<^sup>* c c'"
  using assms(1)
proof (induction "length (fr_stream f)" arbitrary: f n c rule: less_induct)
  case less
  let ?c = "others n c"
  have o: "(conn_step bcrypt)\<^sup>*\<^sup>* c ?c" by (rule others)
  from less.prems show ?case
  proof (cases rule: readFrame_next [where mx = "maxPayloadSize (wc_config ?c)"])
    case (none res f')
    show ?thesis
    proof (cases res)
      case ReadError
      with none o show ?thesis by (simp add: readLoop_with.simps)
    next
      case (Refuse reason)
      have "conn_step bcrypt ?c (on_wire (sendWSClose reason) ?c)" by (rule step_refuse)
      with none Refuse rtranclp.rtrancl_into_rtrancl [OF o] show ?thesis
        by (simp add: readLoop_with.simps)
    qed (use none in simp)
  next
    case (frame op p f')
    obtain cont c1 where d: "dispatch_frame bcrypt (es n) op p n ?c = (cont, c1)" by fastforce
    have s: "(conn_step bcrypt)\<^sup>*\<^sup>* c c1"
      using o step_frame [OF d] by (rule rtranclp.rtrancl_into_rtrancl)
    show ?thesis
    proof (cases cont)
      case True
      from less.hyps [OF frame(3) frame(2), of "Suc n" c1] obtain c'
        where c': "readLoop_with bcrypt es others (Suc n) f' c1 = Some c'" "(conn_step bcrypt)\<^sup>*\<^sup>* c1 c'"
        by blast
      have "readLoop_with bcrypt es others n f c = Some c'"
        using frame(1) d True c'(1) by (subst readLoop_with.simps) simp
      with rtranclp_trans [OF s c'(2)] show ?thesis by blast
    next
      case False
      have "readLoop_with bcrypt es others n f c = Some c1"
        using frame(1) d False by (subst readLoop_with.simps) simp
      with s show ?thesis by blast
    qed
  qed
qed

lemma newFrameReader_reader [simp]: "reader_ok (newFrameReader conn)"
  using newFrameReader_ok [of conn] by (simp add: reader_ok_def) (simp add: newFrameReader_def readFrameBufSize_def)

section \<open>The end of a session\<close>

lemma fold_close_streams:
  assumes "\<forall>p \<in> set ps. p < length (wc_heap c)"
  shows "length (wc_heap (fold (\<lambda>p. stream_close p r) ps c)) = length (wc_heap c)
    \<and> (\<forall>q < length (wc_heap c). q \<in> set ps \<or> \<not> ws_isOpen (stream_at q c) \<longrightarrow>
         \<not> ws_isOpen (stream_at q (fold (\<lambda>p. stream_close p r) ps c)))"
  using assms
proof (induction ps arbitrary: c)
  case Nil
  then show ?case by simp
next
  case (Cons p ps)
  have p: "p < length (wc_heap c)" using Cons.prems by simp
  note f = stream_close_fields [OF p, of r]
  have "\<not> ws_isOpen (stream_at q (stream_close p r c))" if "q = p \<or> \<not> ws_isOpen (stream_at q c)"
    "q < length (wc_heap c)" for q
    using that f(1,10) by (cases "q = p") auto
  moreover have "\<forall>q \<in> set ps. q < length (wc_heap (stream_close p r c))"
    using Cons.prems f(9) by simp
  ultimately show ?case
    using Cons.IH [of "stream_close p r c"] f(9) by auto
qed

lemma closed_wire_stays:
  assumes "w_isClosed (wc_wire c)"
  shows "wc_wire (stream_close p r c) = wc_wire c" "wc_wire (twisp_close q r c) = wc_wire c"
  using assms by (simp_all add: stream_close_wire twisp_close_wire sendClosePacket_def)

lemma deleteAll_wire: "w_isClosed (wc_wire (deleteAllWispStreams ps qs c))"
proof -
  have 1: "w_isClosed (wc_wire d) \<Longrightarrow> w_isClosed (wc_wire (fold (\<lambda>p. stream_close p r) ps d))" for d r
    by (induction ps arbitrary: d) (simp_all add: closed_wire_stays)
  have 2: "w_isClosed (wc_wire d) \<Longrightarrow> w_isClosed (wc_wire (fold (\<lambda>q. twisp_close q r) qs d))" for d r
    by (induction qs arbitrary: d) (simp_all add: closed_wire_stays)
  have "w_isClosed (wire_close w)" for w by (simp add: wire_close_def)
  then show ?thesis
    by (simp add: deleteAllWispStreams_def forget_connection_def 1 2 split: option.split)
qed

lemma deleteAll_heap:
  "wc_heap (deleteAllWispStreams ps qs c)
     = wc_heap (fold (\<lambda>p. stream_close p closeReasonUnspecified) ps (on_wire wire_close c))"
proof -
  have "wc_heap (fold (\<lambda>q. twisp_close q r) qs d) = wc_heap d" for r d
    by (induction qs arbitrary: d) simp_all
  then show ?thesis
    by (simp add: deleteAllWispStreams_def forget_connection_def split: option.split)
qed

lemma deleteAll_closes:
  assumes inv: "conn_inv None c" and all: "set ps = ran (wc_streams c)"
  shows "(\<forall>s \<in> set (wc_heap (deleteAllWispStreams ps qs c)). \<not> ws_isOpen s)
    \<and> wc_streams (deleteAllWispStreams ps qs c) = Map.empty
    \<and> wc_streamCount (deleteAllWispStreams ps qs c) = 0"
proof -
  let ?d = "deleteAllWispStreams ps qs c"
  have reg: "registry_ok c" by (rule conn_invD(1) [OF inv])
  have ps: "\<forall>p \<in> set ps. p < length (wc_heap c)"
    using reg all by (auto simp: registry_ok_def ran_def)
  have cov: "q \<in> set ps \<or> \<not> ws_isOpen (stream_at q c)" if "q < length (wc_heap c)" for q
    using reg that all by (auto simp: registry_ok_def ran_def)
  have inv': "conn_inv None ?d" by (rule deleteAll_inv [OF inv ps])
  have "\<forall>p \<in> set ps. p < length (wc_heap (on_wire wire_close c))" using ps by simp
  from fold_close_streams [OF this, of closeReasonUnspecified] cov
  have shut: "\<not> ws_isOpen s" if "s \<in> set (wc_heap ?d)" for s
    using that by (auto simp: deleteAll_heap in_set_conv_nth)
  have "wc_streams ?d i = None" for i
  proof (rule ccontr)
    assume "wc_streams ?d i \<noteq> None"
    then obtain p where "p < length (wc_heap ?d)" "ws_isOpen (stream_at p ?d)"
      using conn_invD(1) [OF inv'] by (auto simp: registry_ok_def)
    then show False using shut [of "stream_at p ?d"] by simp
  qed
  then have "wc_streams ?d = Map.empty" by blast
  moreover from this have "wc_streamCount ?d = 0"
    using conn_invD(3) [OF inv'] by (simp add: count_ok_def go_int32_def)
  ultimately show ?thesis using shut by blast
qed

lemma v2Handshake_start:
  "wc_isV2 c \<Longrightarrow> v2Handshake bcrypt es order conn c = readLoop bcrypt es order conn (start_connection c)"
  by (simp add: v2Handshake_def start_connection_def)


text \<open>The streams in the order of their creation, as one possible walk of the registry.\<close>

definition creation_order :: "wispConnection \<Rightarrow> nat list \<times> nat list" where
  "creation_order d = (filter (\<lambda>p. ws_isOpen (stream_at p d)) [0..<length (wc_heap d)], [])"

lemma creation_order_all: "registry_ok d \<Longrightarrow> set (fst (creation_order d)) = ran (wc_streams d)"
  by (auto simp: creation_order_def registry_ok_def ran_def)

text \<open>
  A session in which the client asks for a stream and the goroutine of the stream dials while
  the loop waits for the next frame.
\<close>

definition dial_meanwhile :: "nat \<Rightarrow> wispConnection \<Rightarrow> wispConnection" where
  "dial_meanwhile n d =
     (if ConnectTask 0 streamTypeTCP ''80'' ''a.b'' \<in> set (wc_tasks d)
      then connect_start example_env 0 streamTypeTCP ''80'' ''a.b''
             (end_task (ConnectTask 0 streamTypeTCP ''80'' ''a.b'') d)
      else d)"

lemma dial_meanwhile_steps: "(conn_step bcrypt)\<^sup>*\<^sup>* d (dial_meanwhile n d)"
  by (auto simp: dial_meanwhile_def intro!: r_into_rtranclp [of "conn_step bcrypt"] step_connect)


text \<open>
  The sequential read loop is one of the runs of the transition system: all the invariants
  proved for reachable states hold when it returns, before the final clean-up.
\<close>

theorem readLoop_refines:
  assumes "reader_ok f"
  shows "\<exists>c'. readLoop_from bcrypt es n f c = Some c' \<and> (conn_step bcrypt)\<^sup>*\<^sup>* c c'"
  unfolding readLoop_from_def by (rule readLoop_with_steps [OF assms]) (rule rtranclp.rtrancl_refl)

theorem readLoop_refines_witness:
  "\<exists>c'. readLoop_from (\<lambda>_ _. False) (\<lambda>_. 0) 0 example_reader example_open = Some c'
     \<and> (conn_step (\<lambda>_ _. False))\<^sup>*\<^sup>* example_open c'"
  by (rule readLoop_refines [OF example_readers(1)])

end
