(* ===== verification/Conn_Data.thy ===== *)
theory Conn_Data
  imports Conn_Session
begin

text \<open>
  What a stream does with its data: the credit of its client, the order in which the target
  receives the bytes, what closing it does, and the slot a dial holds.
\<close>

section \<open>Credit\<close>

lemma upd_stream_same:
  assumes "f (stream_at p c) = stream_at p c"
  shows "upd_stream p f c = c"
  using assms by (simp add: upd_stream_def)

lemma use_credit_some:
  assumes "p < length (wc_heap c)" and "ws_bufferRemaining (stream_at p c) = B" and "k < unat B"
  shows "(use_credit i p ^^ k) c = upd_stream p (\<lambda>s. s\<lparr>ws_bufferRemaining := B - of_nat k\<rparr>) c"
  using assms(3)
proof (induction k)
  case 0
  show ?case using assms(2) by (simp add: upd_stream_same)
next
  case (Suc k)
  let ?c = "upd_stream p (\<lambda>s. s\<lparr>ws_bufferRemaining := B - of_nat k\<rparr>) c"
  have small: "unat (of_nat (Suc k) :: u32) = Suc k"
  proof -
    have "unat B < 2 ^ LENGTH(32)" by (rule unsigned_less)
    with Suc.prems show ?thesis by (simp add: unsigned_of_nat take_bit_nat_eq_self del: of_nat_Suc)
  qed
  have "B - of_nat k - 1 \<noteq> 0"
  proof
    assume "B - of_nat k - 1 = 0"
    then have "B = of_nat (Suc k)" by (simp add: algebra_simps)
    with small Suc.prems show False by simp
  qed
  then have "use_credit i p ?c = upd_stream p (\<lambda>s. s\<lparr>ws_bufferRemaining := B - of_nat k - 1\<rparr>) ?c"
    using assms(1) by (simp add: use_credit_def) (simp add: upd_stream_def)
  then show ?case
    using Suc assms(1) by (simp add: upd_stream_def algebra_simps)
qed

text \<open>
  The credit of a stream is renewed in time and only then: after the initial credit of
  \<open>BufferRemainingLength\<close> packets, the last packet of the credit sends exactly one CONTINUE
  with the full credit again, and no earlier packet sends anything.
\<close>

theorem credit_renewal:
  assumes "p < length (wc_heap c)" and "0 < cfg_BufferRemainingLength (wc_config c)"
    and "ws_bufferRemaining (stream_at p c) = cfg_BufferRemainingLength (wc_config c)"
  shows "(use_credit i p ^^ unat (cfg_BufferRemainingLength (wc_config c))) c =
      on_wire (sendPacket i (cfg_BufferRemainingLength (wc_config c))) c
    \<and> (\<forall>k < unat (cfg_BufferRemainingLength (wc_config c)). wc_wire ((use_credit i p ^^ k) c) = wc_wire c)"
proof -
  let ?B = "cfg_BufferRemainingLength (wc_config c)"
  obtain n where n: "unat ?B = Suc n"
    using assms(2) by (metis gr0_implies_Suc unat_gt_0 word_neq_0_conv)
  let ?c = "upd_stream p (\<lambda>s. s\<lparr>ws_bufferRemaining := ?B - of_nat n\<rparr>) c"
  have "?B = of_nat (Suc n)" by (simp flip: n)
  then have last: "?B - of_nat n - 1 = 0" by simp
  have "(use_credit i p ^^ unat ?B) c = use_credit i p ?c"
    using use_credit_some [OF assms(1,3), of n i] n by simp
  also have "\<dots> = on_wire (sendPacket i ?B) c"
  proof -
    have "upd_stream p (\<lambda>s. s\<lparr>ws_bufferRemaining := ?B\<rparr>) ?c = c"
      using assms(1,3) upd_stream_same [where f = "\<lambda>s. s\<lparr>ws_bufferRemaining := ?B\<rparr>" and p = p and c = c]
      by (simp add: upd_stream_def)
    then show ?thesis using assms(1) last by (simp add: use_credit_def)
  qed
  finally show ?thesis
    using use_credit_some [OF assms(1,3)] by simp
qed

theorem credit_renewal_witness:
  "(use_credit 5 0 ^^ unat (32768 :: u32)) example_dialing = on_wire (sendPacket 5 32768) example_dialing"
proof -
  have "cfg_BufferRemainingLength (wc_config example_dialing) = 32768"
    by (simp add: example_dialing_shape DefaultConfig_def)
  then show ?thesis
    using credit_renewal [of 0 example_dialing 5, THEN conjunct1]
    by (simp add: example_dialing_shape DefaultConfig_def)
qed

section \<open>The end of a stream\<close>

lemma stream_close_registry:
  assumes "p < length (wc_heap c)" and "ws_isOpen (stream_at p c)"
  shows "wc_streams (stream_close p r c) = (wc_streams c)(ws_streamId (stream_at p c) := None)"
  using quiet_fields(2) [OF stream_close_shape [OF assms, of r]]
  by (simp add: shut_stream_def deleteWispStream_def)

text \<open>
  C19: Closing a stream is final and clean: of all the calls of \<open>close\<close> (the client's, the
  reader's, the writer's, the end of the connection) the first one takes effect. It frees
  the id, closes the connection to the target, wakes whoever waits for the dial, and sends
  the client exactly one CLOSE with its reason; every later one does nothing.
\<close>

theorem stream_close_final:
  assumes "reachable bcrypt (newConnection cfg g dns v2 ip n nc) c"
    and "p < length (wc_heap c)" and "ws_isOpen (stream_at p c)"
  shows "wc_streams (stream_close p r c) = (wc_streams c)(ws_streamId (stream_at p c) := None)
    \<and> ws_connReadyDone (stream_at p (stream_close p r c))
    \<and> ws_conn (stream_at p (stream_close p r c)) = map_option nc_Close (ws_conn (stream_at p c))
    \<and> wc_wire (stream_close p r c) = sendClosePacket (ws_streamId (stream_at p c)) r (wc_wire c)
    \<and> stream_close p r' (stream_close p r c) = stream_close p r c"
proof -
  note stream_close_registry [OF assms(2,3), of r]
  moreover have "stream_at p (stream_close p r c) = shut (stream_at p c)"
    using stream_close_fields(1) [OF assms(2)] assms(2,3) by simp
  ultimately show ?thesis
    using assms(3) by (simp add: stream_close_wire)
qed

theorem stream_close_final_witness:
  "wc_streams (stream_close 0 closeReasonVoluntary example_dialing) = (wc_streams example_dialing)(5 := None)"
  using stream_close_final [OF example_dialing_reachable [unfolded example_conn_def], of 0 closeReasonVoluntary,
      THEN conjunct1]
  by (simp add: example_dialing_shape newStream_def)

section \<open>The bytes of a stream\<close>

text \<open>
  A stream whose target accepts everything: \<open>sent\<close> is what the target has received so far.
\<close>

definition connected :: "u32 \<Rightarrow> nat \<Rightarrow> bytes \<Rightarrow> wispConnection \<Rightarrow> bool" where
  "connected i p sent c =
     (conn_inv None c \<and> wc_streams c i = Some p \<and> ws_connReadyDone (stream_at p c)
      \<and> ws_conn (stream_at p c) = Some \<lparr>nc_sent = sent, nc_outcomes = [], nc_closed = False\<rparr>)"

lemma nc_Write_accepts:
  "nc_Write d \<lparr>nc_sent = sent, nc_outcomes = [], nc_closed = False\<rparr> =
     (True, \<lparr>nc_sent = sent @ d, nc_outcomes = [], nc_closed = False\<rparr>)"
  by (simp add: nc_Write_def)

lemma lookup_stream_streams [simp]: "wc_streams (snd (lookup_stream i c)) = wc_streams c"
  by (simp add: lookup_stream_def split: prod.split option.split)

lemma lookup_stream_globals [simp]: "wc_globals (snd (lookup_stream i c)) = wc_globals c"
  by (simp add: lookup_stream_def split: prod.split option.split)

lemma use_credit_keeps:
  assumes "p < length (wc_heap c)"
  shows "wc_streams (use_credit i p c) = wc_streams c"
    "ws_conn (stream_at p (use_credit i p c)) = ws_conn (stream_at p c)"
    "ws_connReadyDone (stream_at p (use_credit i p c)) = ws_connReadyDone (stream_at p c)"
  using assms by (simp_all add: use_credit_def)

lemma connectedD:
  assumes "connected i p sent c"
  shows "conn_inv None c" "wc_streams c i = Some p" "ws_connReadyDone (stream_at p c)"
    "ws_conn (stream_at p c) = Some \<lparr>nc_sent = sent, nc_outcomes = [], nc_closed = False\<rparr>"
    "p < length (wc_heap c)" "ws_isOpen (stream_at p c)" "stream_ok (stream_at p c)"
  using assms by (auto simp: connected_def conn_inv_def registry_ok_def)

lemma connected_use_credit:
  assumes "connected i p sent c"
  shows "connected i p sent (use_credit i p c)"
  using use_credit_keeps [OF connectedD(5) [OF assms]]
    use_credit_inv(1) [OF connectedD(1) [OF assms] connectedD(5) [OF assms]] connectedD(2-4) [OF assms]
  by (simp add: connected_def)

lemma connected_write:
  assumes "connected i p sent c"
  shows "connected i p (sent @ d)
     (upd_stream p (\<lambda>s. s\<lparr>ws_conn := Some \<lparr>nc_sent = sent @ d, nc_outcomes = [], nc_closed = False\<rparr>\<rparr>) c)"
proof -
  have p: "p < length (wc_heap c)" using assms by (auto simp: connected_def conn_inv_def registry_ok_def)
  have sok: "stream_ok (stream_at p c)" using assms p by (simp add: connected_def conn_inv_def)
  show ?thesis
    using assms p sok
    by (auto simp: connected_def stream_ok_def intro!: upd_stream_quiet)
qed

lemma connected_quiet: "quiet c c' \<Longrightarrow> connected i p sent c' = connected i p sent c"
  using quiet_fields quiet_inv by (simp add: connected_def)

text \<open>What no packet of the stream changes unless it uses up a credit.\<close>

definition same_credit :: "nat \<Rightarrow> wispConnection \<Rightarrow> wispConnection \<Rightarrow> bool" where
  "same_credit p c c' =
     (ws_bufferRemaining (stream_at p c') = ws_bufferRemaining (stream_at p c)
      \<and> ws_streamType (stream_at p c') = ws_streamType (stream_at p c)
      \<and> wc_wire c' = wc_wire c \<and> wc_config c' = wc_config c
      \<and> wc_streamConfirm c' = wc_streamConfirm c \<and> wc_isV2 c' = wc_isV2 c
      \<and> wc_handshakeDone c' = wc_handshakeDone c)"

lemma same_credit_trans: "same_credit p a b \<Longrightarrow> same_credit p b c \<Longrightarrow> same_credit p a c"
  by (simp add: same_credit_def)

lemma same_credit_lookup: "same_credit p c (snd (lookup_stream i c))"
  by (simp add: same_credit_def lookup_stream_def split: prod.split option.split)

lemma connected_data_shape:
  assumes "connected i p sent c"
  obtains c2 where "connected i p (sent @ payload) c2" and "same_credit p c c2"
    and "snd (handleDataPacket i payload b c)
      = (if ws_streamType (stream_at p c2) = streamTypeTCP then use_credit i p c2 else c2)"
proof -
  obtain sp c1 where l: "lookup_stream i c = (sp, c1)" by fastforce
  note i = connectedD(1,2) [OF assms]
  note l' = lookup_stream_inv [OF i(1) l]
  have c1: "connected i p sent c1" and s1: "same_credit p c c1"
    using assms l' lookup_stream_streams [of i c] same_credit_lookup [of p c i] l
    by (simp_all add: connected_def)
  note D = connectedD [OF c1]
  note w = connected_write [OF c1, of payload]
  show thesis
  proof (cases "ws_streamType (stream_at p c1) = streamTypeTCP \<and> ws_ingressActive (stream_at p c1)")
    case True
    let ?c2 = "releaseIngressJob \<lparr>ij_payload = payload, ij_bufp = Some b, ij_pool = ingressPoolWS\<rparr>
      (upd_stream p (\<lambda>s. s\<lparr>ws_conn := Some \<lparr>nc_sent = sent @ payload, nc_outcomes = [], nc_closed = False\<rparr>\<rparr>) c1)"
    have "same_credit p c1 ?c2"
      using D(5) by (simp add: same_credit_def releaseIngressJob_def)
    moreover have "snd (handleDataPacket i payload b c) = use_credit i p ?c2"
      using l l'(3) i D True queueIngressOwned_result [OF D(5) D(7) D(6) _ D(4), of payload b]
      by (simp add: handleDataPacket_def deliver_queued_def nc_Write_accepts)
    moreover have "connected i p (sent @ payload) ?c2"
      using connected_quiet [OF quiet_ops(6)] w by simp
    ultimately show thesis
      using that [of ?c2] same_credit_trans [OF s1] True by (simp add: same_credit_def)
  next
    case False
    let ?c2 = "upd_stream p (\<lambda>s. s\<lparr>ws_conn := Some \<lparr>nc_sent = sent @ payload, nc_outcomes = [], nc_closed = False\<rparr>\<rparr>) c1"
    have "same_credit p c1 ?c2" using D(5) by (simp add: same_credit_def)
    moreover have "snd (handleDataPacket i payload b c)
        = (if ws_streamType (stream_at p ?c2) = streamTypeTCP then use_credit i p ?c2 else ?c2)"
      using l l'(3) i D(3,5,6) False
      by (auto simp: handleDataPacket_def deliver_direct_def stream_write_parts [OF D(4)] nc_Write_accepts)
    ultimately show thesis
      using that [of ?c2] same_credit_trans [OF s1] w by blast
  qed
qed

lemma connected_data:
  assumes "connected i p sent c"
  shows "connected i p (sent @ payload) (snd (handleDataPacket i payload b c))"
proof -
  obtain c2 where "connected i p (sent @ payload) c2"
    and "snd (handleDataPacket i payload b c)
      = (if ws_streamType (stream_at p c2) = streamTypeTCP then use_credit i p c2 else c2)"
    using connected_data_shape [OF assms] .
  then show ?thesis using connected_use_credit by simp
qed

text \<open>The DATA packets of one stream, each with the number of its buffer, one after the other.\<close>

definition data_packets :: "u32 \<Rightarrow> (bytes \<times> nat) list \<Rightarrow> wispConnection \<Rightarrow> wispConnection" where
  "data_packets i xs c = fold (\<lambda>(payload, b) c. snd (handleDataPacket i payload b c)) xs c"

lemma data_packets_simps [simp]:
  "data_packets i [] c = c"
  "data_packets i ((d, b) # xs) c = data_packets i xs (snd (handleDataPacket i d b c))"
  by (simp_all add: data_packets_def)

lemma connected_packets:
  "connected i p sent c \<Longrightarrow> connected i p (sent @ concat (map fst xs)) (data_packets i xs c)"
proof (induction xs arbitrary: sent c)
  case (Cons x xs)
  obtain d b where x: "x = (d, b)" by fastforce
  from Cons.IH [OF connected_data [OF Cons.prems, of d b]] show ?case by (simp add: x)
qed simp

text \<open>A stream that is not signalled ready yet, with what it has kept for its target.\<close>

definition connecting ::
    "u32 \<Rightarrow> nat \<Rightarrow> task \<Rightarrow> go_conn option \<Rightarrow> bytes list \<Rightarrow> wispConnection \<Rightarrow> bool" where
  "connecting i p t k ds c =
     (conn_inv None c \<and> wc_streams c i = Some p \<and> t \<in> set (wc_tasks c)
      \<and> \<not> ws_connReadyDone (stream_at p c) \<and> ws_conn (stream_at p c) = k
      \<and> ws_pendingData (stream_at p c) = ds
      \<and> ws_pendingBytes (stream_at p c) = int (length (concat ds)))"

lemma connectingD:
  assumes "connecting i p t k ds c"
  shows "conn_inv None c" "wc_streams c i = Some p" "t \<in> set (wc_tasks c)"
    "\<not> ws_connReadyDone (stream_at p c)" "ws_conn (stream_at p c) = k"
    "ws_pendingData (stream_at p c) = ds" "ws_pendingBytes (stream_at p c) = int (length (concat ds))"
    "p < length (wc_heap c)" "ws_isOpen (stream_at p c)" "stream_ok (stream_at p c)"
    "ws_streamId (stream_at p c) = i"
  using assms by (auto simp: connecting_def conn_inv_def registry_ok_def)

lemma connecting_data:
  assumes "connecting i p t k ds c" and "int (length (concat (ds @ [d]))) \<le> maxPendingBytes"
  shows "connecting i p t k (ds @ [d]) (snd (handleDataPacket i d b c))"
    and "wc_globals (snd (handleDataPacket i d b c)) = wc_globals c"
    and "same_credit p c (snd (handleDataPacket i d b c))"
proof -
  note D = connectingD [OF assms(1)]
  obtain sp c1 where l: "lookup_stream i c = (sp, c1)" by fastforce
  note l' = lookup_stream_inv [OF D(1) l]
  have st: "wc_streams c1 i = Some p" using lookup_stream_streams [of i c] l D(2) by simp
  have b: "snd (handleDataPacket i d b c) = buffer_data p d c1"
    using l l'(2,3) D by (simp add: handleDataPacket_def)
  have "buffer_data p d c1 = upd_stream p (\<lambda>s. s\<lparr>ws_pendingData := ws_pendingData s @ [d],
             ws_pendingBytes := ws_pendingBytes s + int (length d)\<rparr>) c1"
    using D(7) l'(2) assms(2) by (simp add: buffer_data_def)
  then show "connecting i p t k (ds @ [d]) (snd (handleDataPacket i d b c))"
    and "wc_globals (snd (handleDataPacket i d b c)) = wc_globals c"
    and "same_credit p c (snd (handleDataPacket i d b c))"
    using b same_credit_lookup [of p c i] buffer_data_inv [OF l'(1), of p d] l' st D lookup_stream_globals [of i c] l
    by (simp_all add: connecting_def same_credit_def)
qed

lemma connecting_packets:
  assumes "connecting i p t k ds c" and "int (length (concat (ds @ map fst xs))) \<le> maxPendingBytes"
  shows "connecting i p t k (ds @ map fst xs) (data_packets i xs c)
    \<and> wc_globals (data_packets i xs c) = wc_globals c \<and> same_credit p c (data_packets i xs c)"
  using assms
proof (induction xs arbitrary: ds c)
  case (Cons x xs)
  obtain d b where x: "x = (d, b)" by fastforce
  have "int (length (concat (ds @ [d]))) \<le> maxPendingBytes"
    using Cons.prems(2) x by simp
  note step = connecting_data [OF Cons.prems(1) this, of b]
  from Cons.IH [OF step(1)] step(2) same_credit_trans [OF step(3)] Cons.prems(2) x show ?case
    by simp
qed (simp add: same_credit_def)

lemma open_registered:
  assumes "conn_inv q c" and "p < length (wc_heap c)" and "ws_isOpen (stream_at p c)"
  shows "wc_streams c (ws_streamId (stream_at p c)) = Some p"
  using conn_invD(1) [OF assms(1)] assms(2,3) by (simp add: registry_ok_def)

definition no_detector :: "wispConnection \<Rightarrow> bool" where
  "no_detector c = (\<forall>g. wc_globals c = Some g \<longrightarrow> g_Signature g = None)"

text \<open>A dial that succeeds and matches no attack pattern.\<close>

lemma connect_dialed_accepted:
  assumes "no_detector c" and "p < length (wc_heap c)"
  shows "wc_heap (connect_dialed e p ty h a (Inr k) c) = (wc_heap c)[p := (stream_at p c)\<lparr>ws_conn := Some k,
      ws_pendingData := [], ws_pendingBytes := 0\<rparr>]"
    and "wc_tasks (connect_dialed e p ty h a (Inr k) c)
      = wc_tasks c @ [FlushTask p (ws_pendingData (stream_at p c))]"
    and "\<not> wc_streamConfirm c \<Longrightarrow> same_credit p c (connect_dialed e p ty h a (Inr k) c)"
proof -
  let ?c1 = "release_syn a (upd_stream p (\<lambda>s. s\<lparr>ws_conn := Some k\<rparr>) c)"
  let ?b = "ty = streamTypeTCP"
  define b where "b = ?b"
  have rel: "wc_streamConfirm (release_syn a d) = wc_streamConfirm d" "wc_heap (release_syn a d) = wc_heap d"
    "wc_wire (release_syn a d) = wc_wire d" "wc_config (release_syn a d) = wc_config d"
    "wc_tasks (release_syn a d) = wc_tasks d" "wc_isV2 (release_syn a d) = wc_isV2 d"
    "wc_handshakeDone (release_syn a d) = wc_handshakeDone d" for d
    by (simp_all add: release_syn_def split: option.splits)
  have "no_detector ?c1"
    using assms(1) by (auto simp: no_detector_def release_syn_def split: option.splits)
  then have "record_dial (e_now e) ty h port ok ?c1 = (False, ?c1)" for port ok
    by (auto simp: record_dial_def no_detector_def split: option.split)
  then have eq: "connect_dialed e p ty h a (Inr k) c =
    (let c3 = (if wc_streamConfirm ?c1 \<and> b
         then on_wire (sendPacket (ws_streamId (stream_at p ?c1)) (ws_bufferRemaining (stream_at p ?c1))) ?c1
         else ?c1)
     in spawn (FlushTask p (ws_pendingData (stream_at p c3)))
          (upd_stream p (\<lambda>s. s\<lparr>ws_pendingData := [], ws_pendingBytes := 0\<rparr>) c3))"
    by (simp add: connect_dialed_def Let_def b_def)
  show "wc_heap (connect_dialed e p ty h a (Inr k) c) = (wc_heap c)[p := (stream_at p c)\<lparr>ws_conn := Some k,
      ws_pendingData := [], ws_pendingBytes := 0\<rparr>]"
    and "wc_tasks (connect_dialed e p ty h a (Inr k) c)
      = wc_tasks c @ [FlushTask p (ws_pendingData (stream_at p c))]"
    and "\<not> wc_streamConfirm c \<Longrightarrow> same_credit p c (connect_dialed e p ty h a (Inr k) c)"
    unfolding eq using assms(2) by (simp_all add: Let_def rel same_credit_def spawn_def)
qed

lemma connect_dialed_connecting:
  assumes c: "connecting i p (DialTask p ty h pt a) None ds c" and "no_detector c"
  shows "connecting i p (FlushTask p ds) (Some (nc_fresh [])) []
     (connect_dialed e p ty h a (Inr (nc_fresh [])) (end_task (DialTask p ty h pt a) c))"
    (is "connecting i p _ _ [] ?d")
proof -
  note D = connectingD [OF c]
  have c0: "no_detector (end_task (DialTask p ty h pt a) c)"
    "p < length (wc_heap (end_task (DialTask p ty h pt a) c))"
    using assms(2) D(8) by (simp_all add: no_detector_def end_task_def)
  have inv: "conn_inv None ?d"
    by (rule conn_step_inv [OF step_dialed [OF D(3)] D(1)])
  note f = connect_dialed_accepted(1,2) [OF c0, of e ty h a "nc_fresh []"]
  have "wc_streams ?d i = Some p"
    using open_registered [OF inv, of p] D f(1) by simp
  then show ?thesis
    using inv D f unfolding connecting_def by simp
qed

lemma connect_flush_accepts:
  assumes "p < length (wc_heap c)" and "ws_isOpen (stream_at p c)"
    and "ws_conn (stream_at p c) = Some \<lparr>nc_sent = sent, nc_outcomes = [], nc_closed = False\<rparr>"
  shows "connect_flush p ds c =
    (let c1 = upd_stream p (\<lambda>s. s\<lparr>ws_conn := Some \<lparr>nc_sent = sent @ concat ds, nc_outcomes = [],
                 nc_closed = False\<rparr>\<rparr>) c
     in spawn (ReadyTask p) (if ws_streamType (stream_at p c) = streamTypeTCP
          then upd_stream p (\<lambda>s. s\<lparr>ws_ingressActive := True\<rparr>) c1 else c1))"
  using assms
proof (induction ds arbitrary: c sent)
  case Nil
  then show ?case
    using upd_stream_same [where p = p and c = c] by (simp add: Let_def)
next
  case (Cons d ds)
  let ?c1 = "upd_stream p (\<lambda>s. s\<lparr>ws_conn := Some \<lparr>nc_sent = sent @ d, nc_outcomes = [],
                 nc_closed = False\<rparr>\<rparr>) c"
  have "connect_flush p (d # ds) c = connect_flush p ds ?c1"
    using Cons.prems by (simp add: stream_write_parts [OF Cons.prems(3)] nc_Write_accepts)
  also have "\<dots> = (let c1 = upd_stream p (\<lambda>s. s\<lparr>ws_conn := Some \<lparr>nc_sent = (sent @ d) @ concat ds,
         nc_outcomes = [], nc_closed = False\<rparr>\<rparr>) ?c1
     in spawn (ReadyTask p) (if ws_streamType (stream_at p ?c1) = streamTypeTCP
          then upd_stream p (\<lambda>s. s\<lparr>ws_ingressActive := True\<rparr>) c1 else c1))"
    by (rule Cons.IH) (use Cons.prems in simp_all)
  finally show ?case
    using Cons.prems(1) by (simp add: upd_stream_def Let_def)
qed

lemma connecting_flush:
  assumes c: "connecting i p (FlushTask p ds) (Some (nc_fresh [])) kept c"
  shows "connecting i p (ReadyTask p) (Some \<lparr>nc_sent = concat ds, nc_outcomes = [], nc_closed = False\<rparr>) kept
     (connect_flush p ds (end_task (FlushTask p ds) c))" (is "connecting i p _ _ _ ?d")
proof -
  note D = connectingD [OF c]
  let ?e = "end_task (FlushTask p ds) c"
  have inv: "conn_inv None ?d"
    by (rule conn_step_inv [OF step_flush [OF D(3)] D(1)])
  have d: "?d = (let c1 = upd_stream p (\<lambda>s. s\<lparr>ws_conn := Some \<lparr>nc_sent = concat ds, nc_outcomes = [],
                 nc_closed = False\<rparr>\<rparr>) ?e
     in spawn (ReadyTask p) (if ws_streamType (stream_at p ?e) = streamTypeTCP
          then upd_stream p (\<lambda>s. s\<lparr>ws_ingressActive := True\<rparr>) c1 else c1))"
    using connect_flush_accepts [of p ?e "[]" ds] D by (simp add: nc_fresh_def)
  have "wc_streams ?d i = Some p"
    using open_registered [OF inv, of p] D by (simp add: d Let_def)
  then show ?thesis
    using inv D unfolding connecting_def by (simp add: d Let_def)
qed

lemma connecting_ready:
  assumes c: "connecting i p (ReadyTask p) (Some \<lparr>nc_sent = sent, nc_outcomes = [], nc_closed = False\<rparr>) kept c"
  shows "connected i p sent (connect_ready p (end_task (ReadyTask p) c))" (is "connected i p sent ?d")
proof -
  note D = connectingD [OF c]
  have inv: "conn_inv None ?d"
    by (rule conn_step_inv [OF step_ready [OF D(3)] D(1)])
  have "wc_streams ?d i = Some p"
    using open_registered [OF inv, of p] D by (simp add: connect_ready_def signalConnReady_def)
  then show ?thesis
    using inv D unfolding connected_def by (simp add: connect_ready_def signalConnReady_def)
qed

text \<open>
  The life of a stream that is dialled while data comes in: \<open>before\<close> arrives before the
  dial succeeds, \<open>between\<close> after \<open>handleConnect\<close> has taken over the data kept so far and
  before it signals that the stream is ready, \<open>after\<close> later.
\<close>

definition dial_with_data ::
    "env \<Rightarrow> u32 \<Rightarrow> nat \<Rightarrow> u8 \<Rightarrow> string \<Rightarrow> string \<Rightarrow> bool \<Rightarrow> (bytes \<times> nat) list \<Rightarrow> (bytes \<times> nat) list
      \<Rightarrow> (bytes \<times> nat) list \<Rightarrow> wispConnection \<Rightarrow> wispConnection" where
  "dial_with_data e i p ty h pt a before between after c =
     (let c1 = data_packets i before c;
          c2 = connect_dialed e p ty h a (Inr (nc_fresh [])) (end_task (DialTask p ty h pt a) c1);
          c3 = data_packets i between c2;
          c4 = connect_flush p (map fst before) (end_task (FlushTask p (map fst before)) c3);
          c5 = connect_ready p (end_task (ReadyTask p) c4)
      in data_packets i after c5)"

definition total_bytes :: "(bytes \<times> nat) list \<Rightarrow> int" where
  "total_bytes xs = int (length (concat (map fst xs)))"

lemma dial_with_data_sent:
  assumes "connecting i p (DialTask p ty h pt a) None [] c"
    and "no_detector c"
    and "total_bytes before \<le> maxPendingBytes" and "total_bytes between \<le> maxPendingBytes"
  shows "connected i p (concat (map fst (before @ after)))
     (dial_with_data e i p ty h pt a before between after c)"
proof -
  have 1: "connecting i p (DialTask p ty h pt a) None (map fst before) (data_packets i before c)"
    (is "connecting _ _ _ _ _ ?c1")
    using connecting_packets [OF assms(1), of before] assms(3) by (simp add: total_bytes_def)
  have "no_detector ?c1"
    using connecting_packets [OF assms(1), of before] assms(2,3)
    by (simp add: total_bytes_def no_detector_def)
  note 2 = connect_dialed_connecting [OF 1 this, of e]
  have "int (length (concat ([] @ map fst between))) \<le> maxPendingBytes"
    using assms(4) by (simp add: total_bytes_def)
  note 3 = connecting_packets [OF 2 this, THEN conjunct1]
  note 4 = connecting_ready [OF connecting_flush [OF 3]]
  from connected_packets [OF 4, of after] show ?thesis
    by (simp add: dial_with_data_def Let_def)
qed

lemma dialing_connecting:
  assumes "reachable bcrypt (newConnection cfg g dns v2 ip n nc) c"
    and "wc_streams c i = Some p" and "DialTask p ty h pt a \<in> set (wc_tasks c)"
    and "ws_pendingData (stream_at p c) = []" and "ws_pendingBytes (stream_at p c) = 0"
    and "ws_conn (stream_at p c) = None"
  shows "connecting i p (DialTask p ty h pt a) None [] c"
proof -
  have inv: "conn_inv None c" by (rule reachable_inv [OF assms(1)])
  have "stream_of_task (wc_heap c) (DialTask p ty h pt a)"
    by (rule conn_invD(5) [OF inv assms(3)])
  moreover have "ws_isOpen (stream_at p c)"
    using conn_invD(1) [OF inv] assms(2) by (simp add: registry_ok_def)
  ultimately show ?thesis
    using inv assms(2-6) by (simp add: connecting_def stream_of_task_def)
qed

text \<open>
  C6: Client data is not lost, duplicated or reordered by a dial: what a stream received
  before its target answered and what it receives after it is ready reaches the target byte
  by byte in the order of the packets, when the target accepts all writes and no packet
  arrives in the short time between the take-over of the kept data and the signal.
\<close>

theorem data_in_order:
  assumes "reachable bcrypt (newConnection cfg g dns v2 ip n nc) c"
    and "wc_streams c i = Some p" and "DialTask p ty h pt a \<in> set (wc_tasks c)"
    and "ws_pendingData (stream_at p c) = []" and "ws_pendingBytes (stream_at p c) = 0"
    and "ws_conn (stream_at p c) = None" and "no_detector c"
    and "total_bytes before \<le> maxPendingBytes"
  shows "\<exists>k. ws_conn (stream_at p (dial_with_data e i p ty h pt a before [] after c)) = Some k
    \<and> nc_sent k = concat (map fst before) @ concat (map fst after)"
  using connectedD(4) [OF dial_with_data_sent [OF dialing_connecting [OF assms(1-6)] assms(7,8)]]
  by (simp add: total_bytes_def maxPendingBytes_def)

theorem data_in_order_witness:
  "\<exists>k. ws_conn (stream_at 0 (dial_with_data example_env 5 0 streamTypeTCP ''a.b'' ''80'' False
      [([1, 2], 0), ([3], 1)] [] [([4], 2)] example_dialing)) = Some k
    \<and> nc_sent k = concat (map fst [([1, 2], 0 :: nat), ([3], 1)]) @ concat (map fst [([4], 2 :: nat)])"
  by (rule data_in_order [OF example_dialing_reachable [unfolded example_conn_def]])
    (simp_all add: example_dialing_shape newStream_def no_detector_def total_bytes_def maxPendingBytes_def)

text \<open>
  Data that arrives while the data kept so far is being written is lost: a packet
  handled after \<open>handleConnect\<close> has taken over \<open>pendingData\<close> (wisp-stream.go:269-273) and
  before it signals \<open>connReady\<close> (289) is appended to the fresh \<open>pendingData\<close>, which
  nothing reads again; the target receives the packets before it and the packets after it.
\<close>

theorem data_lost_while_flushing:
  assumes "reachable bcrypt (newConnection cfg g dns v2 ip n nc) c"
    and "wc_streams c i = Some p" and "DialTask p ty h pt a \<in> set (wc_tasks c)"
    and "ws_pendingData (stream_at p c) = []" and "ws_pendingBytes (stream_at p c) = 0"
    and "ws_conn (stream_at p c) = None" and "no_detector c"
    and "total_bytes before \<le> maxPendingBytes" and "total_bytes between \<le> maxPendingBytes"
  shows "\<exists>k. ws_conn (stream_at p (dial_with_data e i p ty h pt a before between after c)) = Some k
    \<and> nc_sent k = concat (map fst before) @ concat (map fst after)"
  using connectedD(4) [OF dial_with_data_sent [OF dialing_connecting [OF assms(1-6)] assms(7-9)]]
  by simp

theorem data_lost_while_flushing_witness:
  "\<exists>k. ws_conn (stream_at 0 (dial_with_data example_env 5 0 streamTypeTCP ''a.b'' ''80'' False
      [([1, 2], 0)] [([3], 1)] [([4], 2)] example_dialing)) = Some k
    \<and> nc_sent k = concat (map fst [([1, 2], 0 :: nat)]) @ concat (map fst [([4], 2 :: nat)])"
  by (rule data_lost_while_flushing [OF example_dialing_reachable [unfolded example_conn_def]])
    (simp_all add: example_dialing_shape newStream_def no_detector_def total_bytes_def maxPendingBytes_def)

section \<open>Credit and early data\<close>

lemma connect_dialed_credit:
  assumes c: "connecting i p (DialTask p ty h pt a) None ds c" and "no_detector c"
    and "\<not> wc_streamConfirm c"
  shows "same_credit p c (connect_dialed e p ty h a (Inr (nc_fresh [])) (end_task (DialTask p ty h pt a) c))"
  using connect_dialed_accepted(3) [of "end_task (DialTask p ty h pt a) c" p] connectingD(8) [OF c] assms(2,3)
  by (simp add: no_detector_def same_credit_def end_task_def)

lemma connecting_flush_credit:
  assumes c: "connecting i p (FlushTask p ds) (Some (nc_fresh [])) kept c"
  shows "same_credit p c (connect_flush p ds (end_task (FlushTask p ds) c))"
  using connect_flush_accepts [of p "end_task (FlushTask p ds) c" "[]" ds] connectingD [OF c]
  by (simp add: nc_fresh_def Let_def same_credit_def end_task_def spawn_def)

lemma connect_ready_credit: "p < length (wc_heap c) \<Longrightarrow> same_credit p c (connect_ready p (end_task t c))"
  by (simp add: same_credit_def connect_ready_def signalConnReady_def end_task_def spawn_def)

lemma few_packets_no_credit:
  assumes "connected i p sent c" and "ws_streamType (stream_at p c) = streamTypeTCP"
    and "ws_bufferRemaining (stream_at p c) = r" and "length xs < unat r"
  shows "wc_wire (data_packets i xs c) = wc_wire c
    \<and> ws_bufferRemaining (stream_at p (data_packets i xs c)) = r - of_nat (length xs)"
  using assms
proof (induction xs arbitrary: sent c r)
  case (Cons x xs)
  obtain d b where x: "x = (d, b)" by fastforce
  obtain c2 where c2: "connected i p (sent @ d) c2" "same_credit p c c2"
    and h: "snd (handleDataPacket i d b c)
      = (if ws_streamType (stream_at p c2) = streamTypeTCP then use_credit i p c2 else c2)"
    using connected_data_shape [OF Cons.prems(1)] .
  have p: "p < length (wc_heap c2)" by (rule connectedD(5) [OF c2(1)])
  have r1: "unat (r - 1) = unat r - 1" using Cons.prems(4) by (simp add: unat_sub word_le_nat_alt)
  have nz: "r - 1 \<noteq> 0"
    using r1 Cons.prems(4) by (metis length_Cons less_diff_conv add.commute plus_1_eq_Suc not_less0 unat_0)
  let ?c3 = "use_credit i p c2"
  have h': "snd (handleDataPacket i d b c) = ?c3"
    using h c2(2) Cons.prems(2) by (simp add: same_credit_def)
  have c3: "connected i p (sent @ d) ?c3" "ws_streamType (stream_at p ?c3) = streamTypeTCP"
    "ws_bufferRemaining (stream_at p ?c3) = r - 1" "wc_wire ?c3 = wc_wire c"
    using connected_use_credit [OF c2(1)] c2(2) Cons.prems(2,3) nz p
    by (simp_all add: use_credit_def same_credit_def)
  have "length xs < unat (r - 1)" using r1 Cons.prems(4) by simp
  from Cons.IH [OF c3(1-3) this] c3(4) show ?case
    by (simp add: x h' algebra_simps)
qed simp

text \<open>The stream once it is ready, with what it took over written, and nothing sent to the client.\<close>

lemma dial_with_data_ready:
  assumes c: "connecting i p (DialTask p ty h pt a) None [] c"
    and det: "no_detector c" "\<not> wc_streamConfirm c" and max: "total_bytes before \<le> maxPendingBytes"
  shows "connected i p (concat (map fst before)) (dial_with_data e i p ty h pt a before [] [] c)"
    and "same_credit p c (dial_with_data e i p ty h pt a before [] [] c)"
    and "dial_with_data e i p ty h pt a before [] after c
      = data_packets i after (dial_with_data e i p ty h pt a before [] [] c)"
proof -
  have "int (length (concat ([] @ map fst before))) \<le> maxPendingBytes"
    using max by (simp add: total_bytes_def)
  note 1 = connecting_packets [OF c this, of]
  have c1: "connecting i p (DialTask p ty h pt a) None (map fst before) (data_packets i before c)"
    (is "connecting _ _ _ _ _ ?c1")
    using 1 by simp
  have det1: "no_detector ?c1" "\<not> wc_streamConfirm ?c1"
    using 1 det by (simp_all add: no_detector_def same_credit_def)
  note c2 = connect_dialed_connecting [OF c1 det1(1), of e]
  note c3 = connecting_flush [OF c2]
  note c4 = connecting_ready [OF c3]
  show "connected i p (concat (map fst before)) (dial_with_data e i p ty h pt a before [] [] c)"
    using c4 by (simp add: dial_with_data_def Let_def)
  show "same_credit p c (dial_with_data e i p ty h pt a before [] [] c)"
    using 1 connect_dialed_credit [OF c1 det1, of e] connecting_flush_credit [OF c2]
      connect_ready_credit [OF connectingD(8) [OF c3], of "ReadyTask p"]
    by (simp add: dial_with_data_def Let_def) (meson same_credit_trans)
  show "dial_with_data e i p ty h pt a before [] after c
      = data_packets i after (dial_with_data e i p ty h pt a before [] [] c)"
    by (simp add: dial_with_data_def Let_def)
qed

text \<open>
  C35: Early data starves a client without stream confirmations: packets that arrive before
  the target answers are kept, but take no credit on the server. A client that has spent its
  whole initial credit of \<open>BufferRemainingLength\<close> packets, the first of them before the
  dial succeeded, has been sent nothing at all, so no CONTINUE: it may not send and the
  server waits for more packets (wisp-connection.go:262-276).
\<close>

theorem early_data_starves:
  assumes "reachable bcrypt (newConnection cfg g dns v2 ip n nc) c"
    and "wc_streams c i = Some p" and "DialTask p ty h pt a \<in> set (wc_tasks c)"
    and "ws_pendingData (stream_at p c) = []" and "ws_pendingBytes (stream_at p c) = 0"
    and "ws_conn (stream_at p c) = None" and "no_detector c"
    and "total_bytes before \<le> maxPendingBytes" and "\<not> wc_streamConfirm c"
    and "ws_streamType (stream_at p c) = streamTypeTCP"
    and "ws_bufferRemaining (stream_at p c) = cfg_BufferRemainingLength cfg"
    and "before \<noteq> []" and "length before + length after = unat (cfg_BufferRemainingLength cfg)"
  shows "wc_wire (dial_with_data e i p ty h pt a before [] after c) = wc_wire c
    \<and> nc_sent (the (ws_conn (stream_at p (dial_with_data e i p ty h pt a before [] after c))))
        = concat (map fst (before @ after))"
proof -
  note r = dial_with_data_ready [OF dialing_connecting [OF assms(1-6)] assms(7,9,8), of e]
  have "length after < unat (cfg_BufferRemainingLength cfg)"
    using assms(12,13) by (cases before) auto
  then have "wc_wire (dial_with_data e i p ty h pt a before [] after c) = wc_wire c"
    using few_packets_no_credit [OF r(1)] r(2) assms(10,11) by (simp add: r(3) [of after] same_credit_def)
  moreover note connectedD(4) [OF connected_packets [OF r(1), of after]]
  ultimately show ?thesis by (simp add: r(3) [of after])
qed

lemma example_dialing_confirm: "\<not> wc_streamConfirm example_dialing"
  unfolding example_dialing_eq example_open_eq
  by (simp add: end_task_def spawn_def put_ws_buf_def register_stream_def start_connection_def
      example_conn_def newConnection_def)

theorem early_data_starves_witness:
  "wc_wire (dial_with_data example_env 5 0 streamTypeTCP ''a.b'' ''80'' False
      [([1, 2], 0)] [] (replicate 32767 ([3], 1)) example_dialing) = wc_wire example_dialing"
  by (rule early_data_starves [OF example_dialing_reachable [unfolded example_conn_def], THEN conjunct1])
    (simp_all add: example_dialing_shape newStream_def no_detector_def total_bytes_def maxPendingBytes_def
      DefaultConfig_def example_dialing_confirm)

end
