(* ===== verification/Conn_Slots.thy ===== *)
theory Conn_Slots
  imports Conn_Data
begin

text \<open>
  The slots of dials in flight: a goroutine takes one of \<open>InFlightSyns\<close> before it dials and
  gives it back when the dial has ended. However the goroutines of a connection interleave,
  the slots it holds are those of its dials in flight: none leaks, none is freed twice.
\<close>

section \<open>Slots and the dials that hold them\<close>

definition syn_slots :: "wispConnection \<Rightarrow> Semaphore option" where
  "syn_slots c = Option.bind (wc_globals c) g_InFlightSyns"

fun holds_slot :: "task \<Rightarrow> bool" where
  "holds_slot (DialTask p ty h pt a) = a"
| "holds_slot _ = False"

definition slots_held :: "wispConnection \<Rightarrow> nat" where
  "slots_held c = length (filter holds_slot (wc_tasks c))"

text \<open>The slots of everybody else: what is left when the dials of \<open>c\<close> give theirs back.\<close>

definition slots_of_others :: "wispConnection \<Rightarrow> Semaphore option" where
  "slots_of_others c = (Release ^^ slots_held c) (syn_slots c)"

definition same_slots :: "wispConnection \<Rightarrow> wispConnection \<Rightarrow> bool" where
  "same_slots c c' = (syn_slots c' = syn_slots c \<and> slots_held c' = slots_held c)"

lemma same_slots_refl [simp]: "same_slots c c"
  by (simp add: same_slots_def)

lemma same_slots_trans: "same_slots a b \<Longrightarrow> same_slots b c \<Longrightarrow> same_slots a c"
  by (simp add: same_slots_def)

lemma same_slots_others: "same_slots c c' \<Longrightarrow> slots_of_others c' = slots_of_others c"
  by (simp add: same_slots_def slots_of_others_def)

text \<open>What does not touch the globals and the goroutines.\<close>

lemma same_slots_inside:
  "wc_globals d = wc_globals c \<Longrightarrow> wc_tasks d = wc_tasks c \<Longrightarrow> same_slots c d"
  by (simp add: same_slots_def syn_slots_def slots_held_def)

lemma signal_shared [simp]:
  "wc_globals (signalConnReady p c) = wc_globals c" "wc_tasks (signalConnReady p c) = wc_tasks c"
  "wc_globals (stream_close_conn p c) = wc_globals c" "wc_tasks (stream_close_conn p c) = wc_tasks c"
  by (simp_all add: stream_close_conn_def signalConnReady_def)

lemma end_task_globals [simp]: "wc_globals (end_task t c) = wc_globals c"
  by (simp add: end_task_def)

lemma spawn_globals [simp]: "wc_globals (spawn t c) = wc_globals c"
  by (simp add: spawn_def)

lemma shared_parts:
  "same_slots c (on_wire f c)" "same_slots c (upd_stream p g c)" "same_slots c (stream_close p r c)"
  "same_slots c (signalConnReady p c)" "same_slots c (violation c)" "same_slots c (repAddSource now k c)"
  "same_slots c (repAddDest now k port r2 c)" "same_slots c (put_ws_buf b c)"
  "same_slots c (fold releaseIngressJob js c)" "same_slots c (snd (allow_per_source now k c))"
  "same_slots c (snd (allow_dest_sec now k c))" "same_slots c (snd (allow_dest_min now k c))"
  "same_slots c (snd (record_dial now ty k port ok c))" "same_slots c (forget_connection c)"
  "same_slots c (snd (lookup_stream i c))" "same_slots c (use_credit i p c)"
  "same_slots c (twisp_close q r c)" "same_slots c (twisp_resize q w h c)"
  "same_slots c (snd (writePty q d c))" "same_slots c (stream_close_conn p c)"
  by (auto simp: same_slots_def syn_slots_def slots_held_def violation_def repAddSource_def
      repAddDest_def put_ws_buf_def allow_per_source_def allow_dest_sec_def allow_dest_min_def
      record_dial_def forget_connection_def lookup_stream_def use_credit_def twisp_close_def
      twisp_resize_def writePty_def upd_twisp_def twisp_remove_def
      split: option.splits prod.splits)

lemma same_slots_spawn: "\<not> holds_slot t \<Longrightarrow> same_slots c (spawn t c)"
  by (simp add: same_slots_def syn_slots_def slots_held_def)

lemma slots_held_end:
  "t \<in> set (wc_tasks c) \<Longrightarrow> slots_held (end_task t c) = (if holds_slot t then slots_held c - 1 else slots_held c)"
  by (simp add: slots_held_def end_task_def filter_remove1 length_remove1)

lemma same_slots_end: "t \<in> set (wc_tasks c) \<Longrightarrow> \<not> holds_slot t \<Longrightarrow> same_slots c (end_task t c)"
  by (simp add: same_slots_def slots_held_end syn_slots_def)

lemmas slots_then = shared_parts [THEN [2] same_slots_trans]

section \<open>The goroutine of a stream\<close>

lemma release_syn_slots:
  "syn_slots (release_syn a c) = (if a then Release (syn_slots c) else syn_slots c)"
  "slots_held (release_syn a c) = slots_held c"
  by (simp_all add: syn_slots_def release_syn_def slots_held_def Release_def split: option.split)

lemma acquire_syn_slots:
  assumes "acquire_syn ty c = (ok, a, c')"
  shows "slots_held c' = slots_held c" and "a \<longrightarrow> ok"
    and "syn_slots c = (if a then Release (syn_slots c') else syn_slots c')"
proof -
  show "slots_held c' = slots_held c" "a \<longrightarrow> ok"
    using assms by (auto simp: acquire_syn_def slots_held_def split: option.splits if_splits)
  show "syn_slots c = (if a then Release (syn_slots c') else syn_slots c')"
    using assms slots.release_acquired slots.acquire_refused
    by (fastforce simp: acquire_syn_def syn_slots_def split: option.splits if_splits)
qed

lemma slots_held_spawn: "slots_held (spawn t c) = (if holds_slot t then Suc (slots_held c) else slots_held c)"
  by (simp add: slots_held_def)

lemma syn_slots_simps [simp]:
  "syn_slots (spawn t c) = syn_slots c" "syn_slots (end_task t c) = syn_slots c"
  "syn_slots (upd_stream p f c) = syn_slots c"
  by (simp_all add: syn_slots_def)

lemma slots_dials [simp]:
  "syn_slots (c\<lparr>wc_dials := ds\<rparr>) = syn_slots c" "slots_held (c\<lparr>wc_dials := ds\<rparr>) = slots_held c"
  by (simp_all add: syn_slots_def slots_held_def)

lemma connect_dial_slots:
  "slots_of_others (connect_dial e p ty resolved port a c)
     = (Release ^^ slots_held c) (if a then Release (syn_slots c) else syn_slots c)"
proof -
  let ?c = "upd_stream p (\<lambda>s. s\<lparr>ws_streamType := ty,
                ws_bufferRemaining := cfg_BufferRemainingLength (wc_config c)\<rparr>) c"
  have c: "syn_slots ?c = syn_slots c" "slots_held ?c = slots_held c"
    using shared_parts(2) [of c] by (simp_all add: same_slots_def)
  show ?thesis
  proof (cases "choose_dial (wc_config c) e ty (ws_hostname (stream_at p ?c)) resolved port")
    case (Inl reason)
    have "same_slots (release_syn a ?c) (signalConnReady p (stream_close p reason (release_syn a ?c)))"
      by (intro slots_then same_slots_refl)
    then have "slots_of_others (connect_dial e p ty resolved port a c) = slots_of_others (release_syn a ?c)"
      using Inl by (simp add: connect_dial_def Let_def same_slots_others)
    then show ?thesis
      by (simp add: slots_of_others_def release_syn_slots c)
  next
    case (Inr d)
    then show ?thesis
      by (simp add: connect_dial_def Let_def slots_of_others_def slots_held_spawn c funpow_Suc_right
          del: funpow.simps)
  qed
qed

lemma connect_limits_slots:
  "slots_of_others (connect_limits e p ty port resolved c) = slots_of_others c"
proof -
  obtain ok1 c1 where 1: "allow_dest_sec (e_now e) (JoinHostPort resolved port) c = (ok1, c1)" by fastforce
  obtain ok2 c2 where 2: "allow_dest_min (e_now e) (JoinHostPort resolved port) c1 = (ok2, c2)" by fastforce
  obtain ok3 a3 c3 where 3: "acquire_syn ty c2 = (ok3, a3, c3)" by (metis prod_cases3)
  have s1: "same_slots c c1" using shared_parts(11) [of c] by (metis 1 snd_conv)
  have s2: "same_slots c c2" using same_slots_trans [OF s1] shared_parts(12) [of c1] by (metis 2 snd_conv)
  have dial: "slots_of_others (connect_dial e p ty resolved port a3 c3) = slots_of_others c"
    unfolding connect_dial_slots using acquire_syn_slots [OF 3] s2
    by (simp add: slots_of_others_def same_slots_def split: if_splits)
  have s3: "same_slots c c3" if "\<not> ok3"
    using acquire_syn_slots [OF 3] that s2 by (simp add: same_slots_def)
  show ?thesis
    using dial s1 s2 s3
    by (auto simp: connect_limits_def 1 2 3 intro!: same_slots_others slots_then)
qed

lemma connect_start_slots:
  "slots_of_others (connect_start e p ty port hostname c) = slots_of_others c"
proof -
  let ?c = "upd_stream p (\<lambda>s. s\<lparr>ws_hostname := NormalizeTargetHostname hostname\<rparr>) c"
  have c: "same_slots c ?c" "same_slots c (?c\<lparr>wc_dns := d\<rparr>)" for d
    by (simp_all add: same_slots_def syn_slots_def slots_held_def)
  show ?thesis
    using c same_slots_others [OF c(2)]
    by (auto simp: connect_start_def Let_def connect_limits_slots
        intro!: same_slots_others slots_then split: prod.split resolution.split)
qed

text \<open>What \<open>connect_dialed\<close> does once the outcome is recorded.\<close>

lemma after_dial_slots:
  assumes "same_slots c d"
  shows "same_slots c (if m
     then signalConnReady p (on_wire wire_close (stream_close p r (stream_close_conn p
            (repAddDest now k port x1 (repAddSource now x2 d)))))
     else (case outcome of
         Inl err \<Rightarrow> signalConnReady p (stream_close p (f err) d)
       | Inr y \<Rightarrow> spawn (FlushTask p (g (if b then on_wire h d else d)))
            (upd_stream p u (if b then on_wire h d else d))))"
proof -
  note sp = same_slots_trans [OF _ same_slots_spawn]
  show ?thesis
    using assms by (cases m; cases outcome; cases b) (simp_all add: slots_then sp)
qed

lemma connect_dialed_slots:
  assumes "DialTask p ty h pt a \<in> set (wc_tasks c)"
  shows "slots_of_others (connect_dialed e p ty' h' a outcome (end_task (DialTask p ty h pt a) c))
    = slots_of_others c"
proof -
  let ?c0 = "end_task (DialTask p ty h pt a) c"
  let ?c1 = "release_syn a (upd_stream p (\<lambda>s. s\<lparr>ws_conn := (case outcome of Inl _ \<Rightarrow> None | Inr k \<Rightarrow> Some k)\<rparr>) ?c0)"
  have held: "slots_held c = (if a then Suc (slots_held ?c0) else slots_held ?c0)"
  proof -
    have "0 < slots_held c" if "a"
    proof -
      have "DialTask p ty h pt a \<in> set (filter holds_slot (wc_tasks c))" using assms that by simp
      then show ?thesis unfolding slots_held_def by (rule length_pos_if_in_set)
    qed
    then show ?thesis using slots_held_end [OF assms] by (cases a) simp_all
  qed
  have u: "same_slots ?c0 (upd_stream p f ?c0)" for f by (rule shared_parts)
  have c1: "slots_of_others ?c1 = slots_of_others c"
    using u held
    by (simp add: slots_of_others_def release_syn_slots same_slots_def funpow_Suc_right
        del: funpow.simps)
  obtain m c2 where 2: "record_dial (e_now e) ty' h' (ws_portNum (stream_at p ?c0))
      (\<not> isl outcome) ?c1 = (m, c2)" by fastforce
  have s2: "same_slots ?c1 c2" using shared_parts(13) [of ?c1] by (metis 2 snd_conv)
  have fin: "same_slots ?c1 (connect_dialed e p ty' h' a outcome ?c0)"
    unfolding connect_dialed_def Let_def 2 prod.case by (rule after_dial_slots [OF s2])
  show ?thesis
    unfolding same_slots_others [OF fin] by (rule c1)
qed

section \<open>Everything else\<close>

lemma connect_flush_slots: "same_slots c (connect_flush p ds c)"
proof (induction p ds c rule: connect_flush.induct)
  case (1 p c)
  show ?case by (auto intro!: slots_then same_slots_trans [OF _ same_slots_spawn])
next
  case (2 p d ds c)
  have w: "same_slots c (snd (stream_write p d c))"
    by (auto simp: stream_write_def same_slots_def syn_slots_def slots_held_def split: option.split)
  from "2.IH" same_slots_trans [OF w] w show ?case
    by (auto intro!: slots_then)
qed

lemma stream_read_slots: "same_slots c (stream_read p b b' hdr d err c)"
  by (auto simp: stream_read_def Let_def
      intro!: slots_then same_slots_trans [OF _ same_slots_spawn] split: option.split read_error.split)

lemma runIngressWriter_slots: "same_slots c (runIngressWriter p c)"
  by (auto simp: runIngressWriter_def Let_def same_slots_inside
      intro!: slots_then split: prod.split)

lemma queueIngressOwned_slots: "same_slots c (snd (queueIngressOwned p payload b c))"
proof -
  have r: "same_slots c (releaseIngressJob j c)" for j
    using shared_parts(9) [of c "[j]"] by simp
  show ?thesis
    by (auto simp: queueIngressOwned_def submitIngress_def
        intro!: r slots_then same_slots_trans [OF _ runIngressWriter_slots])
qed

lemma handleDataPacket_slots: "same_slots c (snd (handleDataPacket i payload b c))"
proof -
  obtain sp c1 where l: "lookup_stream i c = (sp, c1)" by fastforce
  have c1: "same_slots c c1" using shared_parts(15) [of c i] l by simp
  have q: "same_slots c (snd (queueIngressOwned p payload b c1))" for p
    using c1 queueIngressOwned_slots same_slots_trans by blast
  have w: "same_slots c (snd (stream_write p payload c1))" for p
    using c1 by (auto simp: stream_write_def same_slots_def syn_slots_def slots_held_def split: option.split)
  have wp: "same_slots c (snd (writePty n payload c1))" for n
    using c1 by (intro slots_then)
  have "same_slots c (snd (deliver_queued i p payload b c1))"
    "same_slots c (deliver_direct i p payload c1)" for p
    using q [of p] w [of p]
    by (auto simp: deliver_queued_def deliver_direct_def split: prod.split intro!: slots_then)
  moreover have "same_slots c (buffer_data p payload c1)" for p
    using c1 by (auto simp: buffer_data_def intro!: slots_then)
  moreover have "same_slots c (twisp_data i payload c1)"
    using c1 wp by (auto simp: twisp_data_def prod.case_eq_if intro!: slots_then split: option.split)
  ultimately show ?thesis
    using c1 by (auto simp: handleDataPacket_def l split: option.split)
qed

lemma handleConnectPacket_slots: "same_slots c (handleConnectPacket now i payload c)"
proof -
  obtain ok c1 where 1: "allow_per_source now (wc_remoteIP c) c = (ok, c1)" by fastforce
  have c1: "same_slots c c1" using shared_parts(10) [of c] by (metis 1 snd_conv)
  have "same_slots c (register_stream i ty port h c1)" for ty port h
    using c1 by (simp add: register_stream_def same_slots_def syn_slots_def slots_held_def split: option.split)
  moreover have "same_slots c (handleTwispConnect now i cmd c1)" for cmd
    using c1 by (auto simp: handleTwispConnect_def intro!: slots_then same_slots_trans [OF _ same_slots_spawn])
  ultimately show ?thesis
    using c1 by (auto simp: handleConnectPacket_def 1 intro!: slots_then)
qed

lemma handlePacket_slots: "same_slots c (handlePacket bcrypt now ty i payload c)"
proof -
  have a: "same_slots c (accept_client b exts c)" for b exts
    by (simp add: accept_client_def same_slots_def syn_slots_def slots_held_def)
  have "same_slots c (handleInfo bcrypt i payload c)"
    using a by (auto simp: handleInfo_def refuse_client_def intro!: slots_then split: option.split)
  moreover have "same_slots c (handleClosePacket i payload c)"
    by (auto simp: handleClosePacket_def intro!: same_slots_spawn split: option.split)
  moreover have "same_slots c (handleResize i payload c)"
    by (auto simp: handleResize_def intro!: slots_then split: option.split)
  ultimately show ?thesis
    using handleConnectPacket_slots by (simp add: handlePacket_def)
qed

lemma dispatch_frame_slots: "same_slots c (snd (dispatch_frame bcrypt now op payload b c))"
proof -
  have "same_slots c (snd (handleWispFrame bcrypt now payload b c))"
    using handlePacket_slots handleDataPacket_slots by (auto simp: handleWispFrame_def Let_def)
  then show ?thesis
    by (auto simp: dispatch_frame_def intro!: slots_then split: prod.splits)
qed

lemma handleTwisp_slots: "same_slots c (handleTwisp i cmd start c)"
  by (auto simp: handleTwisp_def same_slots_def syn_slots_def slots_held_def twisp_add_def
      split: option.split)

lemma readPty_slots: "same_slots c (readPty q b hdr d eof c)"
  by (auto simp: readPty_def Let_def
      intro!: slots_then same_slots_trans [OF _ same_slots_spawn] split: option.split bool.split)

lemma deleteAll_slots: "same_slots c (deleteAllWispStreams ps qs c)"
proof -
  have "same_slots d (fold (\<lambda>p. stream_close p r) ps d)" for ps d r
    by (induction ps arbitrary: d) (auto intro: same_slots_trans [OF shared_parts(3)])
  moreover have "same_slots d (fold (\<lambda>p. twisp_close p r) ps d)" for ps d r
    by (induction ps arbitrary: d) (auto intro: same_slots_trans [OF shared_parts(17)])
  ultimately show ?thesis
    unfolding deleteAllWispStreams_def
    by (intro slots_then) (meson same_slots_trans shared_parts(1))
qed

text \<open>
  C9: Dial slots never leak and are never freed twice: whatever step a connection takes, with
  its goroutines interleaved in any way and a dial ending in success, failure or a matched
  attack pattern, the slots of \<open>InFlightSyns\<close> in use minus the dials of this connection in
  flight stay the same; only what other connections do to the shared counter changes them.
\<close>

theorem syn_slots_balanced:
  assumes "conn_step bcrypt c c'"
  shows "slots_of_others c' = slots_of_others c \<or> (\<exists>g dns. c' = c\<lparr>wc_globals := g, wc_dns := dns\<rparr>)"
  using assms
proof cases
  case (step_frame now op payload b cont)
  then have "same_slots c c'" using dispatch_frame_slots [of c] by (metis snd_conv)
  then show ?thesis using same_slots_others by blast
next
  case (step_refuse reason)
  then show ?thesis using same_slots_others [OF shared_parts(1)] by blast
next
  case (step_connect p ty pt h e)
  then have "same_slots c (end_task (ConnectTask p ty pt h) c)" by (simp add: same_slots_end)
  then show ?thesis using step_connect connect_start_slots same_slots_others by metis
next
  case (step_dialed p ty h pt a e outcome)
  then show ?thesis using connect_dialed_slots by metis
next
  case (step_flush p ds)
  then have "same_slots c c'"
    by (auto intro: same_slots_trans [OF same_slots_end connect_flush_slots])
  then show ?thesis using same_slots_others by blast
next
  case (step_ready p)
  then have "same_slots c c'"
    by (auto simp: connect_ready_def
        intro!: same_slots_trans [OF _ same_slots_spawn] slots_then same_slots_end)
  then show ?thesis using same_slots_others by blast
next
  case (step_read p b b' hdr d err)
  then have "same_slots c c'"
    by (auto intro: same_slots_trans [OF same_slots_end stream_read_slots])
  then show ?thesis using same_slots_others by blast
next
  case (step_close p r)
  then have "same_slots c c'" by (auto intro!: slots_then same_slots_end)
  then show ?thesis using same_slots_others by blast
next
  case (step_twisp i cmd start)
  then have "same_slots c c'"
    by (auto intro: same_slots_trans [OF same_slots_end handleTwisp_slots])
  then show ?thesis using same_slots_others by blast
next
  case (step_pty q b hdr d eof)
  then have "same_slots c c'"
    by (auto intro: same_slots_trans [OF same_slots_end readPty_slots])
  then show ?thesis using same_slots_others by blast
next
  case (step_wait q)
  then have "same_slots c c'" by (auto intro!: slots_then same_slots_end)
  then show ?thesis using same_slots_others by blast
next
  case (step_twisp_close q r)
  then have "same_slots c c'" by (auto intro!: slots_then same_slots_end)
  then show ?thesis using same_slots_others by blast
next
  case (step_end ps qs)
  then show ?thesis using same_slots_others [OF deleteAll_slots] by blast
next
  case (step_shared g dns)
  then show ?thesis by blast
qed

text \<open>A connection about to dial, with room for two dials in flight.\<close>

definition slot_globals :: Globals where
  "slot_globals = \<lparr>g_PerSource = None, g_PerDestSec = None, g_PerDestMin = None,
     g_InFlightSyns = Some (NewSemaphore 2), g_Connections = None, g_Egress = PolicyFromConfig DefaultConfig,
     g_Reputation = None, g_Signature = None\<rparr>"

definition slot_conn :: wispConnection where
  "slot_conn = example_open\<lparr>wc_globals := Some slot_globals\<rparr>"

theorem syn_slots_balanced_witness:
  "slots_of_others (connect_start example_env 0 streamTypeTCP ''80'' ''a.b''
       (end_task (ConnectTask 0 streamTypeTCP ''80'' ''a.b'') slot_conn)) = Some (NewSemaphore 2)
   \<or> (\<exists>g dns. connect_start example_env 0 streamTypeTCP ''80'' ''a.b''
       (end_task (ConnectTask 0 streamTypeTCP ''80'' ''a.b'') slot_conn)
         = slot_conn\<lparr>wc_globals := g, wc_dns := dns\<rparr>)"
proof -
  have "ConnectTask 0 streamTypeTCP ''80'' ''a.b'' \<in> set (wc_tasks slot_conn)"
    by (simp add: slot_conn_def example_open_shape)
  moreover have "slots_of_others slot_conn = Some (NewSemaphore 2)"
    by (simp add: slot_conn_def slots_of_others_def slots_held_def syn_slots_def slot_globals_def
        example_open_shape)
  ultimately show ?thesis
    using syn_slots_balanced [OF step_connect [of 0 streamTypeTCP "''80''" "''a.b''" slot_conn
          "\<lambda>_ _. False" example_env]]
    by metis
qed

end
