(* ===== verification/Handler_Setup.thy ===== *)
theory Handler_Setup
  imports Wisp_Config
begin

text \<open>
  What \<open>CreateWispHandler\<close> (\<open>wisp/wisp.go\<close>) sets up once for all connections: the pool of
  read buffers, the dialler, and the options of the WebSocket upgrade.
\<close>

text \<open>
  \<open>ReadBufPool\<close> makes buffers of 15 bytes more than \<open>TcpBufferSize\<close>, the header space first.
  \<open>readRoom\<close> is the size of the slice behind the header space, \<open>None\<close> when \<open>make\<close> or the
  slice panics.
\<close>

definition readBufSize :: "Config \<Rightarrow> int" where
  "readBufSize cfg = go_int (15 + cfg_TcpBufferSize cfg)"

definition readRoom :: "Config \<Rightarrow> nat option" where
  "readRoom cfg = (if readBufSize cfg < 15 then None else Some (nat (readBufSize cfg) - 15))"

definition newReadBuf :: "Config \<Rightarrow> bytes option" where
  "newReadBuf cfg = (if readBufSize cfg < 0 then None else Some (replicate (nat (readBufSize cfg)) 0))"

record dialer =
  dl_Timeout :: int
  dl_KeepAlive :: int

definition config_Dialer :: dialer where
  "config_Dialer = \<lparr>dl_Timeout = 15 * second, dl_KeepAlive = 30 * second\<rparr>"

record upgrader =
  up_PermessageDeflate :: bool

definition newUpgrader :: "Config \<Rightarrow> upgrader" where
  "newUpgrader cfg = \<lparr>up_PermessageDeflate = cfg_WebsocketPermessageDeflate cfg\<rparr>"

text \<open>A buffer of the pool is the header space and the room for a read.\<close>

lemma newReadBuf_room:
  "readRoom cfg = Some room \<Longrightarrow> newReadBuf cfg = Some (replicate (15 + room) 0)"
  by (auto simp: readRoom_def newReadBuf_def split: if_splits)

lemma readRoom_size: "readRoom cfg = Some room \<Longrightarrow> room < 2 ^ 63"
  using signed_take_bit_int_less_exp [of 63 "15 + cfg_TcpBufferSize cfg"]
  by (auto simp: readRoom_def readBufSize_def go_int_def split: if_splits)

lemma readRoom_size_of:
  assumes "- (2 ^ 63) \<le> cfg_TcpBufferSize cfg" and "cfg_TcpBufferSize cfg < 2 ^ 63 - 15"
  shows "readRoom cfg = (if cfg_TcpBufferSize cfg < 0 then None else Some (nat (cfg_TcpBufferSize cfg)))"
  using assms by (auto simp: readRoom_def readBufSize_def go_int_id)

end
