(* ===== verification/Conn_Hazards.thy ===== *)
theory Conn_Hazards
  imports Conn_Slots Handler_Setup
begin

text \<open>
  Who owns what when things end: the payload buffer of a frame, the connection of a stream
  closed while it is dialled, a terminal whose id is taken again, a configuration switch
  nothing reads, and compressed frames. The first is in order as long as \<open>close\<close> does not come
  in between (\<open>Buffer_Race\<close> has the other case); the theorems after it pin down the
  interleavings in which something is lost or left behind.
\<close>

section \<open>Payload buffers\<close>

text \<open>The jobs of a stream in order are released at once, so \<open>close\<close> has none to release.\<close>

lemma stream_close_pool:
  assumes "ws_pendingIngress (stream_at p c) = []" and "p < length (wc_heap c)"
  shows "wc_wsPool (stream_close p r c) = wc_wsPool c"
  using assms
  by (simp add: stream_close_def stream_drain_def stream_close_conn_def deleteWispStream_def
      signalConnReady_def)

lemma pool_parts [simp]:
  "wc_wsPool (violation c) = wc_wsPool c" "wc_wsPool (repAddSource now k c) = wc_wsPool c"
  "wc_wsPool (snd (allow_per_source now k c)) = wc_wsPool c"
  "wc_wsPool (snd (lookup_stream i c)) = wc_wsPool c" "wc_wsPool (use_credit i p c) = wc_wsPool c"
  "wc_wsPool (spawn t c) = wc_wsPool c" "wc_wsPool (register_stream i ty port h c) = wc_wsPool c"
  "wc_wsPool (twisp_data i payload c) = wc_wsPool c" "wc_wsPool (handleResize i payload c) = wc_wsPool c"
  "wc_wsPool (handleInfo bcrypt i payload c) = wc_wsPool c"
  "wc_wsPool (handleTwispConnect now i cmd c) = wc_wsPool c"
  "wc_wsPool (handleClosePacket i payload c) = wc_wsPool c"
  by (auto simp: violation_def repAddSource_def allow_per_source_def lookup_stream_def use_credit_def
      spawn_def register_stream_def twisp_data_def twisp_close_def twisp_remove_def upd_twisp_def
      writePty_def handleResize_def twisp_resize_def handleInfo_def refuse_client_def accept_client_def
      handleTwispConnect_def handleClosePacket_def
      split: option.splits prod.splits)

lemma handlePacket_pool: "wc_wsPool (handlePacket bcrypt now ty i payload c) = wc_wsPool c"
proof -
  have "wc_wsPool (handleConnectPacket now i payload c) = wc_wsPool c"
    by (simp add: handleConnectPacket_def prod.case_eq_if)
  then show ?thesis by (simp add: handlePacket_def)
qed

lemma handleDataPacket_pool:
  assumes inv: "conn_inv None c" and r: "handleDataPacket i payload b c = (keep, c')"
  shows "wc_wsPool (if keep then c' else put_ws_buf (Some b) c') = wc_wsPool c @ [b]"
proof -
  obtain sp c1 where l: "lookup_stream i c = (sp, c1)" by fastforce
  note l' = lookup_stream_inv [OF inv l]
  have pool1: "wc_wsPool c1 = wc_wsPool c" using pool_parts(4) [of i c] l by simp
  show ?thesis
  proof (cases sp)
    case None
    with r l pool1 show ?thesis by (auto simp: handleDataPacket_def put_ws_buf_def)
  next
    case (Some p)
    have p: "p < length (wc_heap c1)"
      using conn_invD(1) [OF inv] Some l'(2,3) by (auto simp: registry_ok_def)
    have sok: "stream_ok (stream_at p c1)" using conn_invD(6) [OF l'(1)] p by simp
    then have idle: "ws_pendingIngress (stream_at p c1) = []" by (simp add: stream_ok_def)
    let ?s = "stream_at p c1"
    consider "\<not> ws_isOpen ?s" | "ws_isOpen ?s" "\<not> ws_connReadyDone ?s"
      | "ws_isOpen ?s" "ws_connReadyDone ?s" "ws_streamType ?s = streamTypeTCP" "ws_ingressActive ?s"
      | "ws_isOpen ?s" "ws_connReadyDone ?s" "\<not> (ws_streamType ?s = streamTypeTCP \<and> ws_ingressActive ?s)"
      by blast
    then show ?thesis
    proof cases
      case 1
      with r l Some pool1 show ?thesis by (auto simp: handleDataPacket_def put_ws_buf_def)
    next
      case 2
      then have "wc_wsPool (buffer_data p payload c1) = wc_wsPool c"
        using pool1 stream_close_pool [OF idle p] by (simp add: buffer_data_def)
      with 2 r l Some show ?thesis by (auto simp: handleDataPacket_def put_ws_buf_def)
    next
      case 3
      obtain k where k: "ws_conn ?s = Some k" using sok 3 by (auto simp: stream_ok_def)
      let ?u = "upd_stream p (\<lambda>s. s\<lparr>ws_conn := Some (snd (nc_Write payload k))\<rparr>) c1"
      let ?c2 = "releaseIngressJob \<lparr>ij_payload = payload, ij_bufp = Some b, ij_pool = ingressPoolWS\<rparr> ?u"
      have c2: "wc_wsPool ?c2 = wc_wsPool c @ [b]" "wc_heap ?c2 = wc_heap ?u"
        using pool1 by (simp_all add: releaseIngressJob_def)
      have "wc_wsPool (stream_close p closeReasonNetworkError ?c2) = wc_wsPool c @ [b]"
        using stream_close_pool [of ?c2 p] c2 idle p by simp
      then show ?thesis
        using r l Some 3 c2 queueIngressOwned_result [OF p sok 3(1,4) k, of payload b]
        by (auto simp: handleDataPacket_def deliver_queued_def Let_def)
    next
      case 4
      obtain k where k: "ws_conn ?s = Some k" using sok 4 by (auto simp: stream_ok_def)
      let ?u = "upd_stream p (\<lambda>s. s\<lparr>ws_conn := Some (snd (nc_Write payload k))\<rparr>) c1"
      have "wc_wsPool (stream_close p closeReasonNetworkError ?u) = wc_wsPool c"
        using stream_close_pool [of ?u p] pool1 idle p by simp
      then have "wc_wsPool (deliver_direct i p payload c1) = wc_wsPool c"
        using pool1 by (simp add: deliver_direct_def stream_write_parts [OF k])
      with 4 r l Some show ?thesis by (auto simp: handleDataPacket_def put_ws_buf_def)
    qed
  qed
qed

text \<open>
  The payload buffer of a frame goes back to its pool exactly once, whatever the frame
  holds, when its handling is one step. \<open>Buffer_Race\<close> lets closings come in between.
\<close>

lemma frame_buffer_atomic:
  assumes "reachable bcrypt (newConnection cfg g dns v2 ip n nc) c"
    and "dispatch_frame bcrypt now opcode payload b c = (continue, c')"
  shows "wc_wsPool c' = wc_wsPool c @ [b]"
proof -
  obtain keep c1 where f: "handleWispFrame bcrypt now payload b c = (keep, c1)" by fastforce
  obtain kd cd where d: "handleDataPacket (le32_of (take 4 (drop 1 payload))) (drop 5 payload) b c = (kd, cd)"
    by fastforce
  note data = handleDataPacket_pool [OF reachable_inv [OF assms(1)] d]
  have "wc_wsPool (if keep then c1 else put_ws_buf (Some b) c1) = wc_wsPool c @ [b]"
    using f d data handlePacket_pool
    by (auto simp: handleWispFrame_def Let_def put_ws_buf_def split: if_splits)
  then show ?thesis
    using assms(2) f by (auto simp: dispatch_frame_def put_ws_buf_def split: if_splits)
qed

section \<open>A stream closed while it is dialled\<close>

text \<open>
  A client closes a stream while its dial is under way; the dial succeeds afterwards, and
  the goroutine goes on as far as it gets.
\<close>

definition cancelled_dial ::
    "env \<Rightarrow> nat \<Rightarrow> u8 \<Rightarrow> string \<Rightarrow> string \<Rightarrow> bool \<Rightarrow> wispConnection \<Rightarrow> wispConnection" where
  "cancelled_dial e p ty h pt a c =
     (let c1 = stream_close p closeReasonVoluntary c;
          c2 = connect_dialed e p ty h a (Inr (nc_fresh [])) (end_task (DialTask p ty h pt a) c1);
          c3 = connect_flush p [] (end_task (FlushTask p []) c2)
      in connect_ready p (end_task (ReadyTask p) c3))"

lemma stream_close_pending:
  assumes "p < length (wc_heap c)"
  shows "ws_pendingData (stream_at p (stream_close p r c)) = ws_pendingData (stream_at p c)"
  using stream_close_fields(1) [OF assms] assms by (simp add: shut_def)

lemma closed_stream_kept:
  assumes "p < length (wc_heap c)" and "\<not> ws_isOpen (stream_at p c)" and "\<forall>q \<in> set ps. q < length (wc_heap c)"
  shows "stream_at p (fold (\<lambda>q. stream_close q r) ps c) = stream_at p c"
  using assms
proof (induction ps arbitrary: c)
  case (Cons q ps)
  have q: "q < length (wc_heap c)" using Cons.prems by simp
  note f = stream_close_fields(1,9) [OF q, of r]
  have "stream_at p (stream_close q r c) = stream_at p c"
    using f(1) Cons.prems(2) by (cases "p = q") auto
  with Cons.IH [of "stream_close q r c"] Cons.prems f(2) show ?case by simp
qed simp

lemma cancelled_dial_shape:
  assumes inv: "conn_inv None c" and t: "DialTask p ty h pt a \<in> set (wc_tasks c)"
    and "ws_pendingData (stream_at p c) = []" and "no_detector c"
  shows "\<not> ws_isOpen (stream_at p (cancelled_dial e p ty h pt a c))"
    and "ws_conn (stream_at p (cancelled_dial e p ty h pt a c)) = Some (nc_fresh [])"
    and "ReadTask p \<in> set (wc_tasks (cancelled_dial e p ty h pt a c))"
    and "length (wc_heap (cancelled_dial e p ty h pt a c)) = length (wc_heap c)"
proof -
  have p: "p < length (wc_heap c)"
    using conn_invD(5) [OF inv t] by (simp add: stream_of_task_def)
  let ?c1 = "stream_close p closeReasonVoluntary c"
  let ?c0 = "end_task (DialTask p ty h pt a) ?c1"
  define c2 where "c2 = connect_dialed e p ty h a (Inr (nc_fresh [])) ?c0"
  note f = stream_close_fields [OF p, of closeReasonVoluntary]
  have "no_detector ?c0" "p < length (wc_heap ?c0)" "ws_pendingData (stream_at p ?c0) = []"
    "\<not> ws_isOpen (stream_at p ?c0)"
    using assms(3,4) p f(9,10) stream_close_pending [OF p] by (simp_all add: no_detector_def)
  with connect_dialed_accepted(1,2) [of ?c0 p e ty h a "nc_fresh []"] p f(9)
  have c2: "\<not> ws_isOpen (stream_at p c2)" "ws_conn (stream_at p c2) = Some (nc_fresh [])"
    "FlushTask p [] \<in> set (wc_tasks c2)" "length (wc_heap c2) = length (wc_heap c)"
    by (simp_all add: c2_def)
  have eq: "cancelled_dial e p ty h pt a c
      = connect_ready p (end_task (ReadyTask p) (connect_flush p [] (end_task (FlushTask p []) c2)))"
    by (simp add: cancelled_dial_def Let_def c2_def)
  show "\<not> ws_isOpen (stream_at p (cancelled_dial e p ty h pt a c))"
    and "ws_conn (stream_at p (cancelled_dial e p ty h pt a c)) = Some (nc_fresh [])"
    and "ReadTask p \<in> set (wc_tasks (cancelled_dial e p ty h pt a c))"
    and "length (wc_heap (cancelled_dial e p ty h pt a c)) = length (wc_heap c)"
    unfolding eq using c2 p by (simp_all add: connect_ready_def signalConnReady_def)
qed

text \<open>
  C36: A CLOSE that comes while the dial is under way leaks the connection: \<open>close\<close> finds no
  connection to close, \<open>handleConnect\<close> does not look at \<open>isOpen\<close> again when the dial has
  succeeded (wisp-stream.go:208-291), and goes on to read. The connection stays open with a
  goroutine on it although its stream is closed and has left the registry, and closing any
  streams at the end of the client's session does not close it.
\<close>

theorem cancelled_dial_leaks:
  assumes "reachable bcrypt (newConnection cfg g dns v2 ip n nc) c"
    and "DialTask p ty h pt a \<in> set (wc_tasks c)"
    and "ws_pendingData (stream_at p c) = []" and "no_detector c"
    and "\<forall>q \<in> set ps. q < length (wc_heap c)"
  shows "ws_conn (stream_at p (deleteAllWispStreams ps qs (cancelled_dial e p ty h pt a c))) = Some (nc_fresh [])
    \<and> ReadTask p \<in> set (wc_tasks (deleteAllWispStreams ps qs (cancelled_dial e p ty h pt a c)))"
proof -
  have inv: "conn_inv None c" by (rule reachable_inv [OF assms(1)])
  note S = cancelled_dial_shape [OF inv assms(2-4), of e]
  let ?d = "cancelled_dial e p ty h pt a c"
  have p: "p < length (wc_heap c)"
    using conn_invD(5) [OF inv assms(2)] by (simp add: stream_of_task_def)
  have "stream_at p (deleteAllWispStreams ps qs ?d) = stream_at p ?d"
    using closed_stream_kept [of p "on_wire wire_close ?d" ps closeReasonUnspecified] S p assms(5)
    by (simp add: deleteAll_heap)
  moreover have "wc_tasks (deleteAllWispStreams ps qs ?d) = wc_tasks ?d"
  proof -
    have "wc_tasks (fold (\<lambda>p. stream_close p r) ps d) = wc_tasks d" for ps r d
      by (induction ps arbitrary: d) simp_all
    moreover have "wc_tasks (fold (\<lambda>q. twisp_close q r) qs d) = wc_tasks d" for qs r d
      by (induction qs arbitrary: d) (simp_all add: twisp_close_def upd_twisp_def twisp_remove_def)
    ultimately show ?thesis
      using quiet_fields(3) [OF quiet_ops(14)] by (simp add: deleteAllWispStreams_def)
  qed
  ultimately show ?thesis using S by simp
qed

theorem cancelled_dial_leaks_witness:
  "ws_conn (stream_at 0 (deleteAllWispStreams [] []
     (cancelled_dial example_env 0 streamTypeTCP ''a.b'' ''80'' False example_dialing))) = Some (nc_fresh [])"
  by (rule cancelled_dial_leaks [OF example_dialing_reachable [unfolded example_conn_def], THEN conjunct1])
    (simp_all add: example_dialing_shape newStream_def no_detector_def)

section \<open>A terminal whose id is taken again\<close>

text \<open>
  Two terminals are opened under one id: the second replaces the first in the registry,
  which keeps running.
\<close>

definition second_terminal :: "u32 \<Rightarrow> string \<Rightarrow> string \<Rightarrow> go_conn \<Rightarrow> go_conn \<Rightarrow> wispConnection \<Rightarrow> wispConnection" where
  "second_terminal i cmd1 cmd2 x y c = handleTwisp i cmd2 (Some y) (handleTwisp i cmd1 (Some x) c)"

lemma twisp_close_other:
  assumes "q \<noteq> n" "n < length (wc_theap c)"
  shows "wc_theap (twisp_close q r c) ! n = wc_theap c ! n" "length (wc_theap (twisp_close q r c)) = length (wc_theap c)"
  using assms by (simp_all add: twisp_close_def upd_twisp_def twisp_remove_def)

lemma twisp_fold_other:
  assumes "n \<notin> set qs" "n < length (wc_theap c)"
  shows "wc_theap (fold (\<lambda>q. twisp_close q r) qs c) ! n = wc_theap c ! n"
  using assms
proof (induction qs arbitrary: c)
  case (Cons q qs)
  then have "q \<noteq> n" by auto
  note o = twisp_close_other [OF this Cons.prems(2), of r]
  from Cons.IH [of "twisp_close q r c"] o Cons.prems show ?case by simp
qed simp

text \<open>
  A terminal whose stream id is used for another one is never stopped: \<open>twispRegistry.add\<close>
  overwrites the entry, so at the end of the session \<open>deleteAllWispStreams\<close>, which closes
  what the registry holds, leaves the first terminal open and its process alive
  (twisp.go:39-43, wisp-connection.go:384-411).
\<close>

theorem duplicate_terminal_survives:
  assumes "splitShell cmd1 = Some (x1 # xs1)" and "splitShell cmd2 = Some (x2 # xs2)"
    and "wc_twispStreams c = Some m" and "\<forall>q \<in> ran m. q < length (wc_theap c)"
    and "set qs = ran (the (wc_twispStreams (second_terminal i cmd1 cmd2 a b c)))"
  shows "ts_isOpen (wc_theap (deleteAllWispStreams ps qs (second_terminal i cmd1 cmd2 a b c)) ! length (wc_theap c))
    \<and> \<not> ts_killed (wc_theap (deleteAllWispStreams ps qs (second_terminal i cmd1 cmd2 a b c)) ! length (wc_theap c))"
proof -
  let ?n = "length (wc_theap c)"
  let ?d = "second_terminal i cmd1 cmd2 a b c"
  define t where "t = \<lparr>ts_streamId = i, ts_ptmx = a, ts_isOpen = True, ts_killed = False, ts_winsize = (24, 80)\<rparr>"
  define u where "u = \<lparr>ts_streamId = i, ts_ptmx = b, ts_isOpen = True, ts_killed = False, ts_winsize = (24, 80)\<rparr>"
  have d: "wc_theap ?d = wc_theap c @ [t, u]" "wc_twispStreams ?d = Some (m(i \<mapsto> Suc ?n))"
    using assms(1-3) by (simp_all add: second_terminal_def handleTwisp_def twisp_add_def t_def u_def spawn_def)
  have "ran (m(i \<mapsto> Suc ?n)) \<subseteq> insert (Suc ?n) (ran m)"
    by (auto simp: ran_def)
  then have qs: "?n \<notin> set qs"
    using assms(4,5) d(2) by auto
  have th: "wc_theap (fold (\<lambda>p. stream_close p r) ps x) = wc_theap x" for ps r x
    by (induction ps arbitrary: x) simp_all
  let ?f = "fold (\<lambda>p. stream_close p closeReasonUnspecified) ps (on_wire wire_close ?d)"
  have "wc_theap (deleteAllWispStreams ps qs ?d) ! ?n
      = wc_theap (fold (\<lambda>q. twisp_close q closeReasonUnspecified) qs ?f) ! ?n"
    by (simp add: deleteAllWispStreams_def forget_connection_def split: option.split)
  also have "\<dots> = t"
    using twisp_fold_other [OF qs, of ?f] th d(1) by simp
  finally show ?thesis by (simp add: t_def)
qed

lemma logged_in_terminals: "wc_twispStreams logged_in = Some Map.empty" "wc_theap logged_in = []"
  by (simp_all add: logged_in_eq accept_client_def put_ws_buf_def start_connection_def login_conn_def
      newConnection_def)

theorem duplicate_terminal_survives_witness:
  "ts_isOpen (wc_theap (deleteAllWispStreams [] [1]
     (second_terminal 7 ''sh'' ''ls'' (nc_fresh []) (nc_fresh []) logged_in)) ! 0)"
proof -
  have sp: "splitShell ''sh'' = Some [''sh'']" "splitShell ''ls'' = Some [''ls'']"
    by (simp_all add: splitShell_def shell_step_def shell_start_def shell_finish_def)
  have "wc_twispStreams (second_terminal 7 ''sh'' ''ls'' (nc_fresh []) (nc_fresh []) logged_in) = Some [7 \<mapsto> 1]"
    by (simp add: second_terminal_def handleTwisp_def sp twisp_add_def spawn_def logged_in_terminals)
  then have "set [1] = ran (the (wc_twispStreams
      (second_terminal 7 ''sh'' ''ls'' (nc_fresh []) (nc_fresh []) logged_in)))"
    by simp
  from duplicate_terminal_survives [OF sp logged_in_terminals(1) _ this, of "[]"] show ?thesis
    by (simp add: logged_in_terminals)
qed

section \<open>A switch nothing reads\<close>

text \<open>The first steps of a connection with TCP switched off.\<close>

definition no_tcp :: Config where
  "no_tcp = DefaultConfig\<lparr>cfg_AllowTCP := False\<rparr>"

definition no_tcp_conn :: wispConnection where
  "no_tcp_conn = newConnection no_tcp None (NewDNSCache [] 0 [] []) False ''192.0.2.7'' 1 (nc_fresh [])"

text \<open>
  \<open>allowTCP\<close> has no effect: with the switch off, a CONNECT packet for a TCP stream is
  registered and its target dialled (\<open>AllowTCP\<close> is read nowhere outside the configuration).
\<close>

theorem allow_tcp_ignored:
  "\<not> cfg_AllowTCP (wc_config no_tcp_conn) \<and>
   (\<exists>c. reachable (\<lambda>_ _. False) no_tcp_conn c \<and> DirectDial ''tcp'' ''a.b:80'' \<in> set (wc_dials c))"
proof (intro conjI exI)
  show "\<not> cfg_AllowTCP (wc_config no_tcp_conn)"
    by (simp add: no_tcp_conn_def no_tcp_def newConnection_def)
  let ?s = "start_connection no_tcp_conn"
  have s: "\<not> handshake_pending ?s" "\<not> stream_limit_reached ?s" "unlimited ?s"
    "wc_streams ?s 5 = None" "wc_config ?s = no_tcp"
    by (simp_all add: start_connection_def no_tcp_conn_def newConnection_def handshake_pending_def
        stream_limit_reached_def unlimited_def no_tcp_def DefaultConfig_def)
  have "NormalizeTargetHostname ''a.b'' = ''a.b''" "ParseIP ''a.b'' = []"
    and n: "JoinHostPort ''a.b'' (itoa (unat (80 :: u16))) = ''a.b:80''"
    by (simp_all add: NormalizeTargetHostname_def go_eval)
  then have r: "reaches (wc_config ?s) example_env (wc_dns ?s) 80 ''a.b'' ''a.b''"
    by (simp add: reaches_def s(5) no_tcp_def DefaultConfig_def emptyFilter_def hostname_blocked_def
        port_blocked_def resolve_target_def)
  show "reachable (\<lambda>_ _. False) no_tcp_conn (stream_dialling example_env 0 0 5 80 ''a.b'' ?s)"
    by (rule stream_dialling_reachable [OF reach_start s(1-4)])
  show "DirectDial ''tcp'' ''a.b:80'' \<in> set (wc_dials (stream_dialling example_env 0 0 5 80 ''a.b'' ?s))"
    using stream_dialling_shape(8) [OF s(1-4) r] unfolding n by simp
qed

section \<open>Compressed frames\<close>

text \<open>
  A client that has negotiated compression sets the first reserved bit of the first byte in
  each frame it compresses (RFC 7692).
\<close>

definition compressed :: "bytes \<Rightarrow> bool" where
  "compressed b \<longleftrightarrow> 2 \<le> length b \<and> b ! 0 AND 0x40 \<noteq> 0"

lemma compressed_refused:
  assumes "compressed b"
  shows "parse_frame mx b = Some (Refuse 1002, b)"
proof -
  have "b ! 0 AND 0x70 \<noteq> 0"
  proof
    assume "b ! 0 AND 0x70 = 0"
    then have "(b ! 0 AND 0x70) AND 0x40 = 0" by simp
    then have "b ! 0 AND (0x70 AND 0x40) = 0" by (simp only: and.assoc)
    with assms show False by (simp add: compressed_def)
  qed
  with assms show ?thesis
    by (simp add: parse_frame_def read_frame_def flat_peek_def compressed_def bad_first_bytes_def)
qed

text \<open>
  C40: Compression is offered and then refused: with \<open>websocketPermessageDeflate\<close> on, the upgrade
  may agree on compressing messages, but the read loop ends the session with a protocol
  error at the first compressed frame, whatever it contains.
\<close>

theorem compression_ends_session:
  assumes "reader_ok f" and "compressed (fr_stream f)"
  shows "readLoop_from bcrypt es n f c = Some (on_wire (sendWSClose 1002) c)"
proof -
  obtain f' where "readFrame (maxPayloadSize (wc_config c)) f = Some (Refuse 1002, f')"
    using readFrame_parse [OF assms(1), of "maxPayloadSize (wc_config c)"]
      compressed_refused [OF assms(2)] by auto
  then show ?thesis
    by (simp add: readLoop_from_simps)
qed

theorem compression_ends_session_witness:
  "readLoop_from (\<lambda>_ _. False) (\<lambda>_. 0) 0 (newFrameReader \<lparr>ni_chunks = [[0xC2, 0x80]], ni_err_with_last = False\<rparr>)
     example_open = Some (on_wire (sendWSClose 1002) example_open)"
  by (rule compression_ends_session) (simp_all add: compressed_def ni_stream_def)

end
