(* ===== verification/Batch_Writer.thy ===== *)
theory Batch_Writer
  imports Stream_Connect "HOL-Library.Sublist"
begin

text \<open>
  The batch writers under arbitrary interleaving. \<open>wispConnection.submitWrite\<close>,
  \<open>runWriter\<close> and \<open>close\<close> (\<open>wisp/wisp-connection.go\<close>) and their counterparts for the data
  of a stream, \<open>submitIngress\<close>, \<open>runIngressWriter\<close> and \<open>close\<close> (\<open>wisp/wisp-stream.go\<close>), are
  the same algorithm over different requests: whoever finds no writer becomes the writer
  and drains the queue in batches, everybody else appends and leaves. Here each access to
  shared state is a step of its own, and the steps of any number of goroutines interleave.
\<close>

section \<open>The algorithm\<close>

text \<open>
  The position of a goroutine: away from the writer; behind the check of the closed flag;
  at the head of the loop; with a batch taken; about to write it; leaving because the
  stream is closed; behind a failed write; about to call \<open>close\<close>; about to close the
  connection; about to drain the queue.
\<close>

datatype 'r writer_pc =
    W_Away
  | W_Checked 'r
  | W_Loop
  | W_Taken "'r list"
  | W_Put "'r list"
  | W_Quit
  | W_Failed
  | W_Close
  | W_Shut
  | W_Drain

text \<open>
  The shared state, and what the properties speak of: the requests offered and the ones
  appended, in this order, the ones of successful writes, the ones whose buffer was given
  back, and whether a write has failed.
\<close>

record ('r, 'k) batch_writer =
  bw_queue :: "'r list"
  bw_active :: bool
  bw_closed :: bool
  bw_sink :: 'k
  bw_pcs :: "nat \<Rightarrow> 'r writer_pc"
  bw_offered :: "'r list"
  bw_submitted :: "'r list"
  bw_written :: "'r list"
  bw_released :: "'r list"
  bw_failed :: bool

definition bw_at :: "nat \<Rightarrow> 'r writer_pc \<Rightarrow> ('r, 'k) batch_writer \<Rightarrow> ('r, 'k) batch_writer" where
  "bw_at i pc s = s\<lparr>bw_pcs := (bw_pcs s)(i := pc)\<rparr>"

text \<open>
  \<open>put\<close> writes a batch, \<open>shut\<close> closes the connection, \<open>looks\<close> tells whether the writer looks
  at the closed flag before it writes (the ingress writer does).
\<close>

inductive bw_step ::
    "('r list \<Rightarrow> 'k \<Rightarrow> bool \<times> 'k) \<Rightarrow> ('k \<Rightarrow> 'k) \<Rightarrow> bool \<Rightarrow> ('r, 'k) batch_writer \<Rightarrow> ('r, 'k) batch_writer \<Rightarrow> bool"
  for put :: "'r list \<Rightarrow> 'k \<Rightarrow> bool \<times> 'k" and shut :: "'k \<Rightarrow> 'k" and looks :: bool where
  refuse: "bw_pcs s i = W_Away \<Longrightarrow> bw_closed s \<Longrightarrow> bw_step put shut looks s
    (s\<lparr>bw_offered := bw_offered s @ [r], bw_released := bw_released s @ [r]\<rparr>)"
| check: "bw_pcs s i = W_Away \<Longrightarrow> \<not> bw_closed s \<Longrightarrow> bw_step put shut looks s
    (bw_at i (W_Checked r) (s\<lparr>bw_offered := bw_offered s @ [r]\<rparr>))"
| join: "bw_pcs s i = W_Checked r \<Longrightarrow> bw_active s \<Longrightarrow> bw_step put shut looks s
    (bw_at i W_Away (s\<lparr>bw_queue := bw_queue s @ [r], bw_submitted := bw_submitted s @ [r]\<rparr>))"
| lead: "bw_pcs s i = W_Checked r \<Longrightarrow> \<not> bw_active s \<Longrightarrow> bw_step put shut looks s
    (bw_at i W_Loop (s\<lparr>bw_queue := bw_queue s @ [r], bw_submitted := bw_submitted s @ [r], bw_active := True\<rparr>))"
| finish: "bw_pcs s i = W_Loop \<Longrightarrow> bw_queue s = [] \<Longrightarrow> bw_step put shut looks s
    (bw_at i W_Away (s\<lparr>bw_active := False\<rparr>))"
| take_batch: "bw_pcs s i = W_Loop \<Longrightarrow> bw_queue s \<noteq> [] \<Longrightarrow> bw_step put shut looks s
    (bw_at i (W_Taken (bw_queue s)) (s\<lparr>bw_queue := []\<rparr>))"
| look_closed: "bw_pcs s i = W_Taken b \<Longrightarrow> looks \<Longrightarrow> bw_closed s \<Longrightarrow> bw_step put shut looks s
    (bw_at i W_Quit (s\<lparr>bw_released := bw_released s @ b\<rparr>))"
| look_open: "bw_pcs s i = W_Taken b \<Longrightarrow> \<not> looks \<or> \<not> bw_closed s \<Longrightarrow> bw_step put shut looks s
    (bw_at i (W_Put b) s)"
| quit: "bw_pcs s i = W_Quit \<Longrightarrow> bw_step put shut looks s (bw_at i W_Away (s\<lparr>bw_active := False\<rparr>))"
| write_ok: "bw_pcs s i = W_Put b \<Longrightarrow> put b (bw_sink s) = (True, k) \<Longrightarrow> bw_step put shut looks s
    (bw_at i W_Loop (s\<lparr>bw_sink := k, bw_written := bw_written s @ b, bw_released := bw_released s @ b\<rparr>))"
| write_err: "bw_pcs s i = W_Put b \<Longrightarrow> put b (bw_sink s) = (False, k) \<Longrightarrow> bw_step put shut looks s
    (bw_at i W_Failed (s\<lparr>bw_sink := k, bw_released := bw_released s @ b, bw_failed := True\<rparr>))"
| give_up: "bw_pcs s i = W_Failed \<Longrightarrow> bw_step put shut looks s (bw_at i W_Close (s\<lparr>bw_active := False\<rparr>))"
| call_close: "bw_pcs s i = W_Away \<Longrightarrow> bw_step put shut looks s (bw_at i W_Close s)"
| close_first: "bw_pcs s i = W_Close \<Longrightarrow> \<not> bw_closed s \<Longrightarrow> bw_step put shut looks s
    (bw_at i W_Shut (s\<lparr>bw_closed := True\<rparr>))"
| close_again: "bw_pcs s i = W_Close \<Longrightarrow> bw_closed s \<Longrightarrow> bw_step put shut looks s (bw_at i W_Away s)"
| shut_down: "bw_pcs s i = W_Shut \<Longrightarrow> bw_step put shut looks s (bw_at i W_Drain (s\<lparr>bw_sink := shut (bw_sink s)\<rparr>))"
| drain_idle: "bw_pcs s i = W_Drain \<Longrightarrow> \<not> bw_active s \<Longrightarrow> bw_step put shut looks s
    (bw_at i W_Away (s\<lparr>bw_queue := [], bw_released := bw_released s @ bw_queue s\<rparr>))"
| drain_busy: "bw_pcs s i = W_Drain \<Longrightarrow> bw_active s \<Longrightarrow> bw_step put shut looks s (bw_at i W_Away s)"

definition bw_start :: "'k \<Rightarrow> ('r, 'k) batch_writer" where
  "bw_start k = \<lparr>bw_queue = [], bw_active = False, bw_closed = False, bw_sink = k, bw_pcs = (\<lambda>_. W_Away),
     bw_offered = [], bw_submitted = [], bw_written = [], bw_released = [], bw_failed = False\<rparr>"

section \<open>What the goroutines hold\<close>

fun is_writer :: "'r writer_pc \<Rightarrow> bool" where
  "is_writer W_Loop = True"
| "is_writer (W_Taken _) = True"
| "is_writer (W_Put _) = True"
| "is_writer W_Quit = True"
| "is_writer W_Failed = True"
| "is_writer _ = False"

fun carries :: "'r writer_pc \<Rightarrow> 'r list" where
  "carries (W_Checked r) = [r]"
| "carries (W_Taken b) = b"
| "carries (W_Put b) = b"
| "carries _ = []"

definition busy :: "(nat \<Rightarrow> 'r writer_pc) \<Rightarrow> nat set" where
  "busy pcs = {i. pcs i \<noteq> W_Away}"

definition carried :: "(nat \<Rightarrow> 'r writer_pc) \<Rightarrow> 'r multiset" where
  "carried pcs = (\<Sum>i \<in> busy pcs. mset (carries (pcs i)))"

lemma finite_busy_upd: "finite (busy pcs) \<Longrightarrow> finite (busy (pcs(i := p)))"
  by (rule finite_subset [of _ "insert i (busy pcs)"]) (auto simp: busy_def)

lemma carried_over: "finite A \<Longrightarrow> busy pcs \<subseteq> A \<Longrightarrow> carried pcs = (\<Sum>i \<in> A. mset (carries (pcs i)))"
  unfolding carried_def by (rule sum.mono_neutral_left) (auto simp: busy_def)

lemma carried_upd:
  assumes "finite (busy pcs)"
  shows "carried (pcs(i := p)) + mset (carries (pcs i)) = carried pcs + mset (carries p)"
proof -
  let ?A = "insert i (busy pcs)"
  have A: "finite ?A" using assms by simp
  have "carried (pcs(i := p)) = (\<Sum>j \<in> ?A. mset (carries ((pcs(i := p)) j)))"
    by (rule carried_over [OF A]) (auto simp: busy_def)
  also have "\<dots> = mset (carries p) + (\<Sum>j \<in> ?A - {i}. mset (carries ((pcs(i := p)) j)))"
    using A by (subst sum.remove [of _ i]) simp_all
  also have "(\<Sum>j \<in> ?A - {i}. mset (carries ((pcs(i := p)) j))) = (\<Sum>j \<in> ?A - {i}. mset (carries (pcs j)))"
    by (rule sum.cong) auto
  finally have 1: "carried (pcs(i := p)) = mset (carries p) + (\<Sum>j \<in> ?A - {i}. mset (carries (pcs j)))" .
  have "carried pcs = (\<Sum>j \<in> ?A. mset (carries (pcs j)))"
    by (rule carried_over [OF A]) auto
  also have "\<dots> = mset (carries (pcs i)) + (\<Sum>j \<in> ?A - {i}. mset (carries (pcs j)))"
    using A by (subst sum.remove [of _ i]) simp_all
  finally show ?thesis using 1 by simp
qed

section \<open>Invariants\<close>

text \<open>One writer at a time, and the flag tells whether there is one.\<close>

definition one_writer :: "('r, 'k) batch_writer \<Rightarrow> bool" where
  "one_writer s =
     ((\<forall>i j. is_writer (bw_pcs s i) \<longrightarrow> is_writer (bw_pcs s j) \<longrightarrow> i = j)
      \<and> (bw_active s \<longleftrightarrow> (\<exists>i. is_writer (bw_pcs s i))))"

text \<open>Every request offered is queued, in the hands of one goroutine, or given back, once.\<close>

definition conserved :: "('r, 'k) batch_writer \<Rightarrow> bool" where
  "conserved s =
     (finite (busy (bw_pcs s))
      \<and> mset (bw_offered s) = mset (bw_released s) + mset (bw_queue s) + carried (bw_pcs s))"

text \<open>A queued request has a writer, unless the connection is closed or about to be.\<close>

definition closing :: "('r, 'k) batch_writer \<Rightarrow> bool" where
  "closing s = (\<exists>i. bw_pcs s i = W_Close)"

definition attended :: "('r, 'k) batch_writer \<Rightarrow> bool" where
  "attended s =
     ((bw_queue s \<noteq> [] \<longrightarrow> bw_active s \<or> bw_closed s \<or> bw_failed s \<and> closing s)
      \<and> (\<forall>i. bw_pcs s i = W_Quit \<longrightarrow> bw_closed s)
      \<and> (\<forall>i. bw_pcs s i = W_Failed \<longrightarrow> bw_failed s))"

lemma writer_leaves:
  assumes "one_writer s" and "is_writer (bw_pcs s i)" and "\<not> is_writer p"
    and "bw_pcs t = bw_pcs s" and "\<not> bw_active t"
  shows "one_writer (bw_at i p t)"
  using assms by (auto simp: one_writer_def bw_at_def)

lemma writer_moves:
  assumes "one_writer s" and "is_writer (bw_pcs s i) = is_writer p"
    and "bw_pcs t = bw_pcs s" and "bw_active t = bw_active s"
  shows "one_writer (bw_at i p t)"
  using assms by (auto simp: one_writer_def bw_at_def)

lemma writer_comes:
  assumes "one_writer s" and "\<not> bw_active s"
    and "bw_pcs t = bw_pcs s" and "bw_active t"
  shows "one_writer (bw_at i W_Loop t)"
  using assms by (auto simp: one_writer_def bw_at_def)

lemma one_writer_step:
  assumes "bw_step put shut looks s t" and "one_writer s"
  shows "one_writer t"
  using assms
proof (induction rule: bw_step.induct)
  case (refuse s i r)
  then show ?case by (simp add: one_writer_def)
next
  case (lead s i r)
  then show ?case by (intro writer_comes [of s]) simp_all
next
  case (finish s i)
  then show ?case by (intro writer_leaves [of s]) simp_all
next
  case (quit s i)
  then show ?case by (intro writer_leaves [of s]) simp_all
next
  case (give_up s i)
  then show ?case by (intro writer_leaves [of s]) simp_all
qed (erule writer_moves, simp, simp, simp)+

lemma conserved_at:
  assumes c: "conserved s" and pcs: "bw_pcs t = bw_pcs s"
    and eq: "mset (bw_offered t) + mset (carries (bw_pcs s i)) + mset (bw_released s) + mset (bw_queue s)
      = mset (bw_offered s) + mset (carries p) + mset (bw_released t) + mset (bw_queue t)"
  shows "conserved (bw_at i p t)"
proof -
  have fin: "finite (busy (bw_pcs s))"
    and cons: "mset (bw_offered s) = mset (bw_released s) + mset (bw_queue s) + carried (bw_pcs s)"
    using c by (simp_all add: conserved_def)
  have "(mset (bw_offered t) + (mset (carries (bw_pcs s i)) + mset (bw_released s) + mset (bw_queue s)))
      = (mset (bw_released t) + mset (bw_queue t) + carried ((bw_pcs s)(i := p)))
        + (mset (carries (bw_pcs s i)) + mset (bw_released s) + mset (bw_queue s))"
    using eq carried_upd [OF fin, of i p] cons by (simp add: ac_simps)
  then have "mset (bw_offered t) = mset (bw_released t) + mset (bw_queue t) + carried ((bw_pcs s)(i := p))"
    by (rule add_right_imp_eq)
  then show ?thesis
    using pcs fin by (simp add: conserved_def bw_at_def finite_busy_upd)
qed

lemma conserved_step:
  assumes "bw_step put shut looks s t" and "conserved s"
  shows "conserved t"
  using assms
proof (induction rule: bw_step.induct)
  case (refuse s i r)
  then show ?case by (simp add: conserved_def)
qed (erule conserved_at, simp, simp)+

lemma closing_at: "bw_pcs t i \<noteq> W_Close \<Longrightarrow> closing (bw_at i p t) \<longleftrightarrow> closing t \<or> p = W_Close"
  by (auto simp: closing_def bw_at_def)

lemma closing_update [simp]:
  "closing (s\<lparr>bw_queue := q\<rparr>) = closing s" "closing (s\<lparr>bw_active := a\<rparr>) = closing s"
  "closing (s\<lparr>bw_closed := d\<rparr>) = closing s" "closing (s\<lparr>bw_sink := k\<rparr>) = closing s"
  "closing (s\<lparr>bw_offered := xs\<rparr>) = closing s" "closing (s\<lparr>bw_submitted := xs\<rparr>) = closing s"
  "closing (s\<lparr>bw_written := xs\<rparr>) = closing s" "closing (s\<lparr>bw_released := xs\<rparr>) = closing s"
  "closing (s\<lparr>bw_failed := f\<rparr>) = closing s"
  by (simp_all add: closing_def)

lemma bw_at_fields [simp]:
  "bw_queue (bw_at i p s) = bw_queue s" "bw_active (bw_at i p s) = bw_active s"
  "bw_closed (bw_at i p s) = bw_closed s" "bw_sink (bw_at i p s) = bw_sink s"
  "bw_pcs (bw_at i p s) = (bw_pcs s)(i := p)" "bw_offered (bw_at i p s) = bw_offered s"
  "bw_submitted (bw_at i p s) = bw_submitted s" "bw_written (bw_at i p s) = bw_written s"
  "bw_released (bw_at i p s) = bw_released s" "bw_failed (bw_at i p s) = bw_failed s"
  by (simp_all add: bw_at_def)

lemma attended_step:
  assumes "bw_step put shut looks s t" and "attended s"
  shows "attended t"
  using assms
  by (induction rule: bw_step.induct) (auto simp: attended_def closing_at)



section \<open>The order of the bytes\<close>

text \<open>
  As long as no write has failed, the sink has received the written requests, and these are
  a prefix of the submitted ones. While it is open (and, for a writer that looks at the
  closed flag, this is not set), the rest is in the writer's hands and in the queue.
\<close>

definition delivered ::
    "('k \<Rightarrow> 'a list) \<Rightarrow> ('r \<Rightarrow> 'a list) \<Rightarrow> 'a list \<Rightarrow> ('r, 'k) batch_writer \<Rightarrow> bool" where
  "delivered sent data l0 s =
     (sent (bw_sink s) = l0 @ concat (map data (bw_written s)) \<and> prefix (bw_written s) (bw_submitted s))"

definition put_next :: "('r, 'k) batch_writer \<Rightarrow> bool" where
  "put_next s = (\<forall>i b. bw_pcs s i = W_Put b \<longrightarrow> bw_submitted s = bw_written s @ b @ bw_queue s)"

fun holding :: "'r writer_pc \<Rightarrow> bool" where
  "holding (W_Taken _) = True"
| "holding (W_Put _) = True"
| "holding _ = False"

definition in_hand :: "('r, 'k) batch_writer \<Rightarrow> bool" where
  "in_hand s = (\<exists>i. holding (bw_pcs s i))"

definition take_next :: "('r, 'k) batch_writer \<Rightarrow> bool" where
  "take_next s =
     ((\<forall>i b. bw_pcs s i = W_Taken b \<longrightarrow> bw_submitted s = bw_written s @ b @ bw_queue s)
      \<and> (\<not> in_hand s \<longrightarrow> bw_submitted s = bw_written s @ bw_queue s))"

definition in_order ::
    "('k \<Rightarrow> bool) \<Rightarrow> ('k \<Rightarrow> 'a list) \<Rightarrow> ('r \<Rightarrow> 'a list) \<Rightarrow> bool \<Rightarrow> 'a list \<Rightarrow> ('r, 'k) batch_writer \<Rightarrow> bool" where
  "in_order is_shut sent data looks l0 s =
     ((\<forall>i. bw_pcs s i = W_Drain \<longrightarrow> is_shut (bw_sink s))
      \<and> (\<not> bw_failed s \<longrightarrow>
          delivered sent data l0 s
          \<and> (\<not> is_shut (bw_sink s) \<longrightarrow>
              put_next s \<and> ((looks \<longrightarrow> \<not> bw_closed s) \<longrightarrow> take_next s))))"

lemma other_writers:
  "one_writer s \<Longrightarrow> is_writer (bw_pcs s i) \<Longrightarrow> j \<noteq> i \<Longrightarrow> \<not> is_writer (bw_pcs s j)"
  "one_writer s \<Longrightarrow> \<not> bw_active s \<Longrightarrow> \<not> is_writer (bw_pcs s j)"
  by (auto simp: one_writer_def)

lemma holding_writer: "holding p \<Longrightarrow> is_writer p"
  by (cases p) simp_all

lemma in_hand_at: "\<not> holding (bw_pcs t i) \<Longrightarrow> in_hand (bw_at i p t) \<longleftrightarrow> in_hand t \<or> holding p"
  by (auto simp: in_hand_def)

lemma in_hand_update [simp]:
  "in_hand (s\<lparr>bw_queue := q\<rparr>) = in_hand s" "in_hand (s\<lparr>bw_active := a\<rparr>) = in_hand s"
  "in_hand (s\<lparr>bw_closed := d\<rparr>) = in_hand s" "in_hand (s\<lparr>bw_sink := k\<rparr>) = in_hand s"
  "in_hand (s\<lparr>bw_offered := xs\<rparr>) = in_hand s" "in_hand (s\<lparr>bw_submitted := xs\<rparr>) = in_hand s"
  "in_hand (s\<lparr>bw_written := xs\<rparr>) = in_hand s" "in_hand (s\<lparr>bw_released := xs\<rparr>) = in_hand s"
  "in_hand (s\<lparr>bw_failed := f\<rparr>) = in_hand s"
  by (simp_all add: in_hand_def)

lemma hands_empty:
  assumes "one_writer s" and "bw_pcs s i = W_Loop \<or> \<not> bw_active s"
  shows "\<not> in_hand s" "bw_pcs s j \<noteq> W_Taken b" "bw_pcs s j \<noteq> W_Put b"
proof -
  have h: "\<not> holding (bw_pcs s j)" for j
  proof
    assume j: "holding (bw_pcs s j)"
    then have w: "is_writer (bw_pcs s j)" by (rule holding_writer)
    then have "bw_active s" using assms(1) by (auto simp: one_writer_def)
    then have "bw_pcs s i = W_Loop" using assms(2) by simp
    then have "j = i" using assms(1) w by (auto simp: one_writer_def)
    with j \<open>bw_pcs s i = W_Loop\<close> show False by simp
  qed
  then show "\<not> in_hand s" by (simp add: in_hand_def)
  from h [of j] show "bw_pcs s j \<noteq> W_Taken b" "bw_pcs s j \<noteq> W_Put b" by auto
qed

lemma others_empty:
  assumes "one_writer s" and "holding (bw_pcs s i)" and "j \<noteq> i"
  shows "bw_pcs s j \<noteq> W_Taken b" "bw_pcs s j \<noteq> W_Put b" "\<not> holding (bw_pcs s j)"
proof -
  show "\<not> holding (bw_pcs s j)"
    using assms other_writers(1) holding_writer by metis
  then show "bw_pcs s j \<noteq> W_Taken b" "bw_pcs s j \<noteq> W_Put b" by auto
qed

text \<open>
  The contract of a sink: a successful write appends the bytes of the batch and is possible
  only while the sink is open; closing it keeps the bytes.
\<close>

locale batch_sink =
  fixes put :: "'r list \<Rightarrow> 'k \<Rightarrow> bool \<times> 'k"
    and shut :: "'k \<Rightarrow> 'k"
    and is_shut :: "'k \<Rightarrow> bool"
    and sent :: "'k \<Rightarrow> 'a list"
    and data :: "'r \<Rightarrow> 'a list"
  assumes put_ok: "put b k = (True, k') \<Longrightarrow> \<not> is_shut k \<and> sent k' = sent k @ concat (map data b)"
    and put_open: "put b k = (ok, k') \<Longrightarrow> is_shut k' = is_shut k"
    and shut_shut: "is_shut (shut k)"
    and shut_log: "sent (shut k) = sent k"
begin

lemma in_order_step:
  assumes "bw_step put shut looks s t" and "one_writer s" and "in_order is_shut sent data looks l0 s"
  shows "in_order is_shut sent data looks l0 t"
  using assms
proof (induction rule: bw_step.induct)
  case (join s i r)
  then show ?case
    by (auto simp: in_order_def delivered_def put_next_def take_next_def in_hand_at)
next
  case (lead s i r)
  note e = hands_empty [OF lead(3) disjI2 [OF lead(2)]]
  from lead e show ?case
    by (auto simp: in_order_def delivered_def put_next_def take_next_def in_hand_at)
next
  case (take_batch s i)
  note e = hands_empty [OF take_batch(3) disjI1 [OF take_batch(1)]]
  from take_batch e show ?case
    by (auto simp: in_order_def delivered_def put_next_def take_next_def in_hand_at)
next
  case (look_closed s i b)
  have "bw_pcs s j \<noteq> W_Put b'" if "j \<noteq> i" for j b'
    using others_empty(2) [OF look_closed(4) _ that] look_closed(1) by simp
  with look_closed show ?case
    by (auto simp: in_order_def delivered_def put_next_def)
next
  case (look_open s i b)
  have o: "bw_pcs s j \<noteq> W_Put b'" "bw_pcs s j \<noteq> W_Taken b'" if "j \<noteq> i" for j b'
    using others_empty [OF look_open(3) _ that] look_open(1) by simp_all
  have "in_hand (bw_at i (W_Put b) s)"
    by (auto simp: in_hand_def intro: exI [of _ i])
  with look_open o show ?case
    by (auto simp: in_order_def delivered_def put_next_def take_next_def)
next
  case (write_ok s i b k)
  have o: "bw_pcs s j \<noteq> W_Put b'" "bw_pcs s j \<noteq> W_Taken b'" if "j \<noteq> i" for j b'
    using others_empty [OF write_ok(3) _ that] write_ok(1) by simp_all
  show ?case
    using write_ok o put_ok [OF write_ok(2)] put_open [OF write_ok(2)]
    by (auto simp: in_order_def delivered_def put_next_def take_next_def)
next
  case (write_err s i b k)
  then show ?case
    using put_open [OF write_err(2)] by (auto simp: in_order_def)
next
  case (shut_down s i)
  then show ?case
    by (auto simp: in_order_def delivered_def shut_shut shut_log)
qed (auto simp: in_order_def delivered_def put_next_def take_next_def in_hand_at)

lemma in_order_start: "in_order is_shut sent data looks (sent k) (bw_start k)"
  by (simp add: in_order_def delivered_def put_next_def take_next_def bw_start_def)

end

section \<open>The two writers of the server\<close>

inductive bw_reachable ::
    "('r list \<Rightarrow> 'k \<Rightarrow> bool \<times> 'k) \<Rightarrow> ('k \<Rightarrow> 'k) \<Rightarrow> bool \<Rightarrow> 'k \<Rightarrow> ('r, 'k) batch_writer \<Rightarrow> bool"
  for put shut looks k where
  bw_init: "bw_reachable put shut looks k (bw_start k)"
| bw_next: "bw_reachable put shut looks k s \<Longrightarrow> bw_step put shut looks s t \<Longrightarrow> bw_reachable put shut looks k t"

definition frames_put :: "writeReq list \<Rightarrow> go_conn \<Rightarrow> bool \<times> go_conn" where
  "frames_put b k = nc_Write (concat (map wr_data b)) k"

definition ingress_put :: "ingressJob list \<Rightarrow> go_conn \<Rightarrow> bool \<times> go_conn" where
  "ingress_put b k = nc_Write (concat (map ij_payload b)) k"

lemma nc_Write_failed: "nc_Write d k = (ok, k') \<Longrightarrow> nc_closed k' = nc_closed k"
  by (metis nc_Write_closed snd_conv)

interpretation frames: batch_sink frames_put nc_Close nc_closed nc_sent wr_data
  by unfold_locales (auto simp: frames_put_def nc_Close_def dest: nc_Write_ok nc_Write_failed)

interpretation ingress: batch_sink ingress_put nc_Close nc_closed nc_sent ij_payload
  by unfold_locales (auto simp: ingress_put_def nc_Close_def dest: nc_Write_ok nc_Write_failed)

lemma bw_start_inv: "one_writer (bw_start k)" "conserved (bw_start k)" "attended (bw_start k)"
  by (simp_all add: bw_start_def one_writer_def conserved_def busy_def carried_def attended_def)

lemma bw_reachable_inv:
  assumes "bw_reachable put shut looks k s"
  shows "one_writer s \<and> conserved s \<and> attended s"
  using assms
proof induction
  case bw_init
  show ?case by (intro conjI bw_start_inv)
next
  case (bw_next s t)
  then have "one_writer s" "conserved s" "attended s" by simp_all
  with one_writer_step [OF bw_next(2)] conserved_step [OF bw_next(2)] attended_step [OF bw_next(2)]
  show ?case by simp
qed

lemma frames_in_order:
  assumes "bw_reachable frames_put nc_Close looks k s"
  shows "in_order nc_closed nc_sent wr_data looks (nc_sent k) s"
  using assms
proof induction
  case bw_init
  show ?case by (rule frames.in_order_start)
next
  case (bw_next s t)
  have "one_writer s" using bw_reachable_inv [OF bw_next(1)] by simp
  from frames.in_order_step [OF bw_next(2) this bw_next(3)] show ?case .
qed

lemma ingress_in_order:
  assumes "bw_reachable ingress_put nc_Close looks k s"
  shows "in_order nc_closed nc_sent ij_payload looks (nc_sent k) s"
  using assms
proof induction
  case bw_init
  show ?case by (rule ingress.in_order_start)
next
  case (bw_next s t)
  have "one_writer s" using bw_reachable_inv [OF bw_next(1)] by simp
  from ingress.in_order_step [OF bw_next(2) this bw_next(3)] show ?case .
qed

lemma idle_all_written:
  assumes "in_order is_shut sent data looks l0 s" and "one_writer s" and "attended s"
    and "\<not> bw_failed s" "\<not> bw_active s" "\<not> bw_closed s" "\<not> is_shut (bw_sink s)"
  shows "bw_written s = bw_submitted s"
proof -
  have "bw_queue s = []" using assms by (auto simp: attended_def)
  moreover have "\<not> in_hand s" by (rule hands_empty(1) [OF assms(2) disjI2 [OF assms(5)]])
  ultimately show ?thesis using assms by (simp add: in_order_def take_next_def)
qed

text \<open>
  C15: Frames reach the client whole and in the order in which they were submitted, however the
  goroutines that send them interleave: there is never more than one writer; until a write
  fails, the connection has received exactly the frames of successful batches, which are the
  first ones submitted; and when no writer is active on an open connection, all of them.
\<close>

theorem frames_fifo:
  assumes "bw_reachable frames_put nc_Close False k s"
  shows "(\<forall>i j. is_writer (bw_pcs s i) \<longrightarrow> is_writer (bw_pcs s j) \<longrightarrow> i = j)
    \<and> (\<not> bw_failed s \<longrightarrow>
        nc_sent (bw_sink s) = nc_sent k @ concat (map wr_data (bw_written s))
        \<and> prefix (bw_written s) (bw_submitted s)
        \<and> (\<not> bw_active s \<longrightarrow> \<not> bw_closed s \<longrightarrow> \<not> nc_closed (bw_sink s) \<longrightarrow> bw_written s = bw_submitted s))"
  using frames_in_order [OF assms] bw_reachable_inv [OF assms] idle_all_written [OF frames_in_order [OF assms]]
  by (auto simp: in_order_def delivered_def one_writer_def)

text \<open>A run of two goroutines: the second joins while the first is about to write.\<close>

definition example_req :: "byte \<Rightarrow> writeReq" where
  "example_req b = \<lparr>wr_data = [b, b], wr_buf = Some (unat b)\<rparr>"

definition example_run :: "(writeReq, go_conn) batch_writer" where
  "example_run = bw_at 1 W_Away (bw_at 1 (W_Checked (example_req 2)) (bw_at 0 (W_Put [example_req 1])
     ((bw_start (nc_fresh []))\<lparr>bw_offered := [example_req 1, example_req 2],
       bw_submitted := [example_req 1, example_req 2], bw_queue := [example_req 2], bw_active := True\<rparr>)))"

lemma example_run_reachable:
  "bw_reachable frames_put nc_Close False (nc_fresh []) example_run"
proof -
  let ?step = "bw_step frames_put nc_Close False"
  let ?s = "bw_start (nc_fresh []) :: (writeReq, go_conn) batch_writer"
  let ?r = "example_req 1" and ?q = "example_req 2"
  note nx = bw_next
  define s1 where "s1 = bw_at 0 (W_Checked ?r) (?s\<lparr>bw_offered := bw_offered ?s @ [?r]\<rparr>)"
  define s2 where "s2 = bw_at 0 W_Loop (s1\<lparr>bw_queue := bw_queue s1 @ [?r],
      bw_submitted := bw_submitted s1 @ [?r], bw_active := True\<rparr>)"
  define s3 where "s3 = bw_at 0 (W_Taken (bw_queue s2)) (s2\<lparr>bw_queue := []\<rparr>)"
  define s4 where "s4 = bw_at 0 (W_Put [?r]) s3"
  define s5 where "s5 = bw_at 1 (W_Checked ?q) (s4\<lparr>bw_offered := bw_offered s4 @ [?q]\<rparr>)"
  define s6 where "s6 = bw_at 1 W_Away (s5\<lparr>bw_queue := bw_queue s5 @ [?q],
      bw_submitted := bw_submitted s5 @ [?q]\<rparr>)"
  have 1: "?step ?s s1" unfolding s1_def by (rule check) (simp_all add: bw_start_def)
  have 2: "?step s1 s2" unfolding s2_def by (rule lead) (simp_all add: s1_def bw_start_def)
  have 3: "?step s2 s3" unfolding s3_def by (rule take_batch) (simp_all add: s2_def)
  have 4: "?step s3 s4" unfolding s4_def by (rule look_open) (simp_all add: s3_def s2_def s1_def bw_start_def)
  have 5: "?step s4 s5"
    unfolding s5_def by (rule check) (simp_all add: s4_def s3_def s2_def s1_def bw_start_def)
  have 6: "?step s5 s6"
    unfolding s6_def by (rule join) (simp_all add: s5_def s4_def s3_def s2_def s1_def bw_start_def)
  have "s6 = example_run"
    by (simp add: s6_def s5_def s4_def s3_def s2_def s1_def example_run_def bw_at_def bw_start_def fun_upd_twist)
  moreover have "bw_reachable frames_put nc_Close False (nc_fresh []) s6"
    by (rule nx [OF nx [OF nx [OF nx [OF nx [OF nx [OF bw_init 1] 2] 3] 4] 5] 6])
  ultimately show ?thesis by simp
qed

lemma example_run_fields:
  "bw_failed example_run = False" "bw_written example_run = []" "bw_released example_run = []"
  "bw_submitted example_run = [example_req 1, example_req 2]"
  "bw_offered example_run = [example_req 1, example_req 2]" "bw_queue example_run = [example_req 2]"
  by (simp_all add: example_run_def bw_start_def)

theorem frames_fifo_witness:
  "prefix (bw_written example_run) [example_req 1, example_req 2]"
  using conjunct2 [OF frames_fifo [OF example_run_reachable]] unfolding example_run_fields by blast

text \<open>
  No buffer is lost between goroutines or given back twice: at every moment each request
  offered is in the queue, in the hands of one goroutine, or released, with multiplicity;
  and a queued request has a writer coming for it unless the connection is closed, or about
  to be after a failed write.
\<close>

theorem frames_conserved:
  assumes "bw_reachable frames_put nc_Close False k s"
  shows "mset (bw_offered s) = mset (bw_released s) + mset (bw_queue s) + carried (bw_pcs s)
    \<and> (bw_queue s \<noteq> [] \<longrightarrow> (\<exists>i. is_writer (bw_pcs s i)) \<or> bw_closed s \<or> bw_failed s \<and> closing s)"
  using bw_reachable_inv [OF assms] by (auto simp: conserved_def attended_def one_writer_def)

theorem frames_conserved_witness:
  "mset [example_req 1, example_req 2] = mset [] + mset [example_req 2] + carried (bw_pcs example_run)"
  using conjunct1 [OF frames_conserved [OF example_run_reachable]] unfolding example_run_fields .

text \<open>
  The same for the data of a stream: the target receives the payloads whole and in order,
  as long as no write to it fails, also when the stream is closed in between.
\<close>

theorem ingress_fifo:
  assumes "bw_reachable ingress_put nc_Close True k s"
  shows "(\<forall>i j. is_writer (bw_pcs s i) \<longrightarrow> is_writer (bw_pcs s j) \<longrightarrow> i = j)
    \<and> mset (bw_offered s) = mset (bw_released s) + mset (bw_queue s) + carried (bw_pcs s)
    \<and> (\<not> bw_failed s \<longrightarrow>
        nc_sent (bw_sink s) = nc_sent k @ concat (map ij_payload (bw_written s))
        \<and> prefix (bw_written s) (bw_submitted s)
        \<and> (\<not> bw_active s \<longrightarrow> \<not> bw_closed s \<longrightarrow> \<not> nc_closed (bw_sink s) \<longrightarrow> bw_written s = bw_submitted s))"
  using ingress_in_order [OF assms] bw_reachable_inv [OF assms] idle_all_written [OF ingress_in_order [OF assms]]
  by (auto simp: in_order_def delivered_def one_writer_def conserved_def)

theorem ingress_fifo_witness:
  "nc_sent (bw_sink (bw_start (nc_fresh []) :: (ingressJob, go_conn) batch_writer))
     = nc_sent (nc_fresh []) @ concat (map ij_payload
         (bw_written (bw_start (nc_fresh []) :: (ingressJob, go_conn) batch_writer)))"
proof -
  have "\<not> bw_failed (bw_start (nc_fresh []) :: (ingressJob, go_conn) batch_writer)"
    by (simp add: bw_start_def)
  then show ?thesis
    using conjunct2 [OF conjunct2 [OF ingress_fifo [OF bw_init [of _ _ _ "nc_fresh []"]]]] by blast
qed


section \<open>The atomic model is one of the interleavings\<close>

text \<open>
  The connection as \<open>submitWrite\<close> of the sequential model sees it, in a state of the
  concurrent one.
\<close>

definition wire_view :: "wire \<Rightarrow> (writeReq, go_conn) batch_writer \<Rightarrow> bool" where
  "wire_view w s =
     (bw_queue s = w_pendingWrites w \<and> bw_active s = w_writeActive w \<and> bw_closed s = w_isClosed w
      \<and> bw_sink s = w_netConn w \<and> req_bufs (bw_released s) = w_returned w)"

abbreviation frames_step ::
    "(writeReq, go_conn) batch_writer \<Rightarrow> (writeReq, go_conn) batch_writer \<Rightarrow> bool" where
  "frames_step \<equiv> bw_step frames_put nc_Close False"

lemma steps_then: "frames_step\<^sup>*\<^sup>* s t \<Longrightarrow> frames_step t u \<Longrightarrow> frames_step\<^sup>*\<^sup>* s u"
  by (rule rtranclp.rtrancl_into_rtrancl)

lemma step_once: "frames_step s t \<Longrightarrow> frames_step\<^sup>*\<^sup>* s t"
  by (rule r_into_rtranclp [of frames_step])

text \<open>A goroutine alone with the writer: it becomes the writer and takes its own request.\<close>

lemma lone_writer:
  assumes "bw_pcs s i = W_Away" "\<not> bw_closed s" "\<not> bw_active s" "bw_queue s = []"
  shows "frames_step\<^sup>*\<^sup>* s (bw_at i (W_Put [r]) (s\<lparr>bw_offered := bw_offered s @ [r],
      bw_submitted := bw_submitted s @ [r], bw_active := True\<rparr>))"
proof -
  define s1 where "s1 = bw_at i (W_Checked r) (s\<lparr>bw_offered := bw_offered s @ [r]\<rparr>)"
  define s2 where "s2 = bw_at i W_Loop (s1\<lparr>bw_queue := bw_queue s1 @ [r],
      bw_submitted := bw_submitted s1 @ [r], bw_active := True\<rparr>)"
  define s3 where "s3 = bw_at i (W_Taken (bw_queue s2)) (s2\<lparr>bw_queue := []\<rparr>)"
  have 1: "frames_step s s1" unfolding s1_def by (rule check) (simp_all add: assms)
  have 2: "frames_step s1 s2" unfolding s2_def by (rule lead) (simp_all add: s1_def assms)
  have 3: "frames_step s2 s3" unfolding s3_def by (rule take_batch) (simp_all add: s2_def)
  have 4: "frames_step s3 (bw_at i (W_Put [r]) s3)"
    by (rule look_open) (simp_all add: s3_def s2_def s1_def assms)
  have "bw_at i (W_Put [r]) s3 = bw_at i (W_Put [r]) (s\<lparr>bw_offered := bw_offered s @ [r],
      bw_submitted := bw_submitted s @ [r], bw_active := True\<rparr>)"
    by (simp add: s3_def s2_def s1_def bw_at_def assms)
  with steps_then [OF steps_then [OF steps_then [OF step_once [OF 1] 2] 3] 4] show ?thesis
    by simp
qed

text \<open>
  C21: The sequential model of the writer is faithful to the concurrent one: what it says a
  call of \<open>submitWrite\<close> does, with the loop of \<open>runWriter\<close> and the closing behind a failed
  write, is what a goroutine does that runs it without interruption.
\<close>

theorem submitWrite_refines:
  assumes view: "wire_view w s" and ok: "wire_ok w" and away: "bw_pcs s i = W_Away"
  shows "\<exists>t. frames_step\<^sup>*\<^sup>* s t \<and> wire_view (submitWrite r w) t \<and> bw_pcs t = bw_pcs s"
proof -
  note v = view [unfolded wire_view_def]
  have pcs: "(bw_pcs s)(i := W_Away) = bw_pcs s" using away by (simp add: fun_upd_idem)
  show ?thesis
  proof (cases "w_isClosed w")
    case True
    define t where "t = s\<lparr>bw_offered := bw_offered s @ [r], bw_released := bw_released s @ [r]\<rparr>"
    have 1: "frames_step s t" unfolding t_def by (rule refuse) (use away v True in simp_all)
    have "wire_view (submitWrite r w) t" "bw_pcs t = bw_pcs s"
      using v True by (simp_all add: wire_view_def submitWrite_def t_def)
    with step_once [OF 1] show ?thesis by blast
  next
    case live: False
    show ?thesis
    proof (cases "w_writeActive w")
      case True
      define s1 where "s1 = bw_at i (W_Checked r) (s\<lparr>bw_offered := bw_offered s @ [r]\<rparr>)"
      define s2 where "s2 = bw_at i W_Away (s1\<lparr>bw_queue := bw_queue s1 @ [r],
          bw_submitted := bw_submitted s1 @ [r]\<rparr>)"
      have 1: "frames_step s s1" unfolding s1_def by (rule check) (use away v live in simp_all)
      have 2: "frames_step s1 s2" unfolding s2_def by (rule join) (use v True in \<open>simp_all add: s1_def\<close>)
      have "wire_view (submitWrite r w) s2" "bw_pcs s2 = bw_pcs s"
        using v True live pcs by (simp_all add: wire_view_def submitWrite_def s2_def s1_def)
      with steps_then [OF step_once [OF 1] 2] show ?thesis by blast
    next
      case idle: False
      define s1 where "s1 = bw_at i (W_Put [r]) (s\<lparr>bw_offered := bw_offered s @ [r],
        bw_submitted := bw_submitted s @ [r], bw_active := True\<rparr>)"
      have queue: "bw_queue s = []" using v ok idle by (simp add: wire_ok_def)
      have 1: "frames_step\<^sup>*\<^sup>* s s1"
        unfolding s1_def by (rule lone_writer) (use away v live idle queue in simp_all)
      obtain fine k where w: "nc_Write (wr_data r) (w_netConn w) = (fine, k)" by fastforce
      have put: "frames_put [r] (bw_sink s1) = (fine, k)"
        using v w by (simp add: frames_put_def s1_def)
      note sub = submitWrite_idle [OF ok idle live, of r] w
      show ?thesis
      proof (cases fine)
        case True
        define s2 where "s2 = bw_at i W_Loop (s1\<lparr>bw_sink := k, bw_written := bw_written s1 @ [r],
            bw_released := bw_released s1 @ [r]\<rparr>)"
        define s3 where "s3 = bw_at i W_Away (s2\<lparr>bw_active := False\<rparr>)"
        have 2: "frames_step s1 s2"
          unfolding s2_def by (rule write_ok) (use put True in \<open>simp_all add: s1_def\<close>)
        have 3: "frames_step s2 s3"
          unfolding s3_def by (rule finish) (simp_all add: s2_def s1_def queue)
        have "wire_view (submitWrite r w) s3" "bw_pcs s3 = bw_pcs s"
          using v True live idle pcs sub queue
          by (simp_all add: wire_view_def s3_def s2_def s1_def)
        with steps_then [OF steps_then [OF 1 2] 3] show ?thesis by blast
      next
        case False
        define s2 where "s2 = bw_at i W_Failed (s1\<lparr>bw_sink := k,
            bw_released := bw_released s1 @ [r], bw_failed := True\<rparr>)"
        define s3 where "s3 = bw_at i W_Close (s2\<lparr>bw_active := False\<rparr>)"
        define s4 where "s4 = bw_at i W_Shut (s3\<lparr>bw_closed := True\<rparr>)"
        define s5 where "s5 = bw_at i W_Drain (s4\<lparr>bw_sink := nc_Close (bw_sink s4)\<rparr>)"
        define s6 where "s6 = bw_at i W_Away (s5\<lparr>bw_queue := [], bw_released := bw_released s5 @ bw_queue s5\<rparr>)"
        have 2: "frames_step s1 s2"
          unfolding s2_def by (rule write_err) (use put False in \<open>simp_all add: s1_def\<close>)
        have 3: "frames_step s2 s3" unfolding s3_def by (rule give_up) (simp add: s2_def)
        have 4: "frames_step s3 s4"
          unfolding s4_def by (rule close_first) (use v live in \<open>simp_all add: s3_def s2_def s1_def\<close>)
        have 5: "frames_step s4 s5" unfolding s5_def by (rule shut_down) (simp add: s4_def)
        have 6: "frames_step s5 s6"
          unfolding s6_def by (rule drain_idle) (simp_all add: s5_def s4_def s3_def)
        have "wire_view (submitWrite r w) s6" "bw_pcs s6 = bw_pcs s"
          using v False live idle pcs sub queue
          by (simp_all add: wire_view_def s6_def s5_def s4_def s3_def s2_def s1_def wire_close_def)
        with steps_then [OF steps_then [OF steps_then [OF steps_then [OF steps_then [OF 1 2] 3] 4] 5] 6]
        show ?thesis by blast
      qed
    qed
  qed
qed

theorem submitWrite_refines_witness:
  "\<exists>t. frames_step\<^sup>*\<^sup>* (bw_start (nc_fresh [WriteErr 1])) t
     \<and> wire_view (submitWrite (example_req 1) \<lparr>w_netConn = nc_fresh [WriteErr 1], w_isClosed = False,
         w_closeCh = False, w_pendingWrites = [], w_writeActive = False, w_returned = []\<rparr>) t
     \<and> bw_pcs t = bw_pcs (bw_start (nc_fresh [WriteErr 1]))"
  by (rule submitWrite_refines [where i = 0])
    (simp_all add: wire_view_def wire_ok_def bw_start_def nc_fresh_def)

end
