(* ===== verification/Relay.thy ===== *)
theory Relay
  imports Conn_Data Handler_Setup
begin

text \<open>
  The two directions of a stream from end to end: what a target sends, read by
  \<open>readFromConnection\<close> piece by piece and parsed by the client from the frames it receives,
  and what a client sends in masked frames, cut up by the network, parsed by \<open>readLoop\<close> and
  written to the target.
\<close>

section \<open>The client's view of the frames it receives\<close>

lemma client_read_shorter: "client_read b = Some (b0, body, rest) \<Longrightarrow> length rest < length b"
  by (auto simp: client_read_def ws_length_def split: if_splits)

text \<open>All complete frames at the front of a byte stream, and the bytes behind them.\<close>

function client_frames :: "bytes \<Rightarrow> (byte \<times> bytes) list \<times> bytes" where
  "client_frames b =
     (case client_read b of
        None \<Rightarrow> ([], b)
      | Some (b0, body, rest) \<Rightarrow> apfst ((#) (b0, body)) (client_frames rest))"
  by pat_completeness auto
termination
  by (relation "measure length") (auto intro: client_read_shorter)

declare client_frames.simps [simp del]

lemma client_frames_Nil [simp]: "client_frames [] = ([], [])"
  by (simp add: client_frames.simps client_read_def ws_length_def)

lemma client_frames_frame [simp]:
  "length body < 2 ^ 64 \<Longrightarrow>
     client_frames (ws_frame b0 None body @ rest) = apfst ((#) (b0, body)) (client_frames rest)"
  by (subst client_frames.simps) (simp add: client_read_frame)

text \<open>The data of one stream in a sequence of frames, as a client puts it together.\<close>

definition packet_data :: "u32 \<Rightarrow> bytes \<Rightarrow> bytes" where
  "packet_data i pkt =
     (if 5 \<le> length pkt \<and> pkt ! 0 = packetTypeData \<and> le32_of (take 4 (drop 1 pkt)) = i
      then drop 5 pkt else [])"

definition stream_data :: "u32 \<Rightarrow> (byte \<times> bytes) list \<Rightarrow> bytes" where
  "stream_data i fs = concat (map (packet_data i \<circ> snd) (filter (\<lambda>(b0, _). b0 = 0x82) fs))"

lemma packet_data_wispPacket:
  "packet_data i (wispPacket ty j d) = (if ty = packetTypeData \<and> j = i then d else [])"
  by (simp add: packet_data_def wispPacket_parts)

section \<open>Reading from the target\<close>

text \<open>
  \<open>Read\<close> on the connection to a target: a TCP connection gives what has arrived and fits, a
  UDP socket the beginning of one datagram, whose rest is lost. A read into an empty slice
  returns at once with nothing, until the connection is closed.
\<close>

definition udp_Read :: "nat \<Rightarrow> net_in \<Rightarrow> bytes \<times> bool \<times> net_in" where
  "udp_Read k ni =
     (case ni_chunks ni of
        [] \<Rightarrow> ([], True, ni)
      | d # ds \<Rightarrow> (take k d, False, ni\<lparr>ni_chunks := ds\<rparr>))"

definition target_Read :: "bool \<Rightarrow> nat \<Rightarrow> bool \<Rightarrow> net_in \<Rightarrow> bytes \<times> bool \<times> net_in" where
  "target_Read udp k gone ni =
     (if gone then ([], True, ni)
      else if k = 0 then ([], False, ni)
      else if udp then udp_Read k ni
      else conn_Read k ni)"

definition is_udp :: "nat \<Rightarrow> wispConnection \<Rightarrow> bool" where
  "is_udp p c = (ws_streamType (stream_at p c) = streamTypeUDP)"

definition conn_closed :: "nat \<Rightarrow> wispConnection \<Rightarrow> bool" where
  "conn_closed p c = (case ws_conn (stream_at p c) of None \<Rightarrow> True | Some k \<Rightarrow> nc_closed k)"

text \<open>
  The loop of \<open>readFromConnection\<close>: \<open>ni\<close> is what the target will send, \<open>fin\<close> how it ends;
  \<open>bufs n\<close> is the \<open>n\<close>-th buffer taken from the pool and \<open>hdr n\<close> what its first 15 bytes
  contained. \<open>None\<close> would be a loop that never ends.
\<close>

datatype relay_end = ReadPanic | ReadEnded wispConnection

partial_function (option) readFromConnection ::
    "(nat \<Rightarrow> nat) \<Rightarrow> (nat \<Rightarrow> bytes) \<Rightarrow> read_error \<Rightarrow> nat \<Rightarrow> nat \<Rightarrow> net_in \<Rightarrow> wispConnection
      \<Rightarrow> relay_end option" where
  "readFromConnection bufs hdr fin p n ni c =
     (case readRoom (wc_config c) of
        None \<Rightarrow> Some ReadPanic
      | Some room \<Rightarrow>
          (case target_Read (is_udp p c) room (conn_closed p c) ni of (d, e, ni') \<Rightarrow>
             let err = (if \<not> e then None else if conn_closed p c then Some OtherError else Some fin);
                 c' = stream_read p (bufs n) (bufs (Suc n)) (hdr n) d err (end_task (ReadTask p) c)
             in if e then Some (ReadEnded c')
                else readFromConnection bufs hdr fin p (if d = [] then n else Suc n) ni' c'))"

definition end_reason :: "read_error \<Rightarrow> u8" where
  "end_reason fin = (case fin of EOF \<Rightarrow> closeReasonVoluntary | OtherError \<Rightarrow> closeReasonNetworkError)"

subsection \<open>A connection that takes what it is sent\<close>

definition wire_open :: "wire \<Rightarrow> bool" where
  "wire_open w = (wire_ok w \<and> \<not> w_writeActive w \<and> \<not> w_isClosed w \<and> nc_outcomes (w_netConn w) = [])"

definition wire_sent :: "wispConnection \<Rightarrow> bytes" where
  "wire_sent c = nc_sent (w_netConn (wc_wire c))"

lemma submitWrite_open:
  assumes "wire_open w"
  shows "submitWrite req w = w\<lparr>w_netConn := (w_netConn w)\<lparr>nc_sent := nc_sent (w_netConn w) @ wr_data req\<rparr>,
     w_returned := w_returned w @ req_bufs [req]\<rparr>"
  using assms submitWrite_idle [of w req]
  by (auto simp: wire_open_def nc_Write_def wire_ok_def Let_def)

lemma wire_open_sent [simp]:
  "wire_open (w\<lparr>w_netConn := (w_netConn w)\<lparr>nc_sent := s\<rparr>, w_returned := r\<rparr>) = wire_open w"
  "wire_open (w\<lparr>w_netConn := (w_netConn w)\<lparr>nc_sent := s\<rparr>\<rparr>) = wire_open w"
  "wire_open (w\<lparr>w_returned := r\<rparr>) = wire_open w"
  by (simp_all add: wire_open_def wire_ok_def)

text \<open>A stream whose target is connected, on such a connection.\<close>

definition relaying :: "u32 \<Rightarrow> nat \<Rightarrow> wispConnection \<Rightarrow> bool" where
  "relaying i p c \<longleftrightarrow> p < length (wc_heap c) \<and> ws_isOpen (stream_at p c) \<and> ws_streamId (stream_at p c) = i
     \<and> \<not> conn_closed p c \<and> wire_open (wc_wire c)"

lemma relayingD:
  assumes "relaying i p c"
  shows "p < length (wc_heap c)" "ws_isOpen (stream_at p c)" "ws_streamId (stream_at p c) = i"
    "\<not> conn_closed p c" "wire_open (wc_wire c)"
  using assms by (simp_all add: relaying_def)

text \<open>What one round sends, and the buffer it hands to the writer.\<close>

definition data_packet :: "u32 \<Rightarrow> bytes \<Rightarrow> bytes" where
  "data_packet i d = ws_frame 0x82 None (wispPacket packetTypeData i d)"

definition wire_data :: "u32 \<Rightarrow> nat \<Rightarrow> bytes \<Rightarrow> wire \<Rightarrow> wire" where
  "wire_data i b d w =
     (if d = [] then w
      else w\<lparr>w_netConn := (w_netConn w)\<lparr>nc_sent := nc_sent (w_netConn w) @ data_packet i d\<rparr>,
             w_returned := w_returned w @ [b]\<rparr>)"

lemma wire_data_open [simp]: "wire_open (wire_data i b d w) = wire_open w"
  by (simp add: wire_data_def)

lemma queueWritePooled_data:
  assumes "wire_open w" and "length h = 15" and "d \<noteq> []"
  shows "queueWritePooled (dataFrame i (length d) (h @ d)) b w = wire_data i b d w"
  using assms by (simp add: queueWritePooled_def submitWrite_open wire_data_def data_packet_def
      dataFrame_rawFrame rawFrame_eq)

lemma stream_read_goes_on:
  fixes b b' :: nat and d :: bytes and t :: task
  assumes "relaying i p c" and "length h = 15"
  defines "c' \<equiv> stream_read p b b' h d None (end_task t c)"
  shows "wc_wire c' = wire_data i b d (wc_wire c)" "wc_config c' = wc_config c" "relaying i p c'"
    and "wc_heap c' = wc_heap c"
proof -
  note D = relayingD [OF assms(1)]
  show "wc_wire c' = wire_data i b d (wc_wire c)"
    using D queueWritePooled_data [OF D(5) assms(2)]
    by (auto simp: c'_def stream_read_def spawn_def on_wire_def end_task_def wire_data_def)
  moreover show heap: "wc_heap c' = wc_heap c"
    by (simp add: c'_def stream_read_def spawn_def on_wire_def end_task_def)
  ultimately show "relaying i p c'"
    using D by (simp add: relaying_def conn_closed_def)
  show "wc_config c' = wc_config c"
    by (simp add: c'_def stream_read_def spawn_def on_wire_def end_task_def)
qed

lemma sendClosePacket_open:
  "wire_open w \<Longrightarrow> sendClosePacket i r w
     = w\<lparr>w_netConn := (w_netConn w)\<lparr>nc_sent := nc_sent (w_netConn w) @ closeFrame i r\<rparr>\<rparr>"
  by (simp add: sendClosePacket_def queueWrite_def submitWrite_open) (simp add: wire_open_def)

lemma stream_read_ends:
  fixes b b' :: nat and d :: bytes and t :: task and fin :: read_error
  assumes "relaying i p c" and "length h = 15"
  defines "c' \<equiv> stream_read p b b' h d (Some fin) (end_task t c)"
  shows "wire_sent c' = wire_sent c @ (if d = [] then [] else data_packet i d) @ closeFrame i (end_reason fin)"
    and "w_returned (wc_wire c') = w_returned (wc_wire c) @ (if d = [] then [b] else [b, b'])"
    and "\<not> ws_isOpen (stream_at p c')"
proof -
  note D = relayingD [OF assms(1)]
  let ?w = "put_read_buf (if 0 < length d then b' else b) (wire_data i b d (wc_wire c))"
  have w: "wire_open ?w"
    using D(5) by (simp add: put_read_buf_def)
  define c1 where "c1 = (if 0 < length d
                then on_wire (queueWritePooled
                       (dataFrame (ws_streamId (stream_at p (end_task t c))) (length d) (h @ d)) b) (end_task t c)
                else end_task t c)"
  have c1: "wc_wire c1 = wire_data i b d (wc_wire c)" "wc_heap c1 = wc_heap c"
    using D queueWritePooled_data [OF D(5) assms(2)]
    by (auto simp: c1_def on_wire_def end_task_def wire_data_def)
  let ?c2 = "on_wire (put_read_buf (if 0 < length d then b' else b)) c1"
  have c': "c' = signalConnReady p (stream_close p (end_reason fin) ?c2)"
    by (cases fin) (simp_all add: c'_def stream_read_def c1_def end_reason_def Let_def)
  have "wc_wire c' = sendClosePacket i (end_reason fin) ?w"
    using D by (simp add: c' stream_close_wire signalConnReady_def on_wire_def c1)
  then show "wire_sent c' = wire_sent c @ (if d = [] then [] else data_packet i d) @ closeFrame i (end_reason fin)"
    and "w_returned (wc_wire c') = w_returned (wc_wire c) @ (if d = [] then [b] else [b, b'])"
    using sendClosePacket_open [OF w]
    by (simp_all add: wire_sent_def put_read_buf_def wire_data_def)
  show "\<not> ws_isOpen (stream_at p c')"
    using D c1 stream_close_fields(9,10) [of p ?c2 "end_reason fin"]
    by (simp add: c' signalConnReady_def on_wire_def)
qed

subsection \<open>Everything the target sends arrives\<close>

text \<open>The pieces in which the goroutine has relayed what a target sent, on the way to its end.\<close>

definition relayed ::
    "u32 \<Rightarrow> nat \<Rightarrow> (nat \<Rightarrow> nat) \<Rightarrow> read_error \<Rightarrow> nat \<Rightarrow> nat \<Rightarrow> bytes \<Rightarrow> wispConnection \<Rightarrow> bytes list
      \<Rightarrow> wispConnection \<Rightarrow> bool" where
  "relayed i p bufs fin n room sent c ds c' \<longleftrightarrow>
     concat ds = sent \<and> (\<forall>d \<in> set ds. d \<noteq> [] \<and> length d \<le> room)
     \<and> wire_sent c' = wire_sent c @ concat (map (data_packet i) ds) @ closeFrame i (end_reason fin)
     \<and> w_returned (wc_wire c') = w_returned (wc_wire c) @ map bufs [n..<Suc (n + length ds)]
     \<and> \<not> ws_isOpen (stream_at p c')"

lemma relayed_piece:
  assumes "relayed i p bufs fin (if d = [] then n else Suc n) room sent c1 ds c'"
    and "wc_wire c1 = wire_data i (bufs n) d (wc_wire c)" and "length d \<le> room"
  shows "relayed i p bufs fin n room (d @ sent) c (if d = [] then ds else d # ds) c'"
proof (cases "d = []")
  case True
  with assms show ?thesis by (simp add: relayed_def wire_sent_def wire_data_def)
next
  case False
  have "map bufs [n..<Suc (n + length (d # ds))] = bufs n # map bufs [Suc n..<Suc (Suc n + length ds)]"
    by (subst upt_conv_Cons) simp_all
  with assms False show ?thesis
    by (simp add: relayed_def wire_sent_def wire_data_def del: upt_Suc)
qed

lemma readFromConnection_relays:
  assumes "relaying i p c" and "readRoom (wc_config c) = Some room" and "0 < room"
    and "\<forall>m. length (hdr m) = 15" and "\<not> is_udp p c"
  shows "\<exists>ds c'. readFromConnection bufs hdr fin p n ni c = Some (ReadEnded c')
     \<and> relayed i p bufs fin n room (ni_stream ni) c ds c'"
  using assms(1,2,5)
proof (induction "ni_size ni" arbitrary: ni n c rule: less_induct)
  case less
  note D = relayingD [OF less.prems(1)]
  have h: "length (hdr n) = 15" using assms(4) by blast
  obtain d e ni' where rd: "conn_Read room ni = (d, e, ni')" by (metis prod_cases3)
  then have tr: "target_Read (is_udp p c) room (conn_closed p c) ni = (d, e, ni')"
    using D(4) assms(3) less.prems(3) by (simp add: target_Read_def)
  note st = conn_Read_stream [OF rd]
  show ?case
  proof (cases e)
    case True
    let ?c' = "stream_read p (bufs n) (bufs (Suc n)) (hdr n) d (Some fin) (end_task (ReadTask p) c)"
    have "readFromConnection bufs hdr fin p n ni c = Some (ReadEnded ?c')"
      using tr True D(4) less.prems(2) by (simp add: readFromConnection.simps)
    moreover have "relayed i p bufs fin n room (ni_stream ni) c (if d = [] then [] else [d]) ?c'"
      using stream_read_ends [OF less.prems(1) h, of "bufs n" "bufs (Suc n)" d fin "ReadTask p"]
        st True by (auto simp: relayed_def)
    ultimately show ?thesis by blast
  next
    case False
    let ?c1 = "stream_read p (bufs n) (bufs (Suc n)) (hdr n) d None (end_task (ReadTask p) c)"
    let ?n = "if d = [] then n else Suc n"
    note g = stream_read_goes_on [OF less.prems(1) h, of "bufs n" "bufs (Suc n)" d "ReadTask p"]
    have "ni_size ni' < ni_size ni"
      using conn_Read_size [OF rd False assms(3)] .
    from less.hyps [OF this g(3), of ?n] g(2,4) less.prems(2,3) obtain ds c'
      where rec: "readFromConnection bufs hdr fin p ?n ni' ?c1 = Some (ReadEnded c')"
        "relayed i p bufs fin ?n room (ni_stream ni') ?c1 ds c'" by (auto simp: is_udp_def)
    have "readFromConnection bufs hdr fin p n ni c = Some (ReadEnded c')"
      using rec(1) tr False less.prems(2) by (subst readFromConnection.simps) simp
    moreover have "relayed i p bufs fin n room (ni_stream ni) c (if d = [] then ds else d # ds) c'"
      using relayed_piece [OF rec(2) g(1)] st by simp
    ultimately show ?thesis by blast
  qed
qed

lemma client_frames_packets:
  assumes "\<forall>d \<in> set ds. length d < 2 ^ 63"
  shows "client_frames (concat (map (data_packet i) ds) @ rest)
     = apfst ((@) (map (\<lambda>d. (0x82, wispPacket packetTypeData i d)) ds)) (client_frames rest)"
  using assms
proof (induction ds)
  case (Cons d ds)
  have "length (wispPacket packetTypeData i d) < 2 ^ 64" using Cons.prems by simp
  with Cons show ?case
    by (simp add: data_packet_def apfst_def map_prod_def split: prod.split)
qed (simp add: apfst_def map_prod_def split: prod.split)

lemma client_frames_close [simp]:
  "client_frames (closeFrame i r) = ([(0x82, wispPacket packetTypeClose i [r])], [])"
  using client_frames_frame [of "wispPacket packetTypeClose i [r]" "0x82" "[]"]
  by (simp add: controlFrame_ws_frame)

text \<open>What the client makes of the bytes added to its connection.\<close>

definition sent_frames :: "u32 \<Rightarrow> read_error \<Rightarrow> bytes list \<Rightarrow> (byte \<times> bytes) list" where
  "sent_frames i fin ds = map (\<lambda>d. (0x82, wispPacket packetTypeData i d)) ds
     @ [(0x82, wispPacket packetTypeClose i [end_reason fin])]"

lemma stream_data_sent: "stream_data i (sent_frames i fin ds) = concat ds"
  by (simp add: sent_frames_def stream_data_def packet_data_wispPacket comp_def)
    (simp add: packetTypeClose_def packetTypeData_def)

lemma relayed_client_view:
  assumes "relayed i p bufs fin n room sent c ds c'" and "readRoom cfg = Some room"
  shows "\<exists>new. wire_sent c' = wire_sent c @ new \<and> client_frames new = (sent_frames i fin ds, [])"
proof -
  have "\<forall>d \<in> set ds. length d < 2 ^ 63"
    using assms readRoom_size [OF assms(2)] by (auto simp: relayed_def)
  then have "client_frames (concat (map (data_packet i) ds) @ closeFrame i (end_reason fin))
      = (sent_frames i fin ds, [])"
    by (simp add: client_frames_packets sent_frames_def)
  with assms(1) show ?thesis unfolding relayed_def by blast
qed

text \<open>
  C7: What a target sends reaches the client: the goroutine of a connected TCP stream ends after
  finitely many reads, and the frames it has added to the connection are, with nothing left
  over, one DATA packet of this stream for each piece read, which together are the bytes of
  the target in order, and then one CLOSE with the reason of the end. Of the read buffers it
  has taken, one to begin with and one for each piece, each goes back exactly once. (The
  goroutine is not interrupted, and the client's connection takes what it is sent.)
\<close>

theorem target_data_delivered:
  assumes "relaying i p c" and "readRoom (wc_config c) = Some room" and "0 < room"
    and "\<forall>m. length (hdr m) = 15" and "\<not> is_udp p c"
  shows "\<exists>c' new ds. readFromConnection bufs hdr fin p n ni c = Some (ReadEnded c')
     \<and> wire_sent c' = wire_sent c @ new \<and> client_frames new = (sent_frames i fin ds, [])
     \<and> concat ds = ni_stream ni \<and> [] \<notin> set ds
     \<and> w_returned (wc_wire c') = w_returned (wc_wire c) @ map bufs [n..<Suc (n + length ds)]"
proof -
  obtain ds c' where r: "readFromConnection bufs hdr fin p n ni c = Some (ReadEnded c')"
    and rel: "relayed i p bufs fin n room (ni_stream ni) c ds c'"
    using readFromConnection_relays [OF assms] by blast
  then show ?thesis
    using relayed_client_view [OF rel assms(2)] unfolding relayed_def by blast
qed

definition relayed_datagrams :: "nat \<Rightarrow> net_in \<Rightarrow> bytes list" where
  "relayed_datagrams room ni = map (take room) (filter (\<lambda>d. d \<noteq> []) (ni_chunks ni))"

lemma readFromConnection_datagrams:
  assumes "relaying i p c" and "readRoom (wc_config c) = Some room" and "0 < room"
    and "\<forall>m. length (hdr m) = 15" and "is_udp p c"
  shows "\<exists>c'. readFromConnection bufs hdr fin p n ni c = Some (ReadEnded c')
     \<and> relayed i p bufs fin n room (concat (relayed_datagrams room ni)) c (relayed_datagrams room ni) c'"
  using assms(1,2,5)
proof (induction "ni_chunks ni" arbitrary: ni n c)
  case Nil
  note D = relayingD [OF Nil(2)]
  have h: "length (hdr n) = 15" using assms(4) by blast
  let ?c' = "stream_read p (bufs n) (bufs (Suc n)) (hdr n) [] (Some fin) (end_task (ReadTask p) c)"
  have "readFromConnection bufs hdr fin p n ni c = Some (ReadEnded ?c')"
    using Nil D(4) assms(3) by (simp add: readFromConnection.simps target_Read_def udp_Read_def flip: Nil(1))
  moreover have "relayed i p bufs fin n room [] c [] ?c'"
    using stream_read_ends [OF Nil(2) h, of "bufs n" "bufs (Suc n)" "[]" fin "ReadTask p"]
    by (simp add: relayed_def)
  ultimately show ?case by (simp add: relayed_datagrams_def flip: Nil(1))
next
  case (Cons d ds)
  note D = relayingD [OF Cons(3)]
  have h: "length (hdr n) = 15" using assms(4) by blast
  let ?d = "take room d" and ?ni = "ni\<lparr>ni_chunks := ds\<rparr>"
  let ?c1 = "stream_read p (bufs n) (bufs (Suc n)) (hdr n) ?d None (end_task (ReadTask p) c)"
  let ?n = "if ?d = [] then n else Suc n"
  note g = stream_read_goes_on [OF Cons(3) h, of "bufs n" "bufs (Suc n)" ?d "ReadTask p"]
  obtain c' where rec: "readFromConnection bufs hdr fin p ?n ?ni ?c1 = Some (ReadEnded c')"
    "relayed i p bufs fin ?n room (concat (relayed_datagrams room ?ni)) ?c1 (relayed_datagrams room ?ni) c'"
    using Cons(1) [of ?ni ?c1 ?n] g(2-4) Cons(4,5) by (auto simp: is_udp_def)
  have "readFromConnection bufs hdr fin p n ni c = Some (ReadEnded c')"
    using rec(1) D(4) assms(3) Cons(4,5)
    by (subst readFromConnection.simps) (simp add: target_Read_def udp_Read_def flip: Cons(2))
  moreover have "(if ?d = [] then relayed_datagrams room ?ni else ?d # relayed_datagrams room ?ni)
      = relayed_datagrams room ni"
    using assms(3) by (simp add: relayed_datagrams_def flip: Cons(2))
  moreover have "concat (relayed_datagrams room ni) = ?d @ concat (relayed_datagrams room ?ni)"
    by (simp add: relayed_datagrams_def flip: Cons(2))
  ultimately show ?case
    using relayed_piece [OF rec(2) g(1)] by simp
qed

text \<open>
  C39: A UDP stream relays datagrams: each that is not empty becomes one DATA packet with as much
  of it as the read buffer holds, 32768 bytes in the default configuration; the rest of a
  longer datagram is lost without a trace, and the client cannot tell.
\<close>

theorem datagrams_truncated:
  assumes "relaying i p c" and "readRoom (wc_config c) = Some room" and "0 < room"
    and "\<forall>m. length (hdr m) = 15" and "is_udp p c"
  shows "\<exists>c' new. readFromConnection bufs hdr fin p n ni c = Some (ReadEnded c')
     \<and> wire_sent c' = wire_sent c @ new
     \<and> client_frames new = (sent_frames i fin (map (take room) (filter (\<lambda>d. d \<noteq> []) (ni_chunks ni))), [])"
proof -
  obtain c' where r: "readFromConnection bufs hdr fin p n ni c = Some (ReadEnded c')"
    and rel: "relayed i p bufs fin n room (concat (relayed_datagrams room ni)) c (relayed_datagrams room ni) c'"
    using readFromConnection_datagrams [OF assms] by blast
  then show ?thesis
    using relayed_client_view [OF rel assms(2)] unfolding relayed_datagrams_def by blast
qed

subsection \<open>The loop is a run of its goroutine\<close>

lemma stream_read_task: "ReadTask p \<in> set (wc_tasks (stream_read p b b' h d None c))"
  by (simp add: stream_read_def spawn_def)

text \<open>
  The loop of the reading goroutine, left alone, is one of the runs of the transition
  system, so all the invariants of reachable states hold when it ends.
\<close>

theorem readFromConnection_refines:
  assumes "readFromConnection bufs hdr fin p n ni c = Some (ReadEnded c')"
    and "ReadTask p \<in> set (wc_tasks c)"
  shows "(conn_step bcrypt)\<^sup>*\<^sup>* c c'"
proof -
  have "\<forall>c'. y = ReadEnded c' \<longrightarrow> ReadTask p \<in> set (wc_tasks c) \<longrightarrow> (conn_step bcrypt)\<^sup>*\<^sup>* c c'"
    if "readFromConnection bufs hdr fin p n ni c = Some y" for y
    using that
  proof (rule readFromConnection.raw_induct [where P = "\<lambda>bufs hdr fin p n ni c y. \<forall>c'. y = ReadEnded c' \<longrightarrow>
      ReadTask p \<in> set (wc_tasks c) \<longrightarrow> (conn_step bcrypt)\<^sup>*\<^sup>* c c'", rotated])
    fix rec bufs hdr fin p n ni c y
    assume IH: "\<And>bufs hdr fin p n ni c y. rec bufs hdr fin p n ni c = Some y
        \<Longrightarrow> \<forall>c'. y = ReadEnded c' \<longrightarrow> ReadTask p \<in> set (wc_tasks c) \<longrightarrow> (conn_step bcrypt)\<^sup>*\<^sup>* c c'"
      and eq: "(case readRoom (wc_config c) of None \<Rightarrow> Some ReadPanic
        | Some room \<Rightarrow> (case target_Read (is_udp p c) room (conn_closed p c) ni of (d, e, ni') \<Rightarrow>
             let err = (if \<not> e then None else if conn_closed p c then Some OtherError else Some fin);
                 c' = stream_read p (bufs n) (bufs (Suc n)) (hdr n) d err (end_task (ReadTask p) c)
             in if e then Some (ReadEnded c')
                else rec bufs hdr fin p (if d = [] then n else Suc n) ni' c')) = Some y"
    show "\<forall>c'. y = ReadEnded c' \<longrightarrow> ReadTask p \<in> set (wc_tasks c) \<longrightarrow> (conn_step bcrypt)\<^sup>*\<^sup>* c c'"
    proof (intro allI impI)
      fix c' assume y: "y = ReadEnded c'" and t: "ReadTask p \<in> set (wc_tasks c)"
      obtain room where room: "readRoom (wc_config c) = Some room" using eq y by (cases "readRoom (wc_config c)") auto
      obtain d e ni' where r: "target_Read (is_udp p c) room (conn_closed p c) ni = (d, e, ni')" by (metis prod_cases3)
      note s = step_read [OF t, of bcrypt "bufs n" "bufs (Suc n)" "hdr n" d]
      show "(conn_step bcrypt)\<^sup>*\<^sup>* c c'"
      proof (cases e)
        case True
        then have "\<exists>err. c' = stream_read p (bufs n) (bufs (Suc n)) (hdr n) d err (end_task (ReadTask p) c)"
          using eq room r y by (auto simp: Let_def)
        with s show ?thesis by (auto intro: r_into_rtranclp)
      next
        case False
        let ?c1 = "stream_read p (bufs n) (bufs (Suc n)) (hdr n) d None (end_task (ReadTask p) c)"
        have "rec bufs hdr fin p (if d = [] then n else Suc n) ni' ?c1 = Some y"
          using eq room r False by (simp add: Let_def)
        from IH [OF this] y stream_read_task have "(conn_step bcrypt)\<^sup>*\<^sup>* ?c1 c'" by blast
        with s [of None] show ?thesis by (rule converse_rtranclp_into_rtranclp)
      qed
    qed
  qed
  with assms show ?thesis by blast
qed

subsection \<open>A buffer without room\<close>

lemma stream_read_nothing:
  "wc_config (stream_read p b b' h [] None c) = wc_config c"
  "wc_heap (stream_read p b b' h [] None c) = wc_heap c"
  by (simp_all add: stream_read_def)

text \<open>
  C38: With \<open>tcpBufferSize\<close> 0 the slice behind the header space is empty: every read of the loop
  returns at once with nothing and no error. As long as nobody closes the connection the
  goroutine never ends, and whatever the target sends is never read.
\<close>

theorem empty_buffer_spins:
  assumes "cfg_TcpBufferSize (wc_config c) = 0" and "\<not> conn_closed p c"
  shows "readFromConnection bufs hdr fin p n ni c = None"
proof -
  have room: "readRoom cfg = Some 0" if "cfg_TcpBufferSize cfg = 0" for cfg
    using that by (simp add: readRoom_size_of)
  have "readRoom (wc_config c) = Some 0 \<longrightarrow> conn_closed p c"
    if "readFromConnection bufs hdr fin p n ni c = Some y" for y
    using that
  proof (rule readFromConnection.raw_induct
      [where P = "\<lambda>bufs hdr fin p n ni c y. readRoom (wc_config c) = Some 0 \<longrightarrow> conn_closed p c", rotated])
    fix rec bufs hdr fin p n ni c y
    let ?c' = "stream_read p (bufs n) (bufs (Suc n)) (hdr n) [] None (end_task (ReadTask p) c)"
    assume IH: "\<And>bufs hdr fin p n ni c y. rec bufs hdr fin p n ni c = Some y
        \<Longrightarrow> readRoom (wc_config c) = Some 0 \<longrightarrow> conn_closed p c"
      and eq: "(case readRoom (wc_config c) of None \<Rightarrow> Some ReadPanic
        | Some room \<Rightarrow> (case target_Read (is_udp p c) room (conn_closed p c) ni of (d, e, ni') \<Rightarrow>
             let err = (if \<not> e then None else if conn_closed p c then Some OtherError else Some fin);
                 c' = stream_read p (bufs n) (bufs (Suc n)) (hdr n) d err (end_task (ReadTask p) c)
             in if e then Some (ReadEnded c')
                else rec bufs hdr fin p (if d = [] then n else Suc n) ni' c')) = Some y"
    show "readRoom (wc_config c) = Some 0 \<longrightarrow> conn_closed p c"
    proof (intro impI, rule ccontr)
      assume r: "readRoom (wc_config c) = Some 0" and open_c: "\<not> conn_closed p c"
      have "rec bufs hdr fin p n ni ?c' = Some y"
        using eq r open_c by (simp add: target_Read_def)
      from IH [OF this] r open_c show False
        by (simp add: stream_read_nothing conn_closed_def)
    qed
  qed
  with room [OF assms(1)] assms(2) show ?thesis by (metis not_None_eq)
qed

text \<open>A negative size ends the process at the first read of any stream.\<close>

theorem negative_buffer_panics:
  assumes "cfg_TcpBufferSize (wc_config c) < 0" and "- (2 ^ 63) \<le> cfg_TcpBufferSize (wc_config c)"
  shows "readFromConnection bufs hdr fin p n ni c = Some ReadPanic"
proof -
  have "readRoom (wc_config c) = None"
    using assms by (simp add: readRoom_size_of)
  then show ?thesis by (simp add: readFromConnection.simps)
qed

section \<open>From the client to the target\<close>

text \<open>The frame in which a client sends data of a stream, masked with its key.\<close>

definition client_frame :: "u32 \<Rightarrow> bytes \<times> bytes \<Rightarrow> bytes" where
  "client_frame i kd =
     ws_frame 0x82 (Some (fst kd)) (maskXOR (fst kd) (wispPacket packetTypeData i (snd kd)))"

lemma readLoop_data_frame:
  assumes f: "reader_ok f" "fr_stream f = client_frame i (key, d) @ rest"
    and key: "length key = 4" and len: "5 + length d \<le> unat (maxPayloadSize (wc_config c))"
    and c: "connected i p sent c" "\<not> handshake_pending c"
  obtains f' c' where "readLoop_from bcrypt es n f c = readLoop_from bcrypt es (Suc n) f' c'"
    and "reader_ok f'" "fr_stream f' = rest" "connected i p (sent @ d) c'" "stable c c'"
proof -
  have "parse_frame (maxPayloadSize (wc_config c)) (fr_stream f)
      = Some (Frame (0x82 AND 0x0F) (wispPacket packetTypeData i d), rest)"
    unfolding f(2) client_frame_def fst_conv snd_conv
    by (rule parse_frame_client) (use key len in simp_all)
  with readFrame_parse [OF f(1), of "maxPayloadSize (wc_config c)"] obtain f' where
    f': "readFrame (maxPayloadSize (wc_config c)) f = Some (Frame 2 (wispPacket packetTypeData i d), f')"
      "reader_ok f'" "fr_stream f' = rest" by auto
  obtain keep c1 where h: "handleDataPacket i d n c = (keep, c1)" by fastforce
  let ?c' = "if keep then c1 else put_ws_buf (Some n) c1"
  have "dispatch_frame bcrypt (es n) 2 (wispPacket packetTypeData i d) n c = (True, ?c')"
    using c(2) h by (simp add: dispatch_frame_def handleWispFrame_def Let_def wispPacket_parts)
  then have "readLoop_from bcrypt es n f c = readLoop_from bcrypt es (Suc n) f' ?c'"
    using f'(1) by (subst readLoop_from_simps) simp
  moreover have c1: "connected i p (sent @ d) c1"
    using connected_data [OF c(1), of d n] h by simp
  moreover have "connected i p (sent @ d) ?c'"
    using c1 connected_quiet [OF quiet_ops(5)] by simp
  moreover have "stable c ?c'"
    using stable_handleDataPacket [OF stable_refl, of c i d n] h
      stable_trans [OF _ quiet_stable [OF quiet_ops(5)], of c c1] by simp
  ultimately show thesis using that f'(2,3) by blast
qed

lemma stable_pending: "stable c c' \<Longrightarrow> handshake_pending c' = handshake_pending c"
  by (simp add: stable_def handshake_pending_def)

lemma readLoop_data_frames:
  assumes "reader_ok f" and "fr_stream f = concat (map (client_frame i) xs) @ rest"
    and "\<forall>(key, d) \<in> set xs. length key = 4 \<and> 5 + length d \<le> unat (maxPayloadSize (wc_config c))"
    and "connected i p sent c" and "\<not> handshake_pending c"
  shows "\<exists>f' c'. readLoop_from bcrypt es n f c = readLoop_from bcrypt es (n + length xs) f' c'
     \<and> reader_ok f' \<and> fr_stream f' = rest \<and> connected i p (sent @ concat (map snd xs)) c'"
  using assms
proof (induction xs arbitrary: f c n sent)
  case (Cons x xs)
  obtain key d where x: "x = (key, d)" by fastforce
  have f: "fr_stream f = client_frame i (key, d) @ (concat (map (client_frame i) xs) @ rest)"
    using Cons.prems(2) x by simp
  have k: "length key = 4" "5 + length d \<le> unat (maxPayloadSize (wc_config c))"
    using Cons.prems(3) x by auto
  obtain f1 c1 where one: "readLoop_from bcrypt es n f c = readLoop_from bcrypt es (Suc n) f1 c1"
    and f1: "reader_ok f1" "fr_stream f1 = concat (map (client_frame i) xs) @ rest"
    and c1: "connected i p (sent @ d) c1" "stable c c1"
    using readLoop_data_frame [OF Cons.prems(1) f k Cons.prems(4,5)] by blast
  have "wc_config c1 = wc_config c" using c1(2) by (simp add: stable_def)
  with Cons.prems(3) have
    "\<forall>(key, d) \<in> set xs. length key = 4 \<and> 5 + length d \<le> unat (maxPayloadSize (wc_config c1))" by simp
  from Cons.IH [OF f1 this c1(1), of "Suc n"] Cons.prems(5) stable_pending [OF c1(2)] one x
  show ?case by simp
qed auto

text \<open>
  C8: What a client sends reaches the target: any number of data packets of a connected stream,
  each masked with a key of its own, cut up by the network in any way and followed by
  anything, are parsed by the read loop, which is back at its start after as many rounds,
  and the target has received their bytes in order behind what it had before.
\<close>

theorem client_data_delivered:
  assumes "ni_stream conn = concat (map (client_frame i) xs) @ rest"
    and "\<forall>(key, d) \<in> set xs. length key = 4 \<and> 5 + length d \<le> unat (maxPayloadSize (wc_config c))"
    and "connected i p sent c" and "\<not> handshake_pending c"
  shows "\<exists>f' c' k. readLoop_from bcrypt es n (newFrameReader conn) c
       = readLoop_from bcrypt es (n + length xs) f' c'
     \<and> fr_stream f' = rest \<and> ws_conn (stream_at p c') = Some k
     \<and> nc_sent k = sent @ concat (map snd xs) \<and> ws_isOpen (stream_at p c')"
proof -
  obtain f' c' where "readLoop_from bcrypt es n (newFrameReader conn) c
       = readLoop_from bcrypt es (n + length xs) f' c'"
    and "fr_stream f' = rest" and c': "connected i p (sent @ concat (map snd xs)) c'"
    using readLoop_data_frames [OF newFrameReader_reader _ assms(2-4), of conn rest bcrypt es n] assms(1)
    by auto
  moreover note connectedD(4,6) [OF c']
  ultimately show ?thesis
    by (intro exI [of _ f'] exI [of _ c']
        exI [of _ "\<lparr>nc_sent = sent @ concat (map snd xs), nc_outcomes = [], nc_closed = False\<rparr>"]) simp
qed

section \<open>A stream in use\<close>

text \<open>The stream of the example, dialled and ready, for the witnesses.\<close>

definition example_ready :: wispConnection where
  "example_ready = dial_with_data example_env 5 0 streamTypeTCP ''a.b'' ''80'' False [] [] [] example_dialing"

lemma example_ready_connected:
  "connected 5 0 [] example_ready" "same_credit 0 example_dialing example_ready"
proof -
  have c: "connecting 5 0 (DialTask 0 streamTypeTCP ''a.b'' ''80'' False) None [] example_dialing"
    by (rule dialing_connecting [OF example_dialing_reachable [unfolded example_conn_def]])
      (simp_all add: example_dialing_shape newStream_def)
  have "no_detector example_dialing" by (simp add: no_detector_def example_dialing_shape)
  note r = dial_with_data_ready [OF c this example_dialing_confirm, of "[]" example_env]
  show "connected 5 0 [] example_ready" "same_credit 0 example_dialing example_ready"
    unfolding example_ready_def using r(1,2) by (simp_all add: total_bytes_def maxPendingBytes_def)
qed

lemma example_dialing_wire: "wire_open (wc_wire example_dialing)"
  unfolding example_dialing_eq example_open_eq
  by (simp add: end_task_def spawn_def put_ws_buf_def register_stream_def start_connection_def
      example_conn_def newConnection_def sendPacket_def queueWrite_def submitWrite_open wire_open_def
      wire_ok_def nc_fresh_def)

lemma example_dialing_v1: "\<not> wc_isV2 example_dialing"
  unfolding example_dialing_eq example_open_eq
  by (simp add: end_task_def spawn_def put_ws_buf_def register_stream_def start_connection_def
      example_conn_def newConnection_def)

lemma example_ready_relaying:
  "relaying 5 0 example_ready" "readRoom (wc_config example_ready) = Some 32768" "\<not> is_udp 0 example_ready"
proof -
  note c = example_ready_connected
  note D = connectedD [OF c(1)]
  have "ws_streamId (stream_at 0 example_ready) = 5"
    using conn_invD(1) [OF D(1)] D(2) by (simp add: registry_ok_def)
  moreover have "wire_open (wc_wire example_ready)"
    using c(2) example_dialing_wire by (simp add: same_credit_def)
  ultimately show "relaying 5 0 example_ready"
    using D by (simp add: relaying_def conn_closed_def)
  have "wc_config example_ready = DefaultConfig"
    using c(2) by (simp add: same_credit_def example_dialing_shape)
  then show "readRoom (wc_config example_ready) = Some 32768"
    by (simp add: readRoom_size_of DefaultConfig_def)
  show "\<not> is_udp 0 example_ready"
    using c(2) by (simp add: same_credit_def is_udp_def example_dialing_shape stream_type_defs)
qed

theorem target_data_delivered_witness:
  "\<exists>c' new ds. readFromConnection id (\<lambda>_. replicate 15 0) EOF 0 0
       \<lparr>ni_chunks = [[1, 2], [], [3]], ni_err_with_last = True\<rparr> example_ready = Some (ReadEnded c')
     \<and> wire_sent c' = wire_sent example_ready @ new \<and> client_frames new = (sent_frames 5 EOF ds, [])
     \<and> concat ds = [1, 2, 3]"
  using target_data_delivered [OF example_ready_relaying(1,2) _ _ example_ready_relaying(3),
      of "\<lambda>_. replicate 15 0" id EOF 0
      "\<lparr>ni_chunks = [[1, 2], [], [3]], ni_err_with_last = True\<rparr>"]
  by (auto simp: ni_stream_def)

text \<open>The same stream with a UDP target and a buffer of two bytes.\<close>

definition example_udp :: wispConnection where
  "example_udp = (upd_stream 0 (\<lambda>s. s\<lparr>ws_streamType := streamTypeUDP\<rparr>) example_ready)
     \<lparr>wc_config := DefaultConfig\<lparr>cfg_TcpBufferSize := 2\<rparr>\<rparr>"

theorem datagrams_truncated_witness:
  "\<exists>c' new. readFromConnection id (\<lambda>_. replicate 15 0) OtherError 0 0
       \<lparr>ni_chunks = [[1, 2, 3], [], [4]], ni_err_with_last = False\<rparr> example_udp = Some (ReadEnded c')
     \<and> wire_sent c' = wire_sent example_udp @ new
     \<and> client_frames new = (sent_frames 5 OtherError [[1, 2], [4]], [])"
proof -
  have "relaying 5 0 example_udp" "is_udp 0 example_udp" "readRoom (wc_config example_udp) = Some 2"
    using relayingD [OF example_ready_relaying(1)]
    by (simp_all add: example_udp_def relaying_def conn_closed_def is_udp_def readRoom_size_of)
  from datagrams_truncated [OF this(1,3) _ _ this(2), of "\<lambda>_. replicate 15 0" id OtherError 0
      "\<lparr>ni_chunks = [[1, 2, 3], [], [4]], ni_err_with_last = False\<rparr>"]
  show ?thesis by simp
qed

theorem empty_buffer_spins_witness:
  "readFromConnection id (\<lambda>_. replicate 15 0) EOF 0 0 \<lparr>ni_chunks = [[1, 2]], ni_err_with_last = True\<rparr>
     (example_ready\<lparr>wc_config := DefaultConfig\<lparr>cfg_TcpBufferSize := 0\<rparr>\<rparr>) = None"
  by (rule empty_buffer_spins)
    (use relayingD(4) [OF example_ready_relaying(1)] in \<open>simp_all add: conn_closed_def\<close>)

definition example_keyed :: "(bytes \<times> bytes) list" where
  "example_keyed = [([1, 2, 3, 4], [7, 8]), ([5, 6, 7, 8], [9])]"

theorem client_data_delivered_witness:
  "\<exists>f' c' k. readLoop_from (\<lambda>_ _. False) (\<lambda>_. 0) 0
       (newFrameReader \<lparr>ni_chunks = [concat (map (client_frame 5) example_keyed)], ni_err_with_last = True\<rparr>)
       example_ready = readLoop_from (\<lambda>_ _. False) (\<lambda>_. 0) (0 + length example_keyed) f' c'
     \<and> fr_stream f' = [] \<and> ws_conn (stream_at 0 c') = Some k
     \<and> nc_sent k = [] @ concat (map snd example_keyed) \<and> ws_isOpen (stream_at 0 c')"
proof (rule client_data_delivered)
  have "wc_config example_ready = DefaultConfig"
    using example_ready_connected(2) by (simp add: same_credit_def example_dialing_shape)
  then show "\<forall>(key, d) \<in> set example_keyed.
      length key = 4 \<and> 5 + length d \<le> unat (maxPayloadSize (wc_config example_ready))"
    by (simp add: example_keyed_def maxPayloadSize_def DefaultConfig_def DefaultMaxPayloadSize_def)
  show "\<not> handshake_pending example_ready"
    using example_ready_connected(2) example_dialing_v1
    by (simp add: same_credit_def handshake_pending_def)
  show "connected 5 0 [] example_ready" by (rule example_ready_connected(1))
qed (simp add: ni_stream_def)

end
