(* ===== verification/Stream_Life.thy ===== *)
theory Stream_Life
  imports Relay Server
begin

text \<open>
  The life of a TCP stream on an accepted connection without limits, from the CONNECT packet of the
  client to the CLOSE packet of the server: the operations of the handlers, of the dial, of
  the data path and of the relay composed in the order in which a stream passes through them.
\<close>

section \<open>Credits on the wire\<close>

lemma sendPacket_open:
  "wire_open w \<Longrightarrow> sendPacket i r w
     = w\<lparr>w_netConn := (w_netConn w)\<lparr>nc_sent := nc_sent (w_netConn w) @ continueFrame i r\<rparr>\<rparr>"
  by (simp add: sendPacket_def queueWrite_def submitWrite_open) (simp add: wire_open_def)

text \<open>While packets go to a connected target, the client is sent nothing but CONTINUEs.\<close>

lemma connected_packets_wire:
  assumes "connected i p sent c" and "wire_open (wc_wire c)"
  shows "wire_open (wc_wire (data_packets i xs c)) \<and> wc_config (data_packets i xs c) = wc_config c
    \<and> ws_streamType (stream_at p (data_packets i xs c)) = ws_streamType (stream_at p c)
    \<and> (\<exists>m. wire_sent (data_packets i xs c)
        = wire_sent c @ concat (replicate m (continueFrame i (cfg_BufferRemainingLength (wc_config c)))))"
  using assms
proof (induction xs arbitrary: sent c)
  case (Cons x xs)
  obtain d b where x: "x = (d, b)" by fastforce
  obtain c2 where c2: "connected i p (sent @ d) c2" "same_credit p c c2"
    and h: "snd (handleDataPacket i d b c)
      = (if ws_streamType (stream_at p c2) = streamTypeTCP then use_credit i p c2 else c2)"
    using connected_data_shape [OF Cons.prems(1)] .
  let ?c3 = "snd (handleDataPacket i d b c)"
  have p: "p < length (wc_heap c2)" by (rule connectedD(5) [OF c2(1)])
  have c3: "connected i p (sent @ d) ?c3"
    using connected_data [OF Cons.prems(1)] .
  have "wire_open (wc_wire c2)" using c2(2) Cons.prems(2) by (simp add: same_credit_def)
  then have w: "wire_open (wc_wire ?c3)" "wc_config ?c3 = wc_config c"
    "ws_streamType (stream_at p ?c3) = ws_streamType (stream_at p c)"
    "wire_sent ?c3 = wire_sent c
      \<or> wire_sent ?c3 = wire_sent c @ continueFrame i (cfg_BufferRemainingLength (wc_config c))"
    using c2(2) p by (auto simp: h use_credit_def same_credit_def wire_sent_def sendPacket_open)
  obtain m where "wire_sent (data_packets i xs ?c3)
      = wire_sent ?c3 @ concat (replicate m (continueFrame i (cfg_BufferRemainingLength (wc_config c))))"
    using Cons.IH [OF c3 w(1)] w(2) by auto
  then have "\<exists>m. wire_sent (data_packets i xs ?c3)
      = wire_sent c @ concat (replicate m (continueFrame i (cfg_BufferRemainingLength (wc_config c))))"
    using w(4) by (auto intro: exI [of _ m] exI [of _ "Suc m"])
  with Cons.IH [OF c3 w(1)] w(2,3) show ?case by (simp add: x)
qed (auto intro: exI [of _ 0])

lemma client_frames_continues:
  "client_frames (concat (replicate m (continueFrame i r)) @ rest)
     = apfst ((@) (replicate m (0x82, wispPacket packetTypeContinue i (le32_bytes r)))) (client_frames rest)"
  by (induction m) (simp_all add: controlFrame_ws_frame codec_simps apfst_def map_prod_def split: prod.split)

section \<open>From CONNECT to CLOSE\<close>

text \<open>The stream dialled, with its data on the way, ready for its target to answer.\<close>

lemma stream_life_relaying:
  fixes now :: time and b :: nat and after :: "(bytes \<times> nat) list"
  assumes "reachable bcrypt (newConnection cfg g dns v2 ip cid nc) c"
    and "wire_open (wc_wire c)" and "\<not> handshake_pending c" and "\<not> stream_limit_reached c"
    and "unlimited c" and "\<not> wc_streamConfirm c" and "wc_streams c i = None"
    and "reaches cfg e (wc_dns c) port h resolved" and "total_bytes before \<le> maxPendingBytes"
  defines "p \<equiv> length (wc_heap c)"
  defines "c2 \<equiv> dial_with_data e i p streamTypeTCP resolved (itoa (unat port)) False before [] after
      (stream_dialling e now b i port h c)"
  shows "connected i p (concat (map fst before) @ concat (map fst after)) c2" "relaying i p c2"
    and "\<not> is_udp p c2" "wc_config c2 = cfg"
    and "\<exists>m. wire_sent c2 = wire_sent c @ concat (replicate m (continueFrame i (cfg_BufferRemainingLength cfg)))"
proof -
  have cfg: "wc_config c = cfg" using reachable_setup [OF assms(1)] by simp
  let ?c1 = "stream_dialling e now b i port h c"
  let ?r = "dial_with_data e i p streamTypeTCP resolved (itoa (unat port)) False before [] [] ?c1"
  note s = stream_dialling_shape [OF assms(3-5,7), of e port h resolved now b, unfolded cfg, OF assms(8),
      folded p_def]
  have con: "connecting i p (DialTask p streamTypeTCP resolved (itoa (unat port)) False) None [] ?c1"
    by (rule dialing_connecting [OF stream_dialling_reachable [OF assms(1,3-5,7)]])
      (simp_all add: s(1-3) newStream_def)
  have det: "no_detector ?c1" "\<not> wc_streamConfirm ?c1"
    using s(4,7) assms(5,6) by (simp_all add: no_detector_def unlimited_def no_limits_def)
  note r = dial_with_data_ready(1,2) [OF con det assms(9), of e]
    dial_with_data_ready(3) [OF con det assms(9), of e after, folded c2_def]
  have w: "wire_open (wc_wire ?r)" "wire_sent ?r = wire_sent c" "wc_config ?r = cfg"
    "ws_streamType (stream_at p ?r) = streamTypeTCP"
    using r(2) s(3,5,6) assms(2) by (simp_all add: same_credit_def wire_sent_def)
  note d = connected_packets_wire [OF r(1) w(1), of after]
  show con: "connected i p (concat (map fst before) @ concat (map fst after)) c2"
    using connected_packets [OF r(1)] by (simp add: r(3))
  show "wc_config c2 = cfg" "\<not> is_udp p c2"
    "\<exists>m. wire_sent c2 = wire_sent c @ concat (replicate m (continueFrame i (cfg_BufferRemainingLength cfg)))"
    using d w(2-4) by (simp_all add: r(3) is_udp_def) (simp add: stream_type_defs)
  have "ws_streamId (stream_at p c2) = i"
    using conn_invD(1) [OF connectedD(1) [OF con]] connectedD(2) [OF con] by (simp add: registry_ok_def)
  with connectedD [OF con] d show "relaying i p c2"
    by (simp add: relaying_def conn_closed_def r(3))
qed

text \<open>
  C3: The life of a stream, on any connection the server has accepted, at any later moment at
  which its shared limits are empty (as they are for good on a server without the sections
  floodProtection and reputation): a client that does not ask for stream confirmations asks
  for a TCP target that the configuration lets it reach, and sends data, part of it before
  the dial has succeeded, part after. Then one connection to the resolved address has been
  attempted and the target has received the data of the client, whole and in order. What
  the target answers until it ends is what the client reads back: behind the credits sent
  meanwhile, one DATA packet for each piece, and exactly one CLOSE. (The steps of this
  stream follow each other, and the client's connection takes what it is sent.)
\<close>

theorem stream_life_cycle:
  fixes now :: time and b :: nat and after :: "(bytes \<times> nat) list"
  assumes "handle_request rq up sv = (Accepted c0, sv')" and "(conn_step bcrypt)\<^sup>*\<^sup>* c0 c"
    and "unlimited c" and "\<not> wc_streamConfirm c"
    and "wire_open (wc_wire c)" and "\<not> handshake_pending c" and "\<not> stream_limit_reached c"
    and "wc_streams c i = None"
    and "reaches (sv_config sv) e (wc_dns c) port h resolved" and "total_bytes before \<le> maxPendingBytes"
    and "readRoom (sv_config sv) = Some room" and "0 < room" and "\<forall>m. length (hdr m) = 15"
  defines "p \<equiv> length (wc_heap c)"
  defines "c1 \<equiv> stream_dialling e now b i port h c"
  defines "c2 \<equiv> dial_with_data e i p streamTypeTCP resolved (itoa (unat port)) False before [] after c1"
  shows "wc_dials c1 = wc_dials c @ [DirectDial ''tcp'' (JoinHostPort resolved (itoa (unat port)))]
    \<and> (\<exists>k. ws_conn (stream_at p c2) = Some k
        \<and> nc_sent k = concat (map fst before) @ concat (map fst after))
    \<and> (\<exists>c3 new ds m. readFromConnection bufs hdr fin p n ni c2 = Some (ReadEnded c3)
        \<and> wire_sent c3 = wire_sent c @ new \<and> concat ds = ni_stream ni
        \<and> client_frames new
            = (replicate m (0x82, wispPacket packetTypeContinue i
                 (le32_bytes (cfg_BufferRemainingLength (sv_config sv)))) @ sent_frames i fin ds, [])
        \<and> \<not> ws_isOpen (stream_at p c3))"
proof (intro conjI)
  obtain g v2 ip cid nc where
    reach: "reachable bcrypt (newConnection (sv_config sv) g (sv_dns sv) v2 ip cid nc) c"
    using accepted_reachable [OF assms(1,2)] by blast
  have cfg: "wc_config c = sv_config sv" using reachable_setup [OF reach] by simp
  note L = stream_life_relaying [OF reach assms(5-7,3,4,8-10), where now = now and b = b and after = after,
      folded p_def, folded c1_def, folded c2_def]
  show "wc_dials c1 = wc_dials c @ [DirectDial ''tcp'' (JoinHostPort resolved (itoa (unat port)))]"
    using stream_dialling_shape(8) [OF assms(6,7,3,8), of e port h resolved now b] assms(9) cfg
    by (simp add: c1_def)
  show "\<exists>k. ws_conn (stream_at p c2) = Some k
      \<and> nc_sent k = concat (map fst before) @ concat (map fst after)"
    using connectedD(4) [OF L(1)] by simp
  have room: "readRoom (wc_config c2) = Some room" using L(4) assms(11) by simp
  obtain ds c3 where r: "readFromConnection bufs hdr fin p n ni c2 = Some (ReadEnded c3)"
    and rel: "relayed i p bufs fin n room (ni_stream ni) c2 ds c3"
    using readFromConnection_relays [OF L(2) room assms(12,13) L(3)] by blast
  obtain new where new: "wire_sent c3 = wire_sent c2 @ new" "client_frames new = (sent_frames i fin ds, [])"
    using relayed_client_view [OF rel room] by blast
  let ?cf = "continueFrame i (cfg_BufferRemainingLength (sv_config sv))"
  obtain m where m: "wire_sent c2 = wire_sent c @ concat (replicate m ?cf)"
    using L(5) by blast
  have "wire_sent c3 = wire_sent c @ (concat (replicate m ?cf) @ new)" using new(1) m by simp
  moreover have "client_frames (concat (replicate m ?cf) @ new)
      = (replicate m (0x82, wispPacket packetTypeContinue i
           (le32_bytes (cfg_BufferRemainingLength (sv_config sv)))) @ sent_frames i fin ds, [])"
    by (simp add: client_frames_continues new(2))
  ultimately show "\<exists>c3 new ds m. readFromConnection bufs hdr fin p n ni c2 = Some (ReadEnded c3)
        \<and> wire_sent c3 = wire_sent c @ new \<and> concat ds = ni_stream ni
        \<and> client_frames new
            = (replicate m (0x82, wispPacket packetTypeContinue i
                 (le32_bytes (cfg_BufferRemainingLength (sv_config sv)))) @ sent_frames i fin ds, [])
        \<and> \<not> ws_isOpen (stream_at p c3)"
    using r rel unfolding relayed_def by blast
qed

text \<open>The first stream of the first client of the open server.\<close>

theorem stream_life_cycle_witness:
  "\<exists>c3 new ds m. readFromConnection id (\<lambda>_. replicate 15 0) EOF 0 0
        \<lparr>ni_chunks = [[80, 79], [78, 71]], ni_err_with_last = False\<rparr>
        (dial_with_data example_env 5 0 streamTypeTCP ''8.8.8.8'' (itoa (unat (80 :: u16))) False [([80], 0)] [] [([73], 1)]
          (stream_dialling example_env 0 0 5 80 ''8.8.8.8'' direct_conn)) = Some (ReadEnded c3)
      \<and> wire_sent c3 = wire_sent direct_conn @ new \<and> concat ds = [80, 79, 78, 71]
      \<and> client_frames new = (replicate m (0x82, wispPacket packetTypeContinue 5
            (le32_bytes (cfg_BufferRemainingLength (sv_config direct_server)))) @ sent_frames 5 EOF ds, [])"
proof -
  obtain sv' where h: "handle_request example_request (Some (nc_fresh [])) direct_server = (Accepted direct_conn, sv')"
    using direct_accepted by blast
  have w: "wire_open (wc_wire direct_conn)" "\<not> wc_streamConfirm direct_conn"
    by (simp_all add: direct_conn_def start_connection_def newConnection_def sendPacket_def queueWrite_def
        submitWrite_open wire_open_def wire_ok_def nc_fresh_def)
  have cfg: "sv_config direct_server = wc_config direct_conn"
    by (simp add: direct_conn_fields direct_config)
  have room: "readRoom (sv_config direct_server) = Some 32768"
    by (simp add: direct_config readRoom_size_of direct_cfg_def DefaultConfig_def)
  have "ni_stream \<lparr>ni_chunks = [[80, 79], [78, 71]], ni_err_with_last = False\<rparr> = [80, 79, 78, 71]"
    by (simp add: ni_stream_def)
  with stream_life_cycle [OF h rtranclp.rtrancl_refl direct_conn_ready(3) w(2,1) direct_conn_ready(1,2,4)
      direct_reaches [folded cfg], of "[([80], 0)]" 32768 "\<lambda>_. replicate 15 0" 0 0 5 "[([73], 1)]" id EOF 0
      "\<lparr>ni_chunks = [[80, 79], [78, 71]], ni_err_with_last = False\<rparr>"] room
  show ?thesis
    by (simp add: direct_conn_fields total_bytes_def maxPendingBytes_def) blast
qed

end
