(* ===== verification/Terminal_Relay.thy ===== *)
theory Terminal_Relay
  imports Relay
begin

text \<open>
  The output of a terminal (\<open>wisp/twisp.go\<close>): the loop of \<open>readPty\<close> over what the process
  writes, and the two goroutines that can end a terminal.
\<close>

section \<open>The loop\<close>

definition pty_closed :: "nat \<Rightarrow> wispConnection \<Rightarrow> bool" where
  "pty_closed q c = nc_closed (ts_ptmx (wc_theap c ! q))"

text \<open>
  \<open>ni\<close> is what the process will write, \<open>eof\<close> whether the pseudo-terminal ends with \<open>io.EOF\<close> or
  with another error. The one buffer of the goroutine is number \<open>b\<close>; \<open>hdr n\<close> is what its
  header space contains in round \<open>n\<close>.
\<close>

partial_function (option) readPty_loop ::
    "nat \<Rightarrow> (nat \<Rightarrow> bytes) \<Rightarrow> bool \<Rightarrow> nat \<Rightarrow> nat \<Rightarrow> net_in \<Rightarrow> wispConnection \<Rightarrow> relay_end option" where
  "readPty_loop b hdr eof q n ni c =
     (case readRoom (wc_config c) of
        None \<Rightarrow> Some ReadPanic
      | Some room \<Rightarrow>
          (case target_Read False room (pty_closed q c) ni of (d, e, ni') \<Rightarrow>
             let err = (if \<not> e then None else Some (eof \<and> \<not> pty_closed q c));
                 c' = readPty q b (hdr n) d err (end_task (PtyTask q) c)
             in if e then Some (ReadEnded c') else readPty_loop b hdr eof q (Suc n) ni' c'))"

definition pty_end :: "bool \<Rightarrow> read_error" where
  "pty_end eof = (if eof then EOF else OtherError)"

section \<open>The output arrives\<close>

definition terminal_open :: "u32 \<Rightarrow> nat \<Rightarrow> wispConnection \<Rightarrow> bool" where
  "terminal_open i q c \<longleftrightarrow> q < length (wc_theap c) \<and> ts_isOpen (wc_theap c ! q)
     \<and> ts_streamId (wc_theap c ! q) = i \<and> \<not> pty_closed q c \<and> wire_open (wc_wire c)"

lemma terminal_openD:
  assumes "terminal_open i q c"
  shows "q < length (wc_theap c)" "ts_isOpen (wc_theap c ! q)" "ts_streamId (wc_theap c ! q) = i"
    "\<not> pty_closed q c" "wire_open (wc_wire c)"
  using assms by (simp_all add: terminal_open_def)

text \<open>One piece of output: the connection while it is being sent.\<close>

definition pty_sent :: "u32 \<Rightarrow> bytes \<Rightarrow> wispConnection \<Rightarrow> wispConnection" where
  "pty_sent i d c = (if d = [] then c else on_wire (\<lambda>w. w\<lparr>w_netConn :=
     (w_netConn w)\<lparr>nc_sent := nc_sent (w_netConn w) @ data_packet i d\<rparr>\<rparr>) c)"

lemma pty_sent_fields [simp]:
  "wc_theap (pty_sent i d c) = wc_theap c" "wc_config (pty_sent i d c) = wc_config c"
  "wire_open (wc_wire (pty_sent i d c)) = wire_open (wc_wire c)"
  "wire_sent (pty_sent i d c) = wire_sent c @ (if d = [] then [] else data_packet i d)"
  "w_returned (wc_wire (pty_sent i d c)) = w_returned (wc_wire c)"
  by (simp_all add: pty_sent_def on_wire_def wire_sent_def)

lemma readPty_piece:
  assumes "terminal_open i q c" and "length h = 15"
  shows "(if 0 < length d
      then on_wire (queueWrite (dataFrame (ts_streamId (wc_theap c ! q)) (length d) (h @ d))) c else c)
    = pty_sent i d c"
  using terminal_openD [OF assms(1)] assms(2)
  by (simp add: pty_sent_def on_wire_def queueWrite_def submitWrite_open dataFrame_rawFrame rawFrame_eq
      data_packet_def)

lemma terminal_open_end_task [simp]:
  "terminal_open i q (end_task t c) = terminal_open i q c"
  by (simp add: terminal_open_def pty_closed_def end_task_def)

lemma readPty_goes_on:
  assumes "terminal_open i q c" and "length h = 15"
  shows "readPty q b h d None (end_task t c) = spawn (PtyTask q) (pty_sent i d (end_task t c))"
    and "terminal_open i q (readPty q b h d None (end_task t c))"
    and "wc_config (readPty q b h d None (end_task t c)) = wc_config c"
    and "wire_sent (readPty q b h d None (end_task t c)) = wire_sent c @ (if d = [] then [] else data_packet i d)"
    and "w_returned (wc_wire (readPty q b h d None (end_task t c))) = w_returned (wc_wire c)"
proof -
  have o: "terminal_open i q (end_task t c)" using assms(1) by simp
  show eq: "readPty q b h d None (end_task t c) = spawn (PtyTask q) (pty_sent i d (end_task t c))"
    by (simp only: readPty_def readPty_piece [OF o assms(2)] Let_def option.case)
  show "terminal_open i q (readPty q b h d None (end_task t c))"
    "wc_config (readPty q b h d None (end_task t c)) = wc_config c"
    "wire_sent (readPty q b h d None (end_task t c)) = wire_sent c @ (if d = [] then [] else data_packet i d)"
    "w_returned (wc_wire (readPty q b h d None (end_task t c))) = w_returned (wc_wire c)"
    using terminal_openD [OF o] unfolding eq
    by (simp_all add: terminal_open_def pty_closed_def)
      (simp_all add: wire_sent_def pty_sent_def on_wire_def end_task_def)
qed

lemma readPty_ends:
  fixes b :: nat and d :: bytes and eof :: bool and t :: task
  assumes "terminal_open i q c" and "length h = 15"
  defines "c' \<equiv> readPty q b h d (Some eof) (end_task t c)"
  shows "wire_sent c' = wire_sent c @ (if d = [] then [] else data_packet i d) @ closeFrame i (end_reason (pty_end eof))"
    and "w_returned (wc_wire c') = w_returned (wc_wire c) @ [b]"
    and "\<not> ts_isOpen (wc_theap c' ! q)"
proof -
  have o: "terminal_open i q (end_task t c)" using assms(1) by simp
  let ?c1 = "pty_sent i d (end_task t c)"
  have c': "c' = on_wire (put_read_buf b) (twisp_close q (end_reason (pty_end eof)) ?c1)"
    by (cases eof) (simp_all only: c'_def readPty_def readPty_piece [OF o assms(2)] Let_def option.case
        bool.case pty_end_def end_reason_def read_error.case if_True if_False)
  have w: "wire_open (wc_wire ?c1)" using terminal_openD(5) [OF o] by simp
  show "wire_sent c' = wire_sent c @ (if d = [] then [] else data_packet i d) @ closeFrame i (end_reason (pty_end eof))"
    and "w_returned (wc_wire c') = w_returned (wc_wire c) @ [b]"
    using terminal_openD [OF o] sendClosePacket_open [OF w, of i "end_reason (pty_end eof)"]
    by (simp_all add: c' twisp_close_wire wire_sent_def put_read_buf_def on_wire_def)
      (simp_all add: pty_sent_def on_wire_def end_task_def)
  show "\<not> ts_isOpen (wc_theap c' ! q)"
    using terminal_openD(1) [OF o]
    by (simp add: c' twisp_close_def upd_twisp_def twisp_remove_def on_wire_def)
qed

lemma readPty_loop_relays:
  assumes "terminal_open i q c" and "readRoom (wc_config c) = Some room" and "0 < room"
    and "\<forall>m. length (hdr m) = 15"
  shows "\<exists>ds c'. readPty_loop b hdr eof q n ni c = Some (ReadEnded c')
     \<and> concat ds = ni_stream ni \<and> (\<forall>d \<in> set ds. length d \<le> room)
     \<and> wire_sent c' = wire_sent c @ concat (map (data_packet i) ds) @ closeFrame i (end_reason (pty_end eof))
     \<and> w_returned (wc_wire c') = w_returned (wc_wire c) @ [b]
     \<and> \<not> ts_isOpen (wc_theap c' ! q)"
  using assms(1,2)
proof (induction "ni_size ni" arbitrary: ni n c rule: less_induct)
  case less
  have closed: "\<not> pty_closed q c" by (rule terminal_openD(4) [OF less.prems(1)])
  have h: "length (hdr n) = 15" using assms(4) by blast
  obtain d e ni' where rd: "conn_Read room ni = (d, e, ni')" by (metis prod_cases3)
  then have tr: "target_Read False room (pty_closed q c) ni = (d, e, ni')"
    using closed assms(3) by (simp add: target_Read_def)
  note st = conn_Read_stream [OF rd]
  show ?case
  proof (cases e)
    case True
    let ?c' = "readPty q b (hdr n) d (Some eof) (end_task (PtyTask q) c)"
    have "readPty_loop b hdr eof q n ni c = Some (ReadEnded ?c')"
      using tr True closed less.prems(2) by (simp add: readPty_loop.simps)
    with readPty_ends [OF less.prems(1) h, of b d eof "PtyTask q"] st True show ?thesis
      by (intro exI [of _ "if d = [] then [] else [d]"] exI [of _ ?c']) auto
  next
    case False
    let ?c1 = "readPty q b (hdr n) d None (end_task (PtyTask q) c)"
    note g = readPty_goes_on [OF less.prems(1) h, of b d "PtyTask q"]
    have "ni_size ni' < ni_size ni" by (rule conn_Read_size [OF rd False assms(3)])
    from less.hyps [OF this g(2), of "Suc n"] g(3) less.prems(2) obtain ds c'
      where rec: "readPty_loop b hdr eof q (Suc n) ni' ?c1 = Some (ReadEnded c')"
        "concat ds = ni_stream ni'" "\<forall>d \<in> set ds. length d \<le> room"
        "wire_sent c' = wire_sent ?c1 @ concat (map (data_packet i) ds) @ closeFrame i (end_reason (pty_end eof))"
        "w_returned (wc_wire c') = w_returned (wc_wire ?c1) @ [b]" "\<not> ts_isOpen (wc_theap c' ! q)" by auto
    have "readPty_loop b hdr eof q n ni c = Some (ReadEnded c')"
      using rec(1) tr False less.prems(2) by (subst readPty_loop.simps) simp
    with rec(2-6) g(4,5) st show ?thesis
      by (intro exI [of _ "if d = [] then ds else d # ds"] exI [of _ c']) auto
  qed
qed

text \<open>
  The output of a terminal reaches its client: the reading goroutine ends after finitely many
  reads, and the client reads from the frames it has sent one DATA packet per piece, together
  exactly the bytes the process wrote, in order, and then one CLOSE; the read buffer goes
  back once.
\<close>

theorem terminal_output_delivered:
  assumes "terminal_open i q c" and "readRoom (wc_config c) = Some room" and "0 < room"
    and "\<forall>m. length (hdr m) = 15"
  shows "\<exists>c' new ds. readPty_loop b hdr eof q n ni c = Some (ReadEnded c')
     \<and> wire_sent c' = wire_sent c @ new \<and> client_frames new = (sent_frames i (pty_end eof) ds, [])
     \<and> concat ds = ni_stream ni
     \<and> w_returned (wc_wire c') = w_returned (wc_wire c) @ [b]"
proof -
  obtain ds c' where r: "readPty_loop b hdr eof q n ni c = Some (ReadEnded c')"
    and ds: "concat ds = ni_stream ni" "\<forall>d \<in> set ds. length d \<le> room"
    and sent: "wire_sent c' = wire_sent c @ concat (map (data_packet i) ds)
        @ closeFrame i (end_reason (pty_end eof))"
    and ret: "w_returned (wc_wire c') = w_returned (wc_wire c) @ [b]"
    using readPty_loop_relays [OF assms] by blast
  have "\<forall>d \<in> set ds. length d < 2 ^ 63"
    using ds(2) readRoom_size [OF assms(2)] by auto
  then have "client_frames (concat (map (data_packet i) ds) @ closeFrame i (end_reason (pty_end eof)))
      = (sent_frames i (pty_end eof) ds, [])"
    by (simp add: client_frames_packets sent_frames_def)
  then show ?thesis using r sent ret ds(1) by blast
qed

section \<open>How a terminal ends\<close>

text \<open>
  When the process of a terminal ends, two goroutines close it: the one that waits for the
  process, and the one whose read of the pseudo-terminal fails. The first one decides what
  the client is told; the second changes nothing but its own buffer.
\<close>

theorem terminal_exit_reason:
  assumes "terminal_open i q c"
  shows "wire_sent (readPty q b h [] (Some eof) (twisp_close q closeReasonVoluntary c))
      = wire_sent c @ closeFrame i closeReasonVoluntary"
    and "length h = 15 \<Longrightarrow> wire_sent (twisp_close q closeReasonVoluntary (readPty q b h [] (Some eof) c))
      = wire_sent c @ closeFrame i (end_reason (pty_end eof))"
proof -
  note D = terminal_openD [OF assms]
  let ?c1 = "twisp_close q closeReasonVoluntary c"
  have shut: "\<not> ts_isOpen (wc_theap (twisp_close q r d) ! q)" if "q < length (wc_theap d)" for r d
    using that by (simp add: twisp_close_def upd_twisp_def twisp_remove_def)
  have again: "twisp_close q r d = d" if "\<not> ts_isOpen (wc_theap d ! q)" for r d
    using that by (simp add: twisp_close_def)
  have w: "wire_sent ?c1 = wire_sent c @ closeFrame i closeReasonVoluntary"
    using D sendClosePacket_open [OF D(5), of i closeReasonVoluntary]
    by (simp add: wire_sent_def twisp_close_wire)
  have "readPty q b h [] (Some eof) ?c1 = on_wire (put_read_buf b) ?c1"
    using again [OF shut [OF D(1)]] by (cases eof) (simp_all add: readPty_def)
  then show "wire_sent (readPty q b h [] (Some eof) ?c1) = wire_sent c @ closeFrame i closeReasonVoluntary"
    using w by (simp add: wire_sent_def on_wire_def put_read_buf_def)
  show "wire_sent (twisp_close q closeReasonVoluntary (readPty q b h [] (Some eof) c))
      = wire_sent c @ closeFrame i (end_reason (pty_end eof))" if "length h = 15"
  proof -
    have e: "end_task (PtyTask q) (c\<lparr>wc_tasks := PtyTask q # wc_tasks c\<rparr>) = c"
      by (simp add: end_task_def)
    have o: "terminal_open i q (c\<lparr>wc_tasks := PtyTask q # wc_tasks c\<rparr>)"
      using assms by (simp add: terminal_open_def pty_closed_def)
    note r = readPty_ends [OF o that, of b "[]" eof "PtyTask q", unfolded e]
    show ?thesis using again [OF r(3)] r(1) by (simp add: wire_sent_def)
  qed
qed

end
