(* ===== verification/Close_Race.thy ===== *)
theory Close_Race
  imports Conn_Data
begin

text \<open>
  \<open>wispStream.close\<close> statement by statement (\<open>wisp/wisp-stream.go\<close>), with any number of
  goroutines closing one stream at the same time while the read loop looks it up for a DATA
  packet (\<open>wisp/wisp-connection.go\<close>). The other theories take \<open>close\<close> and the lookup as one
  step each; here it is shown for which part of the state this makes no difference, and what
  goes wrong in the remaining part, the lookup cache, which no lock protects.
\<close>

section \<open>The statements of \<open>close\<close>\<close>

text \<open>\<open>deleteWispStream\<close>, statement by statement.\<close>

definition delete_registry :: "u32 \<Rightarrow> wispConnection \<Rightarrow> wispConnection" where
  "delete_registry i c = c\<lparr>wc_streams := (wc_streams c)(i := None)\<rparr>"

definition delete_cached :: "u32 \<Rightarrow> wispConnection \<Rightarrow> wispConnection" where
  "delete_cached i c =
     (if fst (wc_streamCache c ! cache_slot i) = i
      then c\<lparr>wc_streamCache := (wc_streamCache c)[cache_slot i := (i, None)]\<rparr> else c)"

definition delete_count :: "wispConnection \<Rightarrow> wispConnection" where
  "delete_count c = c\<lparr>wc_streamCount := go_int32 (wc_streamCount c - 1)\<rparr>"

text \<open>What the caller that has won the exchange of \<open>isOpen\<close> does next, in order.\<close>

definition close_stages :: nat where "close_stages = 7"

definition close_stage :: "nat \<Rightarrow> u32 \<Rightarrow> u8 \<Rightarrow> nat \<Rightarrow> wispConnection \<Rightarrow> wispConnection" where
  "close_stage p i r n =
     [signalConnReady p, delete_registry i, delete_cached i, delete_count,
      stream_close_conn p, stream_drain p, on_wire (sendClosePacket i r)] ! n"

text \<open>
  The callers and the read loop. A caller is before the exchange with its reason, has done
  \<open>n\<close> statements after it, or has returned; the read loop looks at the cache, then at the
  registry, then fills the cache.
\<close>

datatype close_pc = C_Start u8 | C_At nat u8 | C_Done

datatype lookup_pc = L_Start | L_Miss | L_Loaded nat | L_Found nat | L_None

record race =
  rc_conn :: wispConnection
  rc_close :: "nat \<Rightarrow> close_pc"
  rc_lookup :: lookup_pc

definition mark_closed :: "nat \<Rightarrow> wispConnection \<Rightarrow> wispConnection" where
  "mark_closed p c = upd_stream p (\<lambda>s. s\<lparr>ws_isOpen := False\<rparr>) c"

definition fill_cache :: "u32 \<Rightarrow> nat \<Rightarrow> wispConnection \<Rightarrow> wispConnection" where
  "fill_cache i q c = c\<lparr>wc_streamCache := (wc_streamCache c)[cache_slot i := (i, Some q)]\<rparr>"

definition cached :: "u32 \<Rightarrow> wispConnection \<Rightarrow> nat option" where
  "cached i c =
     (if fst (wc_streamCache c ! cache_slot i) = i then snd (wc_streamCache c ! cache_slot i) else None)"

inductive race_step :: "nat \<Rightarrow> u32 \<Rightarrow> race \<Rightarrow> race \<Rightarrow> bool" for p :: nat and i :: u32 where
  close_wins: "rc_close s k = C_Start r \<Longrightarrow> ws_isOpen (stream_at p (rc_conn s)) \<Longrightarrow>
    race_step p i s (s\<lparr>rc_conn := mark_closed p (rc_conn s), rc_close := (rc_close s)(k := C_At 0 r)\<rparr>)"
| close_late: "rc_close s k = C_Start r \<Longrightarrow> \<not> ws_isOpen (stream_at p (rc_conn s)) \<Longrightarrow>
    race_step p i s (s\<lparr>rc_close := (rc_close s)(k := C_Done)\<rparr>)"
| close_next: "rc_close s k = C_At n r \<Longrightarrow> n < close_stages \<Longrightarrow>
    race_step p i s (s\<lparr>rc_conn := close_stage p i r n (rc_conn s),
      rc_close := (rc_close s)(k := C_At (Suc n) r)\<rparr>)"
| close_returns: "rc_close s k = C_At close_stages r \<Longrightarrow>
    race_step p i s (s\<lparr>rc_close := (rc_close s)(k := C_Done)\<rparr>)"
| look_hit: "rc_lookup s = L_Start \<Longrightarrow> cached i (rc_conn s) = Some q \<Longrightarrow>
    race_step p i s (s\<lparr>rc_lookup := L_Found q\<rparr>)"
| look_miss: "rc_lookup s = L_Start \<Longrightarrow> cached i (rc_conn s) = None \<Longrightarrow>
    race_step p i s (s\<lparr>rc_lookup := L_Miss\<rparr>)"
| look_load: "rc_lookup s = L_Miss \<Longrightarrow> wc_streams (rc_conn s) i = Some q \<Longrightarrow>
    race_step p i s (s\<lparr>rc_lookup := L_Loaded q\<rparr>)"
| look_none: "rc_lookup s = L_Miss \<Longrightarrow> wc_streams (rc_conn s) i = None \<Longrightarrow>
    race_step p i s (s\<lparr>rc_lookup := L_None\<rparr>)"
| look_fill: "rc_lookup s = L_Loaded q \<Longrightarrow>
    race_step p i s (s\<lparr>rc_conn := fill_cache i q (rc_conn s), rc_lookup := L_Found q\<rparr>)"

definition race_start :: "u8 list \<Rightarrow> wispConnection \<Rightarrow> race" where
  "race_start rs c =
     \<lparr>rc_conn = c, rc_close = (\<lambda>k. if k < length rs then C_Start (rs ! k) else C_Done),
      rc_lookup = L_Start\<rparr>"

section \<open>One caller takes effect\<close>

text \<open>The statements together are \<open>close\<close>.\<close>

definition close_upto :: "nat \<Rightarrow> u32 \<Rightarrow> u8 \<Rightarrow> nat \<Rightarrow> wispConnection \<Rightarrow> wispConnection" where
  "close_upto p i r n c = fold (close_stage p i r) [0..<n] (mark_closed p c)"

lemma close_upto_simps [simp]:
  "close_upto p i r 0 c = mark_closed p c"
  "close_upto p i r (Suc n) c = close_stage p i r n (close_upto p i r n c)"
  by (simp_all add: close_upto_def)

lemma delete_parts: "delete_count (delete_cached i (delete_registry i c)) = deleteWispStream i c"
  by (simp add: delete_count_def delete_cached_def delete_registry_def deleteWispStream_def)

lemma close_upto_all:
  assumes "ws_isOpen (stream_at p c)" and "i = ws_streamId (stream_at p c)"
  shows "close_upto p i r close_stages c = stream_close p r c"
proof -
  have "[0..<close_stages] = [0, 1, 2, 3, 4, 5, 6]"
    by (simp add: close_stages_def upt_rec)
  then have "close_upto p i r close_stages c = on_wire (sendClosePacket i r) (stream_drain p
      (stream_close_conn p (delete_count (delete_cached i (delete_registry i
        (signalConnReady p (mark_closed p c)))))))"
    by (simp add: close_upto_def close_stage_def)
  then show ?thesis
    using assms by (simp add: delete_parts stream_close_def mark_closed_def)
qed

text \<open>Everything but the cache is independent of the cache.\<close>

definition but_cache :: "wispConnection \<Rightarrow> wispConnection" where
  "but_cache c = c\<lparr>wc_streamCache := []\<rparr>"

lemma releases_but_cache:
  "but_cache (fold releaseIngressJob js (c\<lparr>wc_streamCache := x\<rparr>)) = but_cache (fold releaseIngressJob js c)"
proof (induction js arbitrary: c)
  case (Cons j js)
  have "releaseIngressJob j (c\<lparr>wc_streamCache := x\<rparr>) = (releaseIngressJob j c)\<lparr>wc_streamCache := x\<rparr>"
    by (simp add: releaseIngressJob_def split: option.split ingressPool.split)
  with Cons.IH show ?case by simp
qed (simp add: but_cache_def)

lemma upd_stream_cache:
  "upd_stream p f (c\<lparr>wc_streamCache := x\<rparr>) = (upd_stream p f c)\<lparr>wc_streamCache := x\<rparr>"
  by (simp add: upd_stream_def)

lemma stage_cases:
  assumes "n < close_stages"
  obtains "n = 0" | "n = 1" | "n = 2" | "n = 3" | "n = 4" | "n = 5" | "n = 6"
  using assms by (auto simp: close_stages_def less_Suc_eq numeral_eq_Suc)

lemma stage_but_cache:
  assumes "n < close_stages"
  shows "but_cache (close_stage p i r n (but_cache c)) = but_cache (close_stage p i r n c)"
  using assms
proof (cases rule: stage_cases)
  case 6
  then show ?thesis
    using releases_but_cache [where x = "[]"]
    by (simp add: close_stage_def stream_drain_def upd_stream_cache but_cache_def)
qed (simp_all add: close_stage_def signalConnReady_def delete_registry_def delete_cached_def
    delete_count_def stream_close_conn_def on_wire_def upd_stream_def but_cache_def)

lemma stage_stream:
  assumes "n < close_stages" and "p < length (wc_heap c)"
  shows "ws_isOpen (stream_at p (close_stage p i r n c)) = ws_isOpen (stream_at p c)
    \<and> length (wc_heap (close_stage p i r n c)) = length (wc_heap c)"
proof -
  have heap: "wc_heap (fold releaseIngressJob js d) = wc_heap d" for js d
    using quiet_fields(1) [OF quiet_fold_release] .
  from assms(1) show ?thesis
    by (cases rule: stage_cases) (use assms(2) in \<open>simp_all add: close_stage_def signalConnReady_def
      delete_registry_def delete_cached_def delete_count_def stream_close_conn_def on_wire_def
      stream_drain_def upd_stream_def heap\<close>)
qed

lemma close_upto_closed:
  assumes "p < length (wc_heap c)" and "n \<le> close_stages"
  shows "\<not> ws_isOpen (stream_at p (close_upto p i r n c)) \<and> p < length (wc_heap (close_upto p i r n c))"
  using assms(2)
proof (induction n)
  case 0
  show ?case using assms(1) by (simp add: mark_closed_def)
next
  case (Suc n)
  then show ?case using stage_stream [of n p "close_upto p i r n c" i r] by simp
qed

lemma same_but_cache:
  "but_cache a = but_cache b \<Longrightarrow> wc_heap a = wc_heap b"
  by (metis but_cache_def wispConnection.ext_inject wispConnection.surjective
      wispConnection.update_convs(4))

text \<open>
  At any moment nobody has won yet and nothing has happened, or one caller has won and the
  state is what its statements so far have made of the start.
\<close>

definition waiting :: "u8 list \<Rightarrow> race \<Rightarrow> nat \<Rightarrow> bool" where
  "waiting rs s k \<longleftrightarrow> rc_close s k = (if k < length rs then C_Start (rs ! k) else C_Done)"

definition nobody_won :: "u8 list \<Rightarrow> wispConnection \<Rightarrow> race \<Rightarrow> bool" where
  "nobody_won rs c s \<longleftrightarrow> (\<forall>k. waiting rs s k) \<and> but_cache (rc_conn s) = but_cache c"

definition won_by :: "nat \<Rightarrow> u32 \<Rightarrow> u8 list \<Rightarrow> wispConnection \<Rightarrow> race \<Rightarrow> nat \<Rightarrow> nat \<Rightarrow> bool" where
  "won_by p i rs c s w n \<longleftrightarrow> w < length rs \<and> n \<le> close_stages
     \<and> but_cache (rc_conn s) = but_cache (close_upto p i (rs ! w) n c)
     \<and> (rc_close s w = C_At n (rs ! w) \<or> n = close_stages \<and> rc_close s w = C_Done)
     \<and> (\<forall>k. k \<noteq> w \<longrightarrow> waiting rs s k \<or> rc_close s k = C_Done)"

definition race_inv :: "nat \<Rightarrow> u32 \<Rightarrow> u8 list \<Rightarrow> wispConnection \<Rightarrow> race \<Rightarrow> bool" where
  "race_inv p i rs c s \<longleftrightarrow> nobody_won rs c s \<or> (\<exists>w n. won_by p i rs c s w n)"

lemma won_by_closed:
  "won_by p i rs c s w n \<Longrightarrow> p < length (wc_heap c) \<Longrightarrow> \<not> ws_isOpen (stream_at p (rc_conn s))"
  using close_upto_closed same_but_cache by (metis won_by_def)

lemma won_by_pc:
  "won_by p i rs c s w n \<Longrightarrow> rc_close s k = C_At m r \<Longrightarrow> k = w \<and> m = n \<and> r = rs ! w"
  unfolding won_by_def waiting_def
  by (metis close_pc.distinct(1) close_pc.distinct(5) close_pc.inject(2))

lemma but_cache_stage:
  "n < close_stages \<Longrightarrow> but_cache a = but_cache b
     \<Longrightarrow> but_cache (close_stage p i r n a) = but_cache (close_stage p i r n b)"
  by (metis stage_but_cache)

lemma nobody_won_heap: "nobody_won rs c s \<Longrightarrow> wc_heap (rc_conn s) = wc_heap c"
  unfolding nobody_won_def by (blast intro: same_but_cache)

lemma but_cache_mark: "but_cache a = but_cache b \<Longrightarrow> but_cache (mark_closed p a) = but_cache (mark_closed p b)"
  by (simp only: but_cache_def mark_closed_def upd_stream_cache [symmetric])

lemma nobody_won_pc: "nobody_won rs c s \<Longrightarrow> rc_close s k \<noteq> C_At n r"
  by (simp add: nobody_won_def waiting_def)

lemma race_inv_step:
  assumes "race_step p i s t" and "race_inv p i rs c s"
    and p: "p < length (wc_heap c)" and o: "ws_isOpen (stream_at p c)"
  shows "race_inv p i rs c t"
  using assms(1,2)
proof (induction rule: race_step.induct)
  case (close_wins s k r)
  then have n: "nobody_won rs c s"
    using won_by_closed [OF _ p] unfolding race_inv_def by blast
  then have w: "waiting rs s k" by (simp add: nobody_won_def)
  have "but_cache (mark_closed p (rc_conn s)) = but_cache (mark_closed p c)"
    using n unfolding nobody_won_def by (blast intro: but_cache_mark)
  with n w close_wins(1) have "won_by p i rs c (s\<lparr>rc_conn := mark_closed p (rc_conn s),
      rc_close := (rc_close s)(k := C_At 0 r)\<rparr>) k 0"
    by (auto simp: nobody_won_def won_by_def waiting_def split: if_splits)
  then show ?case by (auto simp: race_inv_def)
next
  case (close_late s k r)
  then have "\<not> nobody_won rs c s" using nobody_won_heap [of rs c s] o by auto
  with close_late obtain w n where w: "won_by p i rs c s w n"
    by (auto simp: race_inv_def)
  then have "won_by p i rs c (s\<lparr>rc_close := (rc_close s)(k := C_Done)\<rparr>) w n"
    using close_late(1) by (auto simp: won_by_def waiting_def)
  then show ?case by (auto simp: race_inv_def)
next
  case (close_next s k n r)
  have "\<not> nobody_won rs c s"
    using close_next(1) nobody_won_pc by blast
  with close_next obtain w m where w: "won_by p i rs c s w m"
    by (auto simp: race_inv_def)
  note k = won_by_pc [OF w close_next(1)]
  have "won_by p i rs c (s\<lparr>rc_conn := close_stage p i r n (rc_conn s),
      rc_close := (rc_close s)(k := C_At (Suc n) r)\<rparr>) w (Suc n)"
  proof -
    have "but_cache (close_stage p i r n (rc_conn s)) = but_cache (close_upto p i (rs ! w) (Suc n) c)"
      using but_cache_stage [OF close_next(2), of "rc_conn s" "close_upto p i (rs ! w) n c" p i r] w k
      by (simp add: won_by_def)
    with w k close_next(2) show ?thesis
      by (auto simp: won_by_def waiting_def simp del: close_upto_simps)
  qed
  then show ?case by (auto simp: race_inv_def)
next
  case (close_returns s k r)
  have "\<not> nobody_won rs c s"
    using close_returns(1) nobody_won_pc by blast
  with close_returns obtain w m where w: "won_by p i rs c s w m"
    by (auto simp: race_inv_def)
  note k = won_by_pc [OF w close_returns(1)]
  have "won_by p i rs c (s\<lparr>rc_close := (rc_close s)(k := C_Done)\<rparr>) w m"
    using w k by (auto simp: won_by_def waiting_def)
  then show ?case by (auto simp: race_inv_def)
next
  case (look_fill s q)
  have "but_cache (fill_cache i q d) = but_cache d" for d
    by (simp add: but_cache_def fill_cache_def)
  with look_fill show ?case
    by (simp add: race_inv_def nobody_won_def won_by_def waiting_def)
qed (simp_all add: race_inv_def nobody_won_def won_by_def waiting_def)

interpretation closing: step_invariant "race_step p i"
    "\<lambda>s. p < length (wc_heap c) \<and> ws_isOpen (stream_at p c) \<and> race_inv p i rs c s" for p i rs c
  by unfold_locales (blast intro: race_inv_step)

text \<open>
  C11: Concurrent closings are one: when any number of goroutines close a stream at the same time,
  with their statements interleaved in any way with each other and with a lookup, then once
  all have returned the connection is what a single, atomic \<open>close\<close> with the reason of one of
  them makes of it, in everything but the lookup cache: one CLOSE is sent, the counter goes
  down once, the buffers are released once.
\<close>

theorem close_linearizable:
  assumes "(race_step p (ws_streamId (stream_at p c)))\<^sup>*\<^sup>* (race_start rs c) s"
    and "\<forall>k. rc_close s k = C_Done"
    and "p < length (wc_heap c)" and "ws_isOpen (stream_at p c)" and "rs \<noteq> []"
  shows "\<exists>r \<in> set rs. (rc_conn s)\<lparr>wc_streamCache := []\<rparr> = (stream_close p r c)\<lparr>wc_streamCache := []\<rparr>"
proof -
  let ?i = "ws_streamId (stream_at p c)"
  have "race_inv p ?i rs c (race_start rs c)"
    by (simp add: race_inv_def nobody_won_def race_start_def waiting_def)
  then have "race_inv p ?i rs c s"
    using closing.runs [OF assms(1)] assms(3,4) by blast
  moreover have "\<not> nobody_won rs c s"
  proof
    assume "nobody_won rs c s"
    then have "waiting rs s 0" by (simp add: nobody_won_def)
    with assms(2,5) show False by (simp add: waiting_def)
  qed
  ultimately obtain w n where w: "won_by p ?i rs c s w n"
    by (auto simp: race_inv_def)
  then have "n = close_stages" using assms(2) by (auto simp: won_by_def)
  with w close_upto_all [OF assms(4) refl] have
    "but_cache (rc_conn s) = but_cache (stream_close p (rs ! w) c)" "rs ! w \<in> set rs"
    by (simp_all add: won_by_def)
  then show ?thesis unfolding but_cache_def by blast
qed

section \<open>What happens to the cache\<close>

lemma closes_upto:
  assumes "rc_close s k = C_Start r" and "ws_isOpen (stream_at p (rc_conn s))" and "n \<le> close_stages"
  shows "(race_step p i)\<^sup>*\<^sup>* s (s\<lparr>rc_conn := close_upto p i r n (rc_conn s),
     rc_close := (rc_close s)(k := C_At n r)\<rparr>)"
  using assms(3)
proof (induction n)
  case 0
  show ?case unfolding close_upto_simps
    by (rule r_into_rtranclp [of "race_step p i", OF close_wins [OF assms(1,2)]])
next
  case (Suc n)
  let ?t = "s\<lparr>rc_conn := close_upto p i r n (rc_conn s), rc_close := (rc_close s)(k := C_At n r)\<rparr>"
  have "race_step p i ?t (s\<lparr>rc_conn := close_upto p i r (Suc n) (rc_conn s),
      rc_close := (rc_close s)(k := C_At (Suc n) r)\<rparr>)"
    using close_next [of ?t k n r p i] Suc.prems by simp
  with Suc show ?case by (meson Suc_leD rtranclp.rtrancl_into_rtrancl)
qed

lemma closes_alone:
  assumes "rc_close s k = C_Start r" and "ws_isOpen (stream_at p (rc_conn s))"
    and "i = ws_streamId (stream_at p (rc_conn s))"
  shows "(race_step p i)\<^sup>*\<^sup>* s (s\<lparr>rc_conn := stream_close p r (rc_conn s),
     rc_close := (rc_close s)(k := C_Done)\<rparr>)"
proof -
  let ?t = "s\<lparr>rc_conn := stream_close p r (rc_conn s), rc_close := (rc_close s)(k := C_At close_stages r)\<rparr>"
  have "(race_step p i)\<^sup>*\<^sup>* s ?t"
    using closes_upto [OF assms(1,2) order_refl, of i] close_upto_all [OF assms(2,3)] by simp
  moreover have "race_step p i ?t (s\<lparr>rc_conn := stream_close p r (rc_conn s), rc_close := (rc_close s)(k := C_Done)\<rparr>)"
    using close_returns [of ?t k r p i] by simp
  ultimately show ?thesis by (rule rtranclp.rtrancl_into_rtrancl)
qed

text \<open>The read loop loads the stream, the stream is closed, the read loop fills the cache.\<close>

lemma stale_run:
  assumes "wc_streams c i = Some p" and "cached i c = None"
    and "ws_isOpen (stream_at p c)" and "ws_streamId (stream_at p c) = i"
  shows "(race_step p i)\<^sup>*\<^sup>* (race_start [r] c)
     \<lparr>rc_conn = fill_cache i p (stream_close p r c), rc_close = (\<lambda>_. C_Done), rc_lookup = L_Found p\<rparr>"
proof -
  let ?s0 = "race_start [r] c"
  let ?s1 = "?s0\<lparr>rc_lookup := L_Miss\<rparr>"
  let ?s2 = "?s0\<lparr>rc_lookup := L_Loaded p\<rparr>"
  let ?s3 = "?s2\<lparr>rc_conn := stream_close p r c, rc_close := (rc_close ?s2)(0 := C_Done)\<rparr>"
  have "race_step p i ?s0 ?s1"
    by (rule look_miss) (simp_all add: race_start_def assms(2))
  moreover have "race_step p i ?s1 ?s2"
    using look_load [of ?s1 i p p] assms(1) by (simp add: race_start_def)
  moreover have "(race_step p i)\<^sup>*\<^sup>* ?s2 ?s3"
    using closes_alone [of ?s2 0 r p i] assms(3,4) by (simp add: race_start_def)
  moreover have "race_step p i ?s3 (?s3\<lparr>rc_conn := fill_cache i p (rc_conn ?s3), rc_lookup := L_Found p\<rparr>)"
    by (rule look_fill) simp
  ultimately have "(race_step p i)\<^sup>*\<^sup>* ?s0 (?s3\<lparr>rc_conn := fill_cache i p (rc_conn ?s3), rc_lookup := L_Found p\<rparr>)"
    by (rule rtranclp.rtrancl_into_rtrancl [OF converse_rtranclp_into_rtranclp
          [OF _ converse_rtranclp_into_rtranclp]])
  moreover have "?s3\<lparr>rc_conn := fill_cache i p (rc_conn ?s3), rc_lookup := L_Found p\<rparr>
      = \<lparr>rc_conn = fill_cache i p (stream_close p r c), rc_close = (\<lambda>_. C_Done), rc_lookup = L_Found p\<rparr>"
    by (simp add: race_start_def fun_eq_iff)
  ultimately show ?thesis by simp
qed

lemma dropped_packets:
  assumes "wc_streamCache c ! cache_slot i = (i, Some p)" and "\<not> ws_isOpen (stream_at p c)"
  shows "data_packets i xs c = c"
proof -
  have "handleDataPacket i d b c = (False, c)" for d b
    using assms by (simp add: handleDataPacket_def lookup_stream_def)
  then show ?thesis by (induction xs) auto
qed

text \<open>
  C37: The lookup cache is not protected: if a stream is closed between the moment the read loop
  loads it from the registry and the moment it fills the cache, the closed stream stays in
  the cache. When the client takes the id again, the new stream is registered and open, and
  every DATA packet for it is dropped without an answer, because the lookup finds the old one.
\<close>

theorem stale_cache_drops_data:
  assumes "reachable bcrypt (newConnection cfg g dns v2 ip n nc) c"
    and "wc_streams c i = Some p" and "cached i c = None"
  shows "\<exists>s. (race_step p i)\<^sup>*\<^sup>* (race_start [r] c) s \<and> rc_close s = (\<lambda>_. C_Done) \<and> rc_lookup s = L_Found p
    \<and> (let d = register_stream i ty port h (rc_conn s); q = length (wc_heap c)
       in wc_streams d i = Some q \<and> ws_isOpen (stream_at q d) \<and> ws_streamId (stream_at q d) = i
          \<and> data_packets i xs d = d)"
proof -
  have inv: "conn_inv None c" by (rule reachable_inv [OF assms(1)])
  then have p: "p < length (wc_heap c)" "ws_isOpen (stream_at p c)" "ws_streamId (stream_at p c) = i"
    using assms(2) by (auto simp: conn_inv_def registry_ok_def)
  let ?e = "stream_close p r c"
  let ?d = "register_stream i ty port h (fill_cache i p ?e)"
  note f = stream_close_fields [OF p(1), of r]
  have inv': "conn_inv None ?e" using inv p(1) by (simp add: stream_close_inv)
  have unreg: "wc_streams ?e i = None"
    using stream_close_registry [OF p(1,2), of r] p(3) by simp
  have slot: "cache_slot i < length (wc_streamCache ?e)"
    using conn_invD(2) [OF inv'] cache_slot_less by (simp add: cache_ok_def)
  have d: "wc_heap ?d = wc_heap ?e @ [newStream i port h]" "wc_streams ?d i = Some (length (wc_heap c))"
    "wc_streamCache ?d ! cache_slot i = (i, Some p)"
    using unreg f(9) slot by (simp_all add: register_stream_def fill_cache_def spawn_def)
  have "\<not> ws_isOpen (stream_at p ?d)"
    using f(9,10) p(1) by (simp add: d(1) nth_append)
  from dropped_packets [OF d(3) this] have "data_packets i xs ?d = ?d" .
  moreover have "stream_at (length (wc_heap c)) ?d = newStream i port h"
    using f(9) by (simp add: d(1) nth_append)
  ultimately have "let d = ?d; q = length (wc_heap c)
       in wc_streams d i = Some q \<and> ws_isOpen (stream_at q d) \<and> ws_streamId (stream_at q d) = i
          \<and> data_packets i xs d = d"
    using d(2) by (simp add: Let_def newStream_def)
  with stale_run [OF assms(2,3) p(2,3), of r] show ?thesis
    by (intro exI conjI) (assumption | simp)+
qed

theorem close_linearizable_witness:
  "\<exists>r \<in> set [closeReasonVoluntary].
     (stream_close 0 closeReasonVoluntary example_dialing)\<lparr>wc_streamCache := []\<rparr>
       = (stream_close 0 r example_dialing)\<lparr>wc_streamCache := []\<rparr>"
proof -
  let ?rs = "[closeReasonVoluntary]"
  let ?s = "(race_start ?rs example_dialing)\<lparr>rc_conn := stream_close 0 closeReasonVoluntary example_dialing,
     rc_close := (rc_close (race_start ?rs example_dialing))(0 := C_Done)\<rparr>"
  have o: "ws_isOpen (stream_at 0 example_dialing)" "0 < length (wc_heap example_dialing)"
    by (simp_all add: example_dialing_shape newStream_def)
  have "(race_step 0 (ws_streamId (stream_at 0 example_dialing)))\<^sup>*\<^sup>* (race_start ?rs example_dialing) ?s"
    using closes_alone [of "race_start ?rs example_dialing" 0 closeReasonVoluntary 0] o
    by (simp add: race_start_def)
  from close_linearizable [OF this _ o(2,1)] show ?thesis
    by (simp add: race_start_def)
qed

theorem stale_cache_drops_data_witness:
  "\<exists>s. (race_step 0 5)\<^sup>*\<^sup>* (race_start [closeReasonVoluntary] example_dialing) s \<and> rc_close s = (\<lambda>_. C_Done)
    \<and> rc_lookup s = L_Found 0
    \<and> (let d = register_stream 5 streamTypeTCP 80 ''c.d'' (rc_conn s); q = length (wc_heap example_dialing)
       in wc_streams d 5 = Some q \<and> ws_isOpen (stream_at q d) \<and> ws_streamId (stream_at q d) = 5
          \<and> data_packets 5 [([1, 2], 0)] d = d)"
proof (rule stale_cache_drops_data [OF example_dialing_reachable [unfolded example_conn_def]])
  show "wc_streams example_dialing 5 = Some 0"
    by (simp add: example_dialing_shape)
  have "wc_streamCache example_dialing = replicate streamCacheSize (0, None)"
    unfolding example_dialing_eq example_open_eq
    by (simp add: end_task_def spawn_def put_ws_buf_def register_stream_def start_connection_def
        example_conn_def newConnection_def on_wire_def)
  then show "cached 5 example_dialing = None"
    using cache_slot_less [of 5] by (simp add: cached_def)
qed

end
