(* ===== verification/Data_Race.thy ===== *)
theory Data_Race
  imports Close_Race
begin

text \<open>
  The handler of a DATA packet statement by statement (\<open>handleDataPacket\<close> of
  \<open>wisp/wisp-connection.go\<close>, \<open>queueIngressOwned\<close> of \<open>wisp/wisp-stream.go\<close>), interleaved with any
  number of goroutines that close the stream at the same time. Left alone it is the atomic
  \<open>handleDataPacket\<close> of the other theories; a \<open>close\<close> in the wrong place makes it write to a
  connection that does not exist, or give a buffer back twice.
\<close>

section \<open>The statements of the handler\<close>

text \<open>
  Where the read loop is, once the lookup has answered: it has a stream and looks whether it
  is open; whether the dial is through (without the lock); the same with the lock held;
  which way the data goes; in \<open>queueIngressOwned\<close>; in \<open>submitIngress\<close>; before the direct write;
  through, with or without the buffer kept; or it has panicked.
\<close>

datatype data_pc = D_Start | D_Open nat | D_Lock nat | D_Route nat | D_Queue nat | D_Submit nat
  | D_Write nat | D_Done bool | D_Panic

record data_race =
  dr_race :: race
  dr_pc :: data_pc

abbreviation dr_conn :: "data_race \<Rightarrow> wispConnection" where
  "dr_conn s \<equiv> rc_conn (dr_race s)"

definition dr_goto :: "wispConnection \<Rightarrow> data_pc \<Rightarrow> data_race \<Rightarrow> data_race" where
  "dr_goto c pc s = \<lparr>dr_race = (dr_race s)\<lparr>rc_conn := c\<rparr>, dr_pc = pc\<rparr>"

definition queued_ingress :: "nat \<Rightarrow> wispConnection \<Rightarrow> bool" where
  "queued_ingress q c = (ws_streamType (stream_at q c) = streamTypeTCP \<and> ws_ingressActive (stream_at q c))"

definition takes_ingress :: "nat \<Rightarrow> wispConnection \<Rightarrow> bool" where
  "takes_ingress q c = (ws_ingressActive (stream_at q c) \<and> ws_isOpen (stream_at q c))"

definition submit_data :: "u32 \<Rightarrow> nat \<Rightarrow> bytes \<Rightarrow> nat \<Rightarrow> wispConnection \<Rightarrow> bool \<times> wispConnection" where
  "submit_data i q payload b c =
     (case submitIngress q \<lparr>ij_payload = payload, ij_bufp = Some b, ij_pool = ingressPoolWS\<rparr> c of (ok, c1) \<Rightarrow>
        (ok, if ok then use_credit i q c1 else c1))"

inductive data_step :: "nat \<Rightarrow> u32 \<Rightarrow> bytes \<Rightarrow> nat \<Rightarrow> data_race \<Rightarrow> data_race \<Rightarrow> bool"
  for p :: nat and i :: u32 and payload :: bytes and b :: nat where
  ds_race: "race_step p i (dr_race s) r \<Longrightarrow> data_step p i payload b s (s\<lparr>dr_race := r\<rparr>)"
| ds_terminal: "dr_pc s = D_Start \<Longrightarrow> rc_lookup (dr_race s) = L_None \<Longrightarrow>
    data_step p i payload b s (dr_goto (twisp_data i payload (dr_conn s)) (D_Done False) s)"
| ds_open: "dr_pc s = D_Start \<Longrightarrow> rc_lookup (dr_race s) = L_Found q \<Longrightarrow> ws_isOpen (stream_at q (dr_conn s)) \<Longrightarrow>
    data_step p i payload b s (s\<lparr>dr_pc := D_Open q\<rparr>)"
| ds_closed: "dr_pc s = D_Start \<Longrightarrow> rc_lookup (dr_race s) = L_Found q \<Longrightarrow> \<not> ws_isOpen (stream_at q (dr_conn s)) \<Longrightarrow>
    data_step p i payload b s (s\<lparr>dr_pc := D_Done False\<rparr>)"
| ds_ready: "dr_pc s = D_Open q \<Longrightarrow> ws_connReadyDone (stream_at q (dr_conn s)) \<Longrightarrow>
    data_step p i payload b s (s\<lparr>dr_pc := D_Route q\<rparr>)"
| ds_early: "dr_pc s = D_Open q \<Longrightarrow> \<not> ws_connReadyDone (stream_at q (dr_conn s)) \<Longrightarrow>
    data_step p i payload b s (s\<lparr>dr_pc := D_Lock q\<rparr>)"
| ds_meanwhile: "dr_pc s = D_Lock q \<Longrightarrow> ws_connReadyDone (stream_at q (dr_conn s)) \<Longrightarrow>
    data_step p i payload b s (s\<lparr>dr_pc := D_Route q\<rparr>)"
| ds_keep: "dr_pc s = D_Lock q \<Longrightarrow> \<not> ws_connReadyDone (stream_at q (dr_conn s)) \<Longrightarrow>
    data_step p i payload b s (dr_goto (buffer_data q payload (dr_conn s)) (D_Done False) s)"
| ds_queue: "dr_pc s = D_Route q \<Longrightarrow> queued_ingress q (dr_conn s) \<Longrightarrow>
    data_step p i payload b s (s\<lparr>dr_pc := D_Queue q\<rparr>)"
| ds_direct: "dr_pc s = D_Route q \<Longrightarrow> \<not> queued_ingress q (dr_conn s) \<Longrightarrow>
    data_step p i payload b s (s\<lparr>dr_pc := D_Write q\<rparr>)"
| ds_dropped: "dr_pc s = D_Queue q \<Longrightarrow> \<not> takes_ingress q (dr_conn s) \<Longrightarrow>
    data_step p i payload b s (dr_goto (put_ws_buf (Some b) (dr_conn s)) (D_Done False) s)"
| ds_taken: "dr_pc s = D_Queue q \<Longrightarrow> takes_ingress q (dr_conn s) \<Longrightarrow>
    data_step p i payload b s (s\<lparr>dr_pc := D_Submit q\<rparr>)"
| ds_submit: "dr_pc s = D_Submit q \<Longrightarrow> submit_data i q payload b (dr_conn s) = (ok, c1) \<Longrightarrow>
    data_step p i payload b s (dr_goto c1 (D_Done ok) s)"
| ds_write: "dr_pc s = D_Write q \<Longrightarrow> ws_conn (stream_at q (dr_conn s)) \<noteq> None \<Longrightarrow>
    data_step p i payload b s (dr_goto (deliver_direct i q payload (dr_conn s)) (D_Done False) s)"
| ds_panic: "dr_pc s = D_Write q \<Longrightarrow> ws_conn (stream_at q (dr_conn s)) = None \<Longrightarrow>
    data_step p i payload b s (s\<lparr>dr_pc := D_Panic\<rparr>)"

definition data_start :: "u8 list \<Rightarrow> wispConnection \<Rightarrow> data_race" where
  "data_start rs c = \<lparr>dr_race = race_start rs c, dr_pc = D_Start\<rparr>"

section \<open>The lookup\<close>

lemma data_race_run:
  assumes "(race_step p i)\<^sup>*\<^sup>* r r'"
  shows "(data_step p i payload b)\<^sup>*\<^sup>* \<lparr>dr_race = r, dr_pc = pc\<rparr> \<lparr>dr_race = r', dr_pc = pc\<rparr>"
  using assms
proof (induction rule: rtranclp_induct)
  case (step y z)
  have "data_step p i payload b \<lparr>dr_race = y, dr_pc = pc\<rparr> \<lparr>dr_race = z, dr_pc = pc\<rparr>"
    using ds_race [of p i "\<lparr>dr_race = y, dr_pc = pc\<rparr>" z] step(2) by simp
  with step.IH show ?case by (rule rtranclp.rtrancl_into_rtrancl)
qed simp

text \<open>Alone, the statements of the lookup are \<open>lookup_stream\<close>.\<close>

definition looked_up :: "nat option \<Rightarrow> lookup_pc" where
  "looked_up found = (case found of None \<Rightarrow> L_None | Some q \<Rightarrow> L_Found q)"

lemma lookup_alone:
  assumes "rc_lookup r = L_Start" and "lookup_stream i (rc_conn r) = (found, c1)"
  shows "(race_step p i)\<^sup>*\<^sup>* r (r\<lparr>rc_conn := c1, rc_lookup := looked_up found\<rparr>)"
proof (cases "cached i (rc_conn r)")
  case (Some q)
  then have "found = Some q" "c1 = rc_conn r"
    using assms(2) by (auto simp: lookup_stream_def cached_def split: prod.splits if_splits)
  then have "r\<lparr>rc_conn := c1, rc_lookup := looked_up found\<rparr> = r\<lparr>rc_lookup := L_Found q\<rparr>"
    by (simp add: looked_up_def)
  with look_hit [OF assms(1) Some, of p] show ?thesis by (auto intro: r_into_rtranclp [of "race_step p i"])
next
  case None
  then have l: "lookup_stream i (rc_conn r) = (case wc_streams (rc_conn r) i of
      None \<Rightarrow> (None, rc_conn r) | Some q \<Rightarrow> (Some q, fill_cache i q (rc_conn r)))"
    by (auto simp: lookup_stream_def cached_def fill_cache_def split: prod.splits if_splits option.splits)
  let ?m = "r\<lparr>rc_lookup := L_Miss\<rparr>"
  have m: "race_step p i r ?m" by (rule look_miss [OF assms(1) None])
  show ?thesis
  proof (cases "wc_streams (rc_conn r) i")
    case None
    have "race_step p i ?m (?m\<lparr>rc_lookup := L_None\<rparr>)"
      by (rule look_none) (use None in simp_all)
    moreover have "r\<lparr>rc_conn := c1, rc_lookup := looked_up found\<rparr> = ?m\<lparr>rc_lookup := L_None\<rparr>"
      using l assms(2) None by (simp add: looked_up_def)
    ultimately show ?thesis using m by (metis converse_rtranclp_into_rtranclp rtranclp.rtrancl_refl)
  next
    case (Some q)
    let ?l = "?m\<lparr>rc_lookup := L_Loaded q\<rparr>"
    have "race_step p i ?m ?l" by (rule look_load) (use Some in simp_all)
    moreover have "race_step p i ?l (?l\<lparr>rc_conn := fill_cache i q (rc_conn ?l), rc_lookup := L_Found q\<rparr>)"
      by (rule look_fill) simp
    moreover have "r\<lparr>rc_conn := c1, rc_lookup := looked_up found\<rparr>
        = ?l\<lparr>rc_conn := fill_cache i q (rc_conn ?l), rc_lookup := L_Found q\<rparr>"
      using l assms(2) Some by (simp add: looked_up_def)
    ultimately show ?thesis using m by (metis converse_rtranclp_into_rtranclp rtranclp.rtrancl_refl)
  qed
qed

section \<open>The handler left alone\<close>

text \<open>What the goroutine does once it has the stream, if nobody else moves.\<close>

lemma data_from_stream:
  fixes payload :: bytes and i :: u32 and b p :: nat
  assumes s: "dr_pc s = D_Start" "rc_lookup (dr_race s) = L_Found q"
    and conn: "ws_conn (stream_at q (dr_conn s)) \<noteq> None \<or> \<not> ws_isOpen (stream_at q (dr_conn s))
      \<or> \<not> ws_connReadyDone (stream_at q (dr_conn s))"
  defines "h \<equiv> (if \<not> ws_isOpen (stream_at q (dr_conn s)) then (False, dr_conn s)
          else if \<not> ws_connReadyDone (stream_at q (dr_conn s)) then (False, buffer_data q payload (dr_conn s))
          else if queued_ingress q (dr_conn s) then deliver_queued i q payload b (dr_conn s)
          else (False, deliver_direct i q payload (dr_conn s)))"
  shows "(data_step p i payload b)\<^sup>*\<^sup>* s (dr_goto (snd h) (D_Done (fst h)) s)"
proof -
  let ?c = "dr_conn s" and ?R = "(data_step p i payload b)\<^sup>*\<^sup>*"
  note trans = converse_rtranclp_into_rtranclp [of "data_step p i payload b"]
  have stay: "dr_goto ?c pc s = s\<lparr>dr_pc := pc\<rparr>" for pc by (simp add: dr_goto_def)
  have late: "dr_goto c pc (s\<lparr>dr_pc := pc'\<rparr>) = dr_goto c pc s" for c pc pc' by (simp add: dr_goto_def)
  show ?thesis
  proof (cases "ws_isOpen (stream_at q ?c)")
    case False
    then show ?thesis
      using ds_closed [OF s False, of p i payload b] by (simp add: h_def stay r_into_rtranclp [of "data_step p i payload b"])
  next
    case o: True
    have open_step: "data_step p i payload b s (s\<lparr>dr_pc := D_Open q\<rparr>)" by (rule ds_open [OF s o])
    show ?thesis
    proof (cases "ws_connReadyDone (stream_at q ?c)")
      case False
      have "data_step p i payload b (s\<lparr>dr_pc := D_Open q\<rparr>) (s\<lparr>dr_pc := D_Lock q\<rparr>)"
        using ds_early [of "s\<lparr>dr_pc := D_Open q\<rparr>" q] False by simp
      moreover have "data_step p i payload b (s\<lparr>dr_pc := D_Lock q\<rparr>)
          (dr_goto (buffer_data q payload ?c) (D_Done False) s)"
        using ds_keep [of "s\<lparr>dr_pc := D_Lock q\<rparr>" q] False by (simp add: late)
      ultimately show ?thesis
        using open_step o False by (auto simp: h_def intro: trans)
    next
      case r: True
      have "data_step p i payload b (s\<lparr>dr_pc := D_Open q\<rparr>) (s\<lparr>dr_pc := D_Route q\<rparr>)"
        using ds_ready [of "s\<lparr>dr_pc := D_Open q\<rparr>" q] r by simp
      with open_step have route: "?R s (s\<lparr>dr_pc := D_Route q\<rparr>)" by (auto intro: trans)
      show ?thesis
      proof (cases "queued_ingress q ?c")
        case False
        have "ws_conn (stream_at q ?c) \<noteq> None" using conn o r by blast
        then have "data_step p i payload b (s\<lparr>dr_pc := D_Write q\<rparr>)
            (dr_goto (deliver_direct i q payload ?c) (D_Done False) s)"
          using ds_write [of "s\<lparr>dr_pc := D_Write q\<rparr>" q] by (simp add: late)
        moreover have "data_step p i payload b (s\<lparr>dr_pc := D_Route q\<rparr>) (s\<lparr>dr_pc := D_Write q\<rparr>)"
          using ds_direct [of "s\<lparr>dr_pc := D_Route q\<rparr>" q] False by simp
        ultimately show ?thesis
          using route o r False by (auto simp: h_def intro: rtranclp.rtrancl_into_rtrancl)
      next
        case True
        then have t: "takes_ingress q ?c" using o by (simp add: takes_ingress_def queued_ingress_def)
        have "data_step p i payload b (s\<lparr>dr_pc := D_Route q\<rparr>) (s\<lparr>dr_pc := D_Queue q\<rparr>)"
          using ds_queue [of "s\<lparr>dr_pc := D_Route q\<rparr>" q] True by simp
        moreover have "data_step p i payload b (s\<lparr>dr_pc := D_Queue q\<rparr>) (s\<lparr>dr_pc := D_Submit q\<rparr>)"
          using ds_taken [of "s\<lparr>dr_pc := D_Queue q\<rparr>" q] t by simp
        moreover have "submit_data i q payload b ?c = deliver_queued i q payload b ?c"
          using t by (auto simp: submit_data_def deliver_queued_def queueIngressOwned_def takes_ingress_def
              split: prod.split)
        then have "data_step p i payload b (s\<lparr>dr_pc := D_Submit q\<rparr>)
            (dr_goto (snd (deliver_queued i q payload b ?c)) (D_Done (fst (deliver_queued i q payload b ?c))) s)"
          using ds_submit [of "s\<lparr>dr_pc := D_Submit q\<rparr>" q i payload b] by (simp add: late)
        ultimately show ?thesis
          using route o r True by (auto simp: h_def intro: rtranclp.rtrancl_into_rtrancl)
      qed
    qed
  qed
qed

text \<open>
  Left alone, the statements of the handler are \<open>handleDataPacket\<close> in one step, for every
  packet in every reachable state.
\<close>

theorem handleDataPacket_statements:
  assumes "reachable bcrypt (newConnection cfg g dns v2 ip n nc) c"
  shows "\<exists>s. (data_step p i payload b)\<^sup>*\<^sup>* (data_start [] c) s
    \<and> dr_conn s = snd (handleDataPacket i payload b c) \<and> dr_pc s = D_Done (fst (handleDataPacket i payload b c))"
proof -
  obtain found c1 where l: "lookup_stream i c = (found, c1)" by fastforce
  let ?r = "(race_start [] c)\<lparr>rc_conn := c1, rc_lookup := looked_up found\<rparr>"
  let ?s = "\<lparr>dr_race = ?r, dr_pc = D_Start\<rparr>"
  have "(race_step p i)\<^sup>*\<^sup>* (race_start [] c) ?r"
    using lookup_alone [of "race_start [] c" i found c1 p] l by (simp add: race_start_def)
  then have look: "(data_step p i payload b)\<^sup>*\<^sup>* (data_start [] c) ?s"
    unfolding data_start_def by (rule data_race_run)
  show ?thesis
  proof (cases found)
    case None
    have "data_step p i payload b ?s (dr_goto (twisp_data i payload c1) (D_Done False) ?s)"
      using ds_terminal [of ?s p i payload b] None by (simp add: looked_up_def)
    with look have "(data_step p i payload b)\<^sup>*\<^sup>* (data_start [] c) (dr_goto (twisp_data i payload c1) (D_Done False) ?s)"
      by (rule rtranclp.rtrancl_into_rtrancl)
    then show ?thesis
      using l None by (auto simp: handleDataPacket_def dr_goto_def)
  next
    case (Some q)
    note inv = lookup_stream_inv [OF reachable_inv [OF assms] l]
    have "q < length (wc_heap c1)"
      using conn_invD(1) [OF inv(1)] inv(2,3) conn_invD(1) [OF reachable_inv [OF assms]] Some
      by (simp add: registry_ok_def)
    then have "stream_ok (stream_at q c1)"
      by (intro conn_invD(6) [OF inv(1)]) simp
    then have q: "ws_conn (stream_at q (dr_conn ?s)) \<noteq> None \<or> \<not> ws_isOpen (stream_at q (dr_conn ?s))
        \<or> \<not> ws_connReadyDone (stream_at q (dr_conn ?s))"
      by (auto simp: stream_ok_def)
    have "rc_lookup (dr_race ?s) = L_Found q" using Some by (simp add: looked_up_def)
    note run = data_from_stream [of ?s, OF _ this q, where p = p and payload = payload and i = i and b = b]
    from rtranclp_trans [OF look run] l Some show ?thesis
      by (auto simp: handleDataPacket_def queued_ingress_def dr_goto_def split: if_splits)
  qed
qed

section \<open>A close in between\<close>

text \<open>The first two things a caller of \<open>close\<close> does: it wins the exchange and signals.\<close>

lemma close_signals:
  assumes "rc_close r 0 = C_Start reason" and "ws_isOpen (stream_at p (rc_conn r))"
  shows "(race_step p i)\<^sup>*\<^sup>* r (r\<lparr>rc_conn := signalConnReady p (mark_closed p (rc_conn r)),
     rc_close := (rc_close r)(0 := C_At 1 reason)\<rparr>)"
proof -
  have "close_upto p i reason 1 (rc_conn r) = signalConnReady p (mark_closed p (rc_conn r))"
    by (simp add: close_upto_def close_stage_def)
  with closes_upto [OF assms, of 1 i] show ?thesis by (simp add: close_stages_def)
qed

text \<open>
  C25: A client can end the whole server. While the dial of a stream is under way it sends a
  CLOSE and a DATA packet for the stream. The read loop handles the DATA packet and finds
  the stream open; the goroutine of the CLOSE marks it closed and signals its waiters; the
  read loop takes the signal for the end of the dial and writes to the connection, which is
  nil: the goroutine panics, and with it the process ends. (Whatever the packet contains,
  in every reachable state with such a stream; the same happens when the dial fails at this
  moment.)
\<close>

theorem nil_conn_panics:
  assumes "reachable bcrypt (newConnection cfg g dns v2 ip n nc) c"
    and "wc_streams c i = Some p" and "ws_conn (stream_at p c) = None"
    and "CloseTask p reason \<in> set (wc_tasks c)"
  shows "\<exists>s. (data_step p i payload b)\<^sup>*\<^sup>* (data_start [reason] (end_task (CloseTask p reason) c)) s
    \<and> dr_pc s = D_Panic"
proof -
  let ?c = "end_task (CloseTask p reason) c"
  have inv: "conn_inv None c" by (rule reachable_inv [OF assms(1)])
  then have p: "p < length (wc_heap c)" "ws_isOpen (stream_at p c)"
    using assms(2) by (auto simp: conn_inv_def registry_ok_def)
  have "stream_ok (stream_at p c)" using conn_invD(6) [OF inv] p(1) by simp
  then have idle: "\<not> ws_ingressActive (stream_at p c)" using assms(3) by (auto simp: stream_ok_def)
  have heap: "wc_heap ?c = wc_heap c" "wc_streams ?c = wc_streams c" "wc_streamCache ?c = wc_streamCache c"
    by (simp_all add: end_task_def)
  obtain found c1 where l: "lookup_stream i ?c = (found, c1)" by fastforce
  have "lookup_stream i c = (found, snd (lookup_stream i c))"
    using l heap by (auto simp: lookup_stream_def split: prod.splits option.splits if_splits)
  from lookup_stream_inv(3) [OF inv this] have f: "found = Some p"
    using assms(2) by simp
  have c1: "wc_heap c1 = wc_heap c"
    using l heap by (auto simp: lookup_stream_def split: prod.splits option.splits if_splits)
  let ?r = "(race_start [reason] ?c)\<lparr>rc_conn := c1, rc_lookup := L_Found p\<rparr>"
  let ?r' = "?r\<lparr>rc_conn := signalConnReady p (mark_closed p c1), rc_close := (rc_close ?r)(0 := C_At 1 reason)\<rparr>"
  let ?s = "\<lambda>r pc. \<lparr>dr_race = r, dr_pc = pc\<rparr>"
  let ?step = "data_step p i payload b"
  have "(race_step p i)\<^sup>*\<^sup>* (race_start [reason] ?c) ?r"
    using lookup_alone [of "race_start [reason] ?c" i found c1 p] l f
    by (simp add: race_start_def looked_up_def)
  then have 1: "?step\<^sup>*\<^sup>* (data_start [reason] ?c) (?s ?r D_Start)"
    unfolding data_start_def by (rule data_race_run)
  have 2: "?step (?s ?r D_Start) (?s ?r (D_Open p))"
    using ds_open [of "?s ?r D_Start" p] p c1 by simp
  have "(race_step p i)\<^sup>*\<^sup>* ?r ?r'"
    using close_signals [of ?r reason p i] p c1 by (simp add: race_start_def)
  then have 3: "?step\<^sup>*\<^sup>* (?s ?r (D_Open p)) (?s ?r' (D_Open p))"
    by (rule data_race_run)
  have st: "ws_connReadyDone (stream_at p (rc_conn ?r'))" "ws_conn (stream_at p (rc_conn ?r')) = None"
    "\<not> queued_ingress p (rc_conn ?r')"
    using p(1) c1 assms(3) idle
    by (simp_all add: signalConnReady_def mark_closed_def upd_stream_def queued_ingress_def)
  have 4: "?step (?s ?r' (D_Open p)) (?s ?r' (D_Route p))"
    using ds_ready [of "?s ?r' (D_Open p)" p] st by simp
  have 5: "?step (?s ?r' (D_Route p)) (?s ?r' (D_Write p))"
    using ds_direct [of "?s ?r' (D_Route p)" p] st by simp
  have 6: "?step (?s ?r' (D_Write p)) (?s ?r' D_Panic)"
    using ds_panic [of "?s ?r' (D_Write p)" p] st by simp
  from rtranclp_trans [OF rtranclp.rtrancl_into_rtrancl [OF 1 2] 3] 4 5 6
  have "?step\<^sup>*\<^sup>* (data_start [reason] ?c) (?s ?r' D_Panic)"
    by (meson rtranclp.rtrancl_into_rtrancl)
  then show ?thesis by (intro exI [of _ "?s ?r' D_Panic"]) simp
qed

text \<open>The client of the example sends a CLOSE while its stream is being dialled, and then data.\<close>

definition example_closing :: wispConnection where
  "example_closing = snd (dispatch_frame (\<lambda>_ _. False) 0 2
     (wispPacket packetTypeClose 5 [closeReasonVoluntary]) 1 example_dialing)"

lemma example_closing_shape:
  "reachable (\<lambda>_ _. False) example_conn example_closing"
  "wc_streams example_closing 5 = Some 0" "ws_conn (stream_at 0 example_closing) = None"
  "CloseTask 0 closeReasonVoluntary \<in> set (wc_tasks example_closing)"
proof -
  show "reachable (\<lambda>_ _. False) example_conn example_closing"
    unfolding example_closing_def
    by (rule reach_step [OF example_dialing_reachable step_frame]) (rule prod.collapse [symmetric])
  have "\<not> handshake_pending example_dialing"
    unfolding example_dialing_eq example_open_eq
    by (simp add: end_task_def spawn_def put_ws_buf_def register_stream_def start_connection_def
        example_conn_def newConnection_def handshake_pending_def)
  then have e: "example_closing = put_ws_buf (Some 1) (spawn (CloseTask 0 closeReasonVoluntary) example_dialing)"
    by (simp add: example_closing_def dispatch_frame_def handleWispFrame_def Let_def wispPacket_parts
        handlePacket_def handleClosePacket_def example_dialing_shape) (simp add: packet_type_defs)
  show "wc_streams example_closing 5 = Some 0" "ws_conn (stream_at 0 example_closing) = None"
    "CloseTask 0 closeReasonVoluntary \<in> set (wc_tasks example_closing)"
    unfolding e by (simp_all add: put_ws_buf_def spawn_def example_dialing_shape newStream_def)
qed

theorem nil_conn_panics_witness:
  "\<exists>s. (data_step 0 5 [1, 2] 2)\<^sup>*\<^sup>*
      (data_start [closeReasonVoluntary] (end_task (CloseTask 0 closeReasonVoluntary) example_closing)) s
    \<and> dr_pc s = D_Panic"
  by (rule nil_conn_panics [OF example_closing_shape(1) [unfolded example_conn_def] example_closing_shape(2-4)])

end
