(* ===== verification/Buffer_Race.thy ===== *)
theory Buffer_Race
  imports Data_Race Conn_Hazards
begin

text \<open>
  Who returns the payload buffer of a DATA packet when the stream is closed meanwhile: the
  statements of the handler (\<open>Data_Race\<close>) in all interleavings with any number of closings.
\<close>

section \<open>What the closings keep\<close>

text \<open>The queue of the stream is at rest, and the id leads to this stream or nowhere.\<close>

definition settled :: "nat \<Rightarrow> wispConnection \<Rightarrow> bool" where
  "settled p c = (p < length (wc_heap c) \<and> ws_pendingIngress (stream_at p c) = []
     \<and> \<not> ws_ingressWriting (stream_at p c)
     \<and> (ws_ingressActive (stream_at p c) \<longrightarrow> ws_conn (stream_at p c) \<noteq> None))"

definition leads_to :: "nat \<Rightarrow> u32 \<Rightarrow> wispConnection \<Rightarrow> bool" where
  "leads_to p i c = (wc_streams c i \<in> {None, Some p} \<and> cached i c \<in> {None, Some p})"

definition race_buf :: "nat \<Rightarrow> u32 \<Rightarrow> nat list \<Rightarrow> race \<Rightarrow> bool" where
  "race_buf p i pool r \<longleftrightarrow> settled p (rc_conn r) \<and> leads_to p i (rc_conn r) \<and> wc_wsPool (rc_conn r) = pool
     \<and> (\<forall>k n reason. rc_close r k = C_At n reason \<longrightarrow> \<not> ws_isOpen (stream_at p (rc_conn r)))
     \<and> rc_lookup r \<in> {L_Start, L_Miss, L_None, L_Loaded p, L_Found p}"

lemma cached_update:
  "cached i (c\<lparr>wc_streamCache := (wc_streamCache c)[k := (j, x)]\<rparr>)
     = (if k = cache_slot i \<and> k < length (wc_streamCache c) then (if j = i then x else None) else cached i c)"
  by (cases "k < length (wc_streamCache c)") (auto simp: cached_def list_update_beyond)

lemma leads_to_frame [simp]:
  "leads_to p i (upd_stream q f c) = leads_to p i c" "leads_to p i (c\<lparr>wc_streamCount := n\<rparr>) = leads_to p i c"
  "leads_to p i (on_wire h c) = leads_to p i c" "leads_to p i (c\<lparr>wc_wsPool := bs\<rparr>) = leads_to p i c"
  by (simp_all add: leads_to_def cached_def upd_stream_def on_wire_def)

lemma leads_to_delete:
  assumes "leads_to p i c"
  shows "leads_to p i (delete_registry j c)" "leads_to p i (delete_cached j c)"
    "leads_to p i (deleteWispStream j c)"
proof -
  have r: "leads_to p i (delete_registry j d)" if "leads_to p i d" for d
    using that by (auto simp: leads_to_def delete_registry_def cached_def)
  have c: "leads_to p i (delete_cached j d)" if "leads_to p i d" for d
    using that by (auto simp: leads_to_def delete_cached_def cached_update)
  show "leads_to p i (delete_registry j c)" "leads_to p i (delete_cached j c)"
    by (rule r [OF assms], rule c [OF assms])
  have "leads_to p i (delete_count (delete_cached j (delete_registry j c)))"
    using c [OF r [OF assms]] by (simp add: delete_count_def)
  then show "leads_to p i (deleteWispStream j c)" by (simp add: delete_parts)
qed

lemma leads_to_fill: "leads_to p i c \<Longrightarrow> leads_to p i (fill_cache i p c)"
  by (auto simp: leads_to_def fill_cache_def cached_update)

lemma settled_drain:
  assumes "settled p c"
  shows "stream_drain p c = upd_stream p (\<lambda>s. s\<lparr>ws_ingressActive := False\<rparr>) c"
proof (cases "ws_ingressActive (stream_at p c)")
  case True
  have "(stream_at p c)\<lparr>ws_ingressActive := False, ws_pendingIngress := []\<rparr>
      = (stream_at p c)\<lparr>ws_ingressActive := False\<rparr>"
    using assms by (cases "stream_at p c") (simp add: settled_def)
  then have "upd_stream p (\<lambda>s. s\<lparr>ws_ingressActive := False, ws_pendingIngress := []\<rparr>) c
      = upd_stream p (\<lambda>s. s\<lparr>ws_ingressActive := False\<rparr>) c"
    by (simp only: upd_stream_def)
  with True assms show ?thesis by (simp add: stream_drain_def settled_def)
next
  case False
  have "(stream_at p c)\<lparr>ws_ingressActive := False\<rparr> = stream_at p c"
    using False by (cases "stream_at p c") simp
  then have "upd_stream p (\<lambda>s. s\<lparr>ws_ingressActive := False\<rparr>) c = c"
    by (simp only: upd_stream_def list_update_id) simp
  with False show ?thesis by (simp add: stream_drain_def)
qed

lemma stage_keeps:
  assumes "n < close_stages" and c: "settled p c" "leads_to p i c"
  shows "settled p (close_stage p j r n c) \<and> leads_to p i (close_stage p j r n c)
    \<and> wc_wsPool (close_stage p j r n c) = wc_wsPool c"
  using assms(1)
proof (cases rule: stage_cases)
  case 1
  then show ?thesis using c by (simp add: close_stage_def settled_def signalConnReady_def)
next
  case 2
  then show ?thesis using c leads_to_delete(1) [OF c(2), of j]
    by (simp add: close_stage_def) (simp add: settled_def delete_registry_def)
next
  case 3
  then show ?thesis using c leads_to_delete(2) [OF c(2), of j]
    by (simp add: close_stage_def) (simp add: settled_def delete_cached_def)
next
  case 4
  then show ?thesis using c by (simp add: close_stage_def settled_def delete_count_def)
next
  case 5
  then show ?thesis using c by (simp add: close_stage_def settled_def stream_close_conn_def)
next
  case 6
  then show ?thesis using c settled_drain [OF c(1)]
    by (simp add: close_stage_def) (simp add: settled_def)
next
  case 7
  then show ?thesis using c by (simp add: close_stage_def) (simp add: settled_def on_wire_def)
qed

lemma mark_keeps:
  assumes "settled p c"
  shows "settled p (mark_closed p c)" "leads_to p i (mark_closed p c) = leads_to p i c"
    "wc_wsPool (mark_closed p c) = wc_wsPool c" "\<not> ws_isOpen (stream_at p (mark_closed p c))"
  using assms by (simp_all add: settled_def mark_closed_def)

lemma race_buf_step:
  assumes "race_step p i r r'" and "race_buf p i pool r"
  shows "race_buf p i pool r'"
  using assms
proof (induction rule: race_step.induct)
  case (close_wins s k reason)
  then show ?case using mark_keeps [of p "rc_conn s"] by (auto simp: race_buf_def)
next
  case (close_next s k n reason)
  have p: "p < length (wc_heap (rc_conn s))" using close_next by (simp add: race_buf_def settled_def)
  show ?case
    using close_next stage_keeps [OF close_next(2), of p "rc_conn s" i i reason]
      stage_stream [OF close_next(2) p, of i reason] by (auto simp: race_buf_def split: if_splits)
next
  case (look_fill s q)
  then have q: "q = p" by (simp add: race_buf_def)
  show ?case
    using look_fill leads_to_fill [of p i "rc_conn s"] unfolding q
    by (auto simp: race_buf_def) (auto simp: settled_def fill_cache_def)
qed (auto simp: race_buf_def leads_to_def split: if_splits)

text \<open>A closed stream stays closed, and an active queue is switched off only behind a close.\<close>

definition queue_state :: "nat \<Rightarrow> wispConnection \<Rightarrow> bool" where
  "queue_state p c = (ws_ingressActive (stream_at p c) \<or> \<not> ws_isOpen (stream_at p c))"

lemma race_closed_step:
  assumes "race_step p i r r'" and b: "race_buf p i pool r"
  shows "\<not> ws_isOpen (stream_at p (rc_conn r)) \<Longrightarrow> \<not> ws_isOpen (stream_at p (rc_conn r'))"
    and "queue_state p (rc_conn r) \<Longrightarrow> queue_state p (rc_conn r')"
proof -
  have p: "p < length (wc_heap (rc_conn r))" using b by (simp add: race_buf_def settled_def)
  have fill: "wc_heap (fill_cache i q c) = wc_heap c" for q c by (simp add: fill_cache_def)
  have "(\<not> ws_isOpen (stream_at p (rc_conn r)) \<longrightarrow> \<not> ws_isOpen (stream_at p (rc_conn r')))
      \<and> (queue_state p (rc_conn r) \<longrightarrow> queue_state p (rc_conn r'))"
    using assms
  proof (induction rule: race_step.induct)
    case (close_wins s k reason)
    then have "settled p (rc_conn s)" by (simp add: race_buf_def)
    from mark_keeps(4) [OF this] show ?case by (simp add: queue_state_def)
  next
    case (close_next s k n reason)
    have p: "p < length (wc_heap (rc_conn s))" using close_next by (simp add: race_buf_def settled_def)
    have "\<not> ws_isOpen (stream_at p (rc_conn s))" using close_next by (auto simp: race_buf_def)
    with stage_stream [OF close_next(2) p, of i reason] show ?case by (simp add: queue_state_def)
  qed (simp_all add: queue_state_def fill)
  then show "\<not> ws_isOpen (stream_at p (rc_conn r)) \<Longrightarrow> \<not> ws_isOpen (stream_at p (rc_conn r'))"
    and "queue_state p (rc_conn r) \<Longrightarrow> queue_state p (rc_conn r')" by blast+
qed

section \<open>What the handler does with the buffer\<close>

lemma settled_close:
  assumes "settled p c" and "leads_to p i c"
  shows "settled p (stream_close p r c) \<and> leads_to p i (stream_close p r c)
    \<and> wc_wsPool (stream_close p r c) = wc_wsPool c \<and> \<not> ws_isOpen (stream_at p (stream_close p r c))"
proof (cases "ws_isOpen (stream_at p c)")
  case True
  let ?j = "ws_streamId (stream_at p c)"
  have p: "p < length (wc_heap c)" using assms(1) by (simp add: settled_def)
  have s: "settled p (close_upto p ?j r n c) \<and> wc_wsPool (close_upto p ?j r n c) = wc_wsPool c
      \<and> leads_to p i (close_upto p ?j r n c)" if "n \<le> close_stages" for n
    using that
  proof (induction n)
    case 0
    show ?case using mark_keeps [OF assms(1)] assms(2) by simp
  next
    case (Suc n)
    then have n: "n < close_stages" by simp
    from Suc have IH: "settled p (close_upto p ?j r n c)" "wc_wsPool (close_upto p ?j r n c) = wc_wsPool c"
      "leads_to p i (close_upto p ?j r n c)" by auto
    from stage_keeps [OF n IH(1,3), of ?j r] IH(2) show ?case by simp
  qed
  have "close_upto p ?j r close_stages c = stream_close p r c"
    by (rule close_upto_all [OF True refl])
  with s [of close_stages] stream_close_fields(10) [OF p] show ?thesis by simp
next
  case False
  with assms show ?thesis by simp
qed

text \<open>The operations of the handler keep the queue at rest and open nothing.\<close>

definition kept :: "nat \<Rightarrow> u32 \<Rightarrow> wispConnection \<Rightarrow> wispConnection \<Rightarrow> bool" where
  "kept p i c d = (settled p d \<and> leads_to p i d
     \<and> (\<not> ws_isOpen (stream_at p c) \<longrightarrow> \<not> ws_isOpen (stream_at p d)))"

lemma kept_same:
  "settled p c \<Longrightarrow> leads_to p i c \<Longrightarrow> wc_heap d = wc_heap c \<Longrightarrow> wc_streams d = wc_streams c
     \<Longrightarrow> wc_streamCache d = wc_streamCache c \<Longrightarrow> kept p i c d"
  by (auto simp: kept_def settled_def leads_to_def cached_def split: if_splits)

lemma kept_close: "settled p c \<Longrightarrow> leads_to p i c \<Longrightarrow> kept p i c (stream_close p r c)"
  using settled_close by (simp add: kept_def)

lemma kept_trans: "kept p i c d \<Longrightarrow> kept p i d e \<Longrightarrow> kept p i c e"
  by (auto simp: kept_def)

lemma kept_use_credit: "settled p c \<Longrightarrow> leads_to p i c \<Longrightarrow> kept p i c (use_credit j p c)"
  by (simp add: use_credit_def kept_def) (simp add: settled_def on_wire_def)

lemma kept_buffer_data:
  assumes "settled p c" and "leads_to p i c"
  shows "kept p i c (buffer_data p d c)" "wc_wsPool (buffer_data p d c) = wc_wsPool c"
proof -
  show "kept p i c (buffer_data p d c)"
    using assms kept_close [OF assms] by (simp add: buffer_data_def) (simp add: kept_def settled_def)
  show "wc_wsPool (buffer_data p d c) = wc_wsPool c"
    using settled_close [OF assms] by (simp add: buffer_data_def)
qed

lemma kept_twisp_data:
  assumes "settled p c" and "leads_to p i c"
  shows "kept p i c (twisp_data j d c)"
proof -
  have "wc_heap (twisp_data j d c) = wc_heap c \<and> wc_streams (twisp_data j d c) = wc_streams c
      \<and> wc_streamCache (twisp_data j d c) = wc_streamCache c"
    by (auto simp: twisp_data_def twisp_close_def twisp_remove_def upd_twisp_def writePty_def on_wire_def
        split: option.splits prod.splits)
  then show ?thesis using kept_same [OF assms] by blast
qed

lemma kept_write:
  fixes k' :: go_conn
  assumes "settled p c" and "leads_to p i c" and "ws_conn (stream_at p c) = Some k"
  defines "d \<equiv> upd_stream p (\<lambda>s. s\<lparr>ws_conn := Some k'\<rparr>) c"
  shows "kept p i c d" "settled p d" "leads_to p i d" "wc_wsPool d = wc_wsPool c"
  using assms by (simp_all add: d_def kept_def settled_def)

lemma kept_direct:
  assumes "settled p c" and "leads_to p i c" and "ws_conn (stream_at p c) \<noteq> None"
  shows "kept p i c (deliver_direct j p d c)" "wc_wsPool (deliver_direct j p d c) = wc_wsPool c"
proof -
  obtain k where k: "ws_conn (stream_at p c) = Some k" using assms(3) by auto
  let ?c = "upd_stream p (\<lambda>s. s\<lparr>ws_conn := Some (snd (nc_Write d k))\<rparr>) c"
  note w = kept_write [OF assms(1,2) k, of "snd (nc_Write d k)"]
  have "deliver_direct j p d c = (if \<not> fst (nc_Write d k) then stream_close p closeReasonNetworkError ?c
      else if ws_streamType (stream_at p ?c) = streamTypeTCP then use_credit j p ?c else ?c)"
    by (simp add: deliver_direct_def stream_write_parts [OF k])
  then show "kept p i c (deliver_direct j p d c)" "wc_wsPool (deliver_direct j p d c) = wc_wsPool c"
    using w kept_trans [OF w(1) kept_close [OF w(2,3)]] kept_trans [OF w(1) kept_use_credit [OF w(2,3)]]
      settled_close [OF w(2,3)] by simp_all
qed

text \<open>
  \<open>submitIngress\<close> takes the buffer and its writer returns it; behind a close it returns it and
  reports that it has not taken it.
\<close>

lemma kept_submit:
  assumes "settled p c" and "leads_to p i c" and q: "queue_state p c"
    and r: "submit_data j p payload b c = (ok, d)"
  shows "kept p i c d" "wc_wsPool d = wc_wsPool c @ [b]" "ok \<or> \<not> ws_isOpen (stream_at p d)"
proof -
  let ?j = "\<lparr>ij_payload = payload, ij_bufp = Some b, ij_pool = ingressPoolWS\<rparr>"
  have job: "releaseIngressJob ?j e = e\<lparr>wc_wsPool := wc_wsPool e @ [b]\<rparr>" for e
    by (simp add: releaseIngressJob_def)
  have "kept p i c d \<and> wc_wsPool d = wc_wsPool c @ [b] \<and> (ok \<or> \<not> ws_isOpen (stream_at p d))"
  proof (cases "takes_ingress p c")
    case False
    then have "ok = False" "d = c\<lparr>wc_wsPool := wc_wsPool c @ [b]\<rparr>" "\<not> ws_isOpen (stream_at p c)"
      using r q by (auto simp: submit_data_def submitIngress_def takes_ingress_def queue_state_def job)
    with assms(1,2) show ?thesis by (simp add: kept_same)
  next
    case True
    then obtain k where k: "ws_conn (stream_at p c) = Some k"
      using assms(1) by (auto simp: takes_ingress_def settled_def)
    have p: "p < length (wc_heap c)" using assms(1) by (simp add: settled_def)
    have "stream_ok (stream_at p c)" "ws_isOpen (stream_at p c)" "ws_ingressActive (stream_at p c)"
      using assms(1) True k by (auto simp: stream_ok_def settled_def takes_ingress_def)
    note res = queueIngressOwned_result [OF p this k, of payload b]
    let ?u = "upd_stream p (\<lambda>s. s\<lparr>ws_conn := Some (snd (nc_Write payload k))\<rparr>) c"
    let ?c1 = "?u\<lparr>wc_wsPool := wc_wsPool c @ [b]\<rparr>"
    let ?c2 = "if fst (nc_Write payload k) then ?c1 else stream_close p closeReasonNetworkError ?c1"
    note w = kept_write [OF assms(1,2) k, of "snd (nc_Write payload k)"]
    have "submitIngress p ?j c = (True, ?c2)"
      using res True by (simp add: queueIngressOwned_def takes_ingress_def job)
    then have d: "ok" "d = use_credit j p ?c2"
      using r by (simp_all add: submit_data_def)
    have 1: "settled p ?c1" "leads_to p i ?c1" "kept p i c ?c1"
      using w by (simp_all add: settled_def kept_def)
    have 2: "kept p i c ?c2" "wc_wsPool ?c2 = wc_wsPool c @ [b]"
      using 1 kept_trans [OF 1(3) kept_close [OF 1(1,2)]] settled_close [OF 1(1,2)] by simp_all
    then have "settled p ?c2" "leads_to p i ?c2" by (simp_all only: kept_def)
    from kept_trans [OF 2(1) kept_use_credit [OF this]] d 2(2) show ?thesis by simp
  qed
  then show "kept p i c d" "wc_wsPool d = wc_wsPool c @ [b]" "ok \<or> \<not> ws_isOpen (stream_at p d)" by blast+
qed

section \<open>Once, or twice behind a close\<close>

definition returned :: "nat list \<Rightarrow> nat \<Rightarrow> nat \<Rightarrow> bool \<Rightarrow> wispConnection \<Rightarrow> bool" where
  "returned pool b p keep c =
     (if keep then wc_wsPool c = pool @ [b]
      else wc_wsPool c = pool \<or> wc_wsPool c = pool @ [b] \<and> \<not> ws_isOpen (stream_at p c))"

definition data_buf :: "nat \<Rightarrow> u32 \<Rightarrow> nat list \<Rightarrow> nat \<Rightarrow> data_race \<Rightarrow> bool" where
  "data_buf p i pool b s \<longleftrightarrow> race_buf p i (wc_wsPool (dr_conn s)) (dr_race s)
     \<and> (case dr_pc s of
          D_Start \<Rightarrow> wc_wsPool (dr_conn s) = pool
        | D_Open q \<Rightarrow> q = p \<and> wc_wsPool (dr_conn s) = pool
        | D_Lock q \<Rightarrow> q = p \<and> wc_wsPool (dr_conn s) = pool
        | D_Route q \<Rightarrow> q = p \<and> wc_wsPool (dr_conn s) = pool
        | D_Write q \<Rightarrow> q = p \<and> wc_wsPool (dr_conn s) = pool
        | D_Queue q \<Rightarrow> q = p \<and> wc_wsPool (dr_conn s) = pool \<and> queue_state p (dr_conn s)
        | D_Submit q \<Rightarrow> q = p \<and> wc_wsPool (dr_conn s) = pool \<and> queue_state p (dr_conn s)
        | D_Done keep \<Rightarrow> returned pool b p keep (dr_conn s)
        | D_Panic \<Rightarrow> True)"

lemma data_buf_goto:
  assumes "data_buf p i pool b s" and "kept p i (dr_conn s) c"
    and "returned pool b p keep c"
  shows "data_buf p i pool b (dr_goto c (D_Done keep) s)"
  using assms by (auto simp: data_buf_def race_buf_def dr_goto_def kept_def)

lemma data_bufD:
  assumes "data_buf p i pool b s"
  shows "settled p (dr_conn s)" "leads_to p i (dr_conn s)"
  using assms by (simp_all add: data_buf_def race_buf_def)

lemma data_buf_race:
  assumes "data_buf p i pool b s" and "race_step p i (dr_race s) r"
  shows "data_buf p i pool b (s\<lparr>dr_race := r\<rparr>)"
proof -
  have b: "race_buf p i (wc_wsPool (dr_conn s)) (dr_race s)" using assms(1) by (simp add: data_buf_def)
  note r = race_buf_step [OF assms(2) b]
  then have pool: "wc_wsPool (rc_conn r) = wc_wsPool (dr_conn s)" by (simp add: race_buf_def)
  from assms(1) r race_closed_step [OF assms(2) b] show ?thesis
    by (auto simp: data_buf_def pool returned_def split: data_pc.splits if_splits)
qed

lemma data_buf_step:
  assumes "data_step p i payload b s t" and "data_buf p i pool b s"
  shows "data_buf p i pool b t"
  using assms
proof (induction rule: data_step.induct)
  case (ds_race s r)
  then show ?case by (blast intro: data_buf_race)
next
  case (ds_terminal s)
  note D = data_bufD [OF ds_terminal(3)]
  have "returned pool b p False (twisp_data i payload (dr_conn s))"
    using ds_terminal by (simp add: data_buf_def returned_def)
  then show ?case by (rule data_buf_goto [OF ds_terminal(3) kept_twisp_data [OF D]])
next
  case (ds_open s q)
  then show ?case by (simp add: data_buf_def race_buf_def)
next
  case (ds_closed s q)
  then show ?case by (simp add: data_buf_def race_buf_def returned_def)
next
  case (ds_keep s q)
  then have q: "q = p" "wc_wsPool (dr_conn s) = pool" by (simp_all add: data_buf_def)
  note k = kept_buffer_data [OF data_bufD [OF ds_keep(3)], of payload]
  show ?case unfolding q(1)
    by (rule data_buf_goto [OF ds_keep(3) k(1)]) (simp add: returned_def k(2) q(2))
next
  case (ds_queue s q)
  then show ?case by (auto simp: data_buf_def queue_state_def queued_ingress_def)
next
  case (ds_dropped s q)
  then have q: "q = p" "wc_wsPool (dr_conn s) = pool" "queue_state p (dr_conn s)" by (simp_all add: data_buf_def)
  have closed: "\<not> ws_isOpen (stream_at p (dr_conn s))"
    using ds_dropped(2) q by (auto simp: takes_ingress_def queue_state_def)
  have "kept p i (dr_conn s) (put_ws_buf (Some b) (dr_conn s))"
    by (rule kept_same [OF data_bufD [OF ds_dropped(3)]]) (simp_all add: put_ws_buf_def)
  with ds_dropped(3) show ?case
    by (rule data_buf_goto) (simp add: returned_def put_ws_buf_def q closed)
next
  case (ds_submit s q ok c1)
  then have q: "q = p" "wc_wsPool (dr_conn s) = pool" "queue_state p (dr_conn s)" by (simp_all add: data_buf_def)
  note k = kept_submit [OF data_bufD [OF ds_submit(3)] q(3) ds_submit(2) [unfolded q(1)]]
  show ?case
    by (rule data_buf_goto [OF ds_submit(3) k(1)]) (use k(2,3) q(2) in \<open>auto simp: returned_def\<close>)
next
  case (ds_write s q)
  then have q: "q = p" "wc_wsPool (dr_conn s) = pool" by (simp_all add: data_buf_def)
  note k = kept_direct [OF data_bufD [OF ds_write(3)] ds_write(2) [unfolded q(1)], of i payload]
  show ?case unfolding q(1)
    by (rule data_buf_goto [OF ds_write(3) k(1)]) (simp add: returned_def k(2) q(2))
qed (auto simp: data_buf_def)

interpretation buffers: step_invariant "data_step p i payload b" "data_buf p i pool b" for p i payload b pool
  by unfold_locales (rule data_buf_step)

lemma data_buf_start:
  assumes "conn_inv None c" and "wc_streams c i = Some p"
  shows "data_buf p i (wc_wsPool c) b (data_start rs c)"
proof -
  have p: "p < length (wc_heap c)" using conn_invD(1) [OF assms(1)] assms(2) by (auto simp: registry_ok_def)
  then have "stream_ok (stream_at p c)" using conn_invD(6) [OF assms(1)] by simp
  with p have "settled p c" by (auto simp: stream_ok_def settled_def)
  moreover have "leads_to p i c"
  proof -
    obtain j x where slot: "wc_streamCache c ! cache_slot i = (j, x)" by fastforce
    then have "j = i \<Longrightarrow> x \<noteq> None \<Longrightarrow> wc_streams c i = x"
      using conn_invD(2) [OF assms(1)] cache_slot_less [of i] by (auto simp: cache_ok_def)
    with slot assms(2) show ?thesis by (cases x) (auto simp: leads_to_def cached_def)
  qed
  ultimately show ?thesis
    by (simp add: data_buf_def race_buf_def data_start_def race_start_def)
qed

text \<open>
  C18: The payload buffer of a frame goes back to its pool exactly once, whatever the frame
  holds, if no close comes in between: when the handler passes it on to the writer of a
  stream, the writer returns it and the read loop does not; otherwise the read loop does.
  In all interleavings of the handler of a DATA packet with any number of closings it goes
  back once, or - only if the stream has been closed - twice in a row, once by the queue and
  once by the read loop; it is never lost.
\<close>

theorem frame_buffer_returned_once:
  assumes "reachable bcrypt (newConnection cfg g dns v2 ip n nc) c"
  shows "wc_wsPool (snd (dispatch_frame bcrypt now opcode payload b c)) = wc_wsPool c @ [b]
    \<and> (\<forall>s p i rs d keep. wc_streams c i = Some p \<longrightarrow>
        (data_step p i d b)\<^sup>*\<^sup>* (data_start rs c) s \<longrightarrow> dr_pc s = D_Done keep \<longrightarrow>
        wc_wsPool (if keep then dr_conn s else put_ws_buf (Some b) (dr_conn s))
          \<in> {wc_wsPool c @ [b]} \<union> (if ws_isOpen (stream_at p (dr_conn s)) then {} else {wc_wsPool c @ [b, b]}))"
proof (intro conjI allI impI)
  show "wc_wsPool (snd (dispatch_frame bcrypt now opcode payload b c)) = wc_wsPool c @ [b]"
    by (rule frame_buffer_atomic [OF assms prod.collapse [symmetric]])
next
  fix s p i rs d keep
  assume s: "wc_streams c i = Some p" "(data_step p i d b)\<^sup>*\<^sup>* (data_start rs c) s" "dr_pc s = D_Done keep"
  have "data_buf p i (wc_wsPool c) b s"
    by (rule buffers.runs [OF s(2) data_buf_start [OF reachable_inv [OF assms] s(1)]])
  with s(3) have "returned (wc_wsPool c) b p keep (dr_conn s)" by (simp add: data_buf_def)
  then show "wc_wsPool (if keep then dr_conn s else put_ws_buf (Some b) (dr_conn s))
      \<in> {wc_wsPool c @ [b]} \<union> (if ws_isOpen (stream_at p (dr_conn s)) then {} else {wc_wsPool c @ [b, b]})"
    by (auto simp: returned_def put_ws_buf_def split: if_splits)
qed

theorem frame_buffer_returned_once_witness:
  "wc_wsPool (snd (dispatch_frame (\<lambda>_ _. False) 0 2 (wispPacket packetTypeData 5 [1, 2]) 9 example_dialing))
    = wc_wsPool example_dialing @ [9]"
  by (rule frame_buffer_returned_once [OF example_dialing_reachable [unfolded example_conn_def], THEN conjunct1])

text \<open>
  Twice does happen: the stream is found with its queue active (wisp-connection.go:279), the
  first statement of a close comes in, and the queue refuses the packet (wisp-stream.go:375).
\<close>

theorem buffer_returned_twice:
  assumes "reachable bcrypt (newConnection cfg g dns v2 ip n nc) c" and "wc_streams c i = Some p"
    and "ws_connReadyDone (stream_at p c)" and "queued_ingress p c"
  shows "\<exists>s. (data_step p i payload b)\<^sup>*\<^sup>* (data_start [reason] c) s \<and> dr_pc s = D_Done False
    \<and> wc_wsPool (put_ws_buf (Some b) (dr_conn s)) = wc_wsPool c @ [b, b]"
proof -
  have inv: "conn_inv None c" by (rule reachable_inv [OF assms(1)])
  then have p: "p < length (wc_heap c)" "ws_isOpen (stream_at p c)"
    using assms(2) by (auto simp: conn_inv_def registry_ok_def)
  obtain found c1 where l: "lookup_stream i c = (found, c1)" by fastforce
  note c1 = lookup_stream_inv(2,3) [OF inv l]
  have pool: "wc_wsPool c1 = wc_wsPool c" using pool_parts(4) [of i c] l by simp
  let ?r = "(race_start [reason] c)\<lparr>rc_conn := c1, rc_lookup := L_Found p\<rparr>"
  let ?r' = "?r\<lparr>rc_conn := mark_closed p c1, rc_close := (rc_close ?r)(0 := C_At 0 reason)\<rparr>"
  let ?s = "\<lambda>r pc. \<lparr>dr_race = r, dr_pc = pc\<rparr>" and ?step = "data_step p i payload b"
  let ?t = "dr_goto (put_ws_buf (Some b) (mark_closed p c1)) (D_Done False) (?s ?r' (D_Queue p))"
  have "(race_step p i)\<^sup>*\<^sup>* (race_start [reason] c) ?r"
    using lookup_alone [of "race_start [reason] c" i found c1 p] l c1(2) assms(2)
    by (simp add: race_start_def looked_up_def)
  then have "?step\<^sup>*\<^sup>* (data_start [reason] c) (?s ?r D_Start)"
    unfolding data_start_def by (rule data_race_run)
  moreover have "?step (?s ?r D_Start) (?s ?r (D_Open p))"
    using ds_open [of "?s ?r D_Start" p] p c1(1) by simp
  moreover have "?step (?s ?r (D_Open p)) (?s ?r (D_Route p))"
    using ds_ready [of "?s ?r (D_Open p)" p] assms(3) c1(1) by simp
  moreover have "?step (?s ?r (D_Route p)) (?s ?r (D_Queue p))"
    using ds_queue [of "?s ?r (D_Route p)" p] assms(4) c1(1) by (simp add: queued_ingress_def)
  moreover have "?step (?s ?r (D_Queue p)) (?s ?r' (D_Queue p))"
  proof -
    have "race_step p i ?r ?r'"
      using close_wins [of ?r 0 reason p i] p c1(1) by (simp add: race_start_def)
    then show ?thesis using ds_race [of p i "?s ?r (D_Queue p)" ?r' payload b] by simp
  qed
  moreover have "?step (?s ?r' (D_Queue p)) ?t"
    using ds_dropped [of "?s ?r' (D_Queue p)" p] p c1(1) by (simp add: takes_ingress_def mark_closed_def)
  ultimately have "?step\<^sup>*\<^sup>* (data_start [reason] c) ?t"
    by (meson rtranclp.rtrancl_into_rtrancl)
  moreover have "wc_wsPool (put_ws_buf (Some b) (dr_conn ?t)) = wc_wsPool c @ [b, b]"
    using pool by (simp add: dr_goto_def put_ws_buf_def mark_closed_def)
  ultimately show ?thesis by (intro exI [of _ ?t]) (simp add: dr_goto_def)
qed

end
