(* ===== verification/Sock_Options.thy ===== *)
theory Sock_Options
  imports Stream_Connect
begin

text \<open>
  The options the server sets on its sockets: on the connection of a client
  (\<open>wisp/wisp.go\<close>), on the connection to a target (\<open>wisp/wisp-stream.go\<close>), and the
  acknowledgement mode of \<open>wisp/sockopt.go\<close> (Linux) and \<open>wisp/other.go\<close>.
\<close>

section \<open>Sockets\<close>

text \<open>
  The dynamic type of a \<open>net.Conn\<close>, whether its raw connection can be had, which requests
  the system refuses, and the settings made so far, the last one counting. No caller looks
  at the error of a refused request.
\<close>

datatype conn_kind = TCPConn | OtherConn

datatype sock_option = ReadBuffer int | WriteBuffer int | SetNoDelay bool | QuickAck int

record sock =
  so_kind :: conn_kind
  so_raw :: bool
  so_refuses :: "sock_option \<Rightarrow> bool"
  so_made :: "sock_option list"

definition set_option :: "sock_option \<Rightarrow> sock \<Rightarrow> sock" where
  "set_option opt s = (if so_refuses s opt then s else s\<lparr>so_made := so_made s @ [opt]\<rparr>)"

text \<open>\<open>sockopt.go\<close>, the Linux build, and \<open>other.go\<close>, all others; a build has one of the two.\<close>

definition setTCPLowLatency :: "sock \<Rightarrow> sock" where
  "setTCPLowLatency s =
     (case so_kind s of
        OtherConn \<Rightarrow> s
      | TCPConn \<Rightarrow> if \<not> so_raw s then s else set_option (QuickAck 1) s)"

definition rearmTCPQuickAck :: "sock \<Rightarrow> sock" where
  "rearmTCPQuickAck s =
     (case so_kind s of
        OtherConn \<Rightarrow> s
      | TCPConn \<Rightarrow> if \<not> so_raw s then s else set_option (QuickAck 1) s)"

definition setTCPLowLatency_other :: "sock \<Rightarrow> sock" where
  "setTCPLowLatency_other s = s"

definition rearmTCPQuickAck_other :: "sock \<Rightarrow> sock" where
  "rearmTCPQuickAck_other s = s"

definition low_latency :: "bool \<Rightarrow> sock \<Rightarrow> sock" where
  "low_latency linux = (if linux then setTCPLowLatency else setTCPLowLatency_other)"

definition sock_buffer :: int where
  "sock_buffer = 4 * 2 ^ 20"

definition accept_options :: "bool \<Rightarrow> sock \<Rightarrow> sock" where
  "accept_options linux s =
     low_latency linux
       (if so_kind s = TCPConn
        then set_option (SetNoDelay True) (set_option (WriteBuffer sock_buffer)
               (set_option (ReadBuffer sock_buffer) s))
        else s)"

definition stream_options :: "bool \<Rightarrow> Config \<Rightarrow> u8 \<Rightarrow> sock \<Rightarrow> sock" where
  "stream_options linux cfg streamType s =
     (if streamType = streamTypeTCP then
        low_latency linux
          (if so_kind s = TCPConn
           then set_option (WriteBuffer sock_buffer) (set_option (ReadBuffer sock_buffer)
                  (set_option (SetNoDelay (cfg_TcpNoDelay cfg)) s))
           else s)
      else s)"

text \<open>
  The place of the options in \<open>handleConnect\<close>: after the detector and the check of the
  error, before the confirmation to the client.
\<close>

definition dialed_options ::
    "bool \<Rightarrow> env \<Rightarrow> nat \<Rightarrow> u8 \<Rightarrow> string \<Rightarrow> bool \<Rightarrow> string + go_conn \<Rightarrow> wispConnection \<Rightarrow> sock \<Rightarrow> sock" where
  "dialed_options linux e p streamType resolved acquired outcome c0 s =
     (let c1 = release_syn acquired
            (upd_stream p (\<lambda>s. s\<lparr>ws_conn := (case outcome of Inl _ \<Rightarrow> None | Inr k \<Rightarrow> Some k)\<rparr>) c0)
      in if fst (record_dial (e_now e) streamType resolved (ws_portNum (stream_at p c0))
                  (\<not> isl outcome) c1) then s
         else (case outcome of Inl _ \<Rightarrow> s | Inr _ \<Rightarrow> stream_options linux (wc_config c0) streamType s))"

section \<open>What a socket ends up with\<close>

text \<open>A new socket of Go sends without delay; later settings override earlier ones.\<close>

definition no_delay :: "sock \<Rightarrow> bool" where
  "no_delay s = foldl (\<lambda>v opt. case opt of SetNoDelay b \<Rightarrow> b | _ \<Rightarrow> v) True (so_made s)"

definition fresh_sock :: "conn_kind \<Rightarrow> bool \<Rightarrow> (sock_option \<Rightarrow> bool) \<Rightarrow> sock" where
  "fresh_sock kind raw refuses = \<lparr>so_kind = kind, so_raw = raw, so_refuses = refuses, so_made = []\<rparr>"

lemma set_option_kind [simp]:
  "so_kind (set_option opt s) = so_kind s" "so_raw (set_option opt s) = so_raw s"
  "so_refuses (set_option opt s) = so_refuses s"
  by (simp_all add: set_option_def)

lemma set_option_no_delay [simp]:
  "no_delay (set_option (ReadBuffer n) s) = no_delay s"
  "no_delay (set_option (WriteBuffer n) s) = no_delay s"
  "no_delay (set_option (QuickAck k) s) = no_delay s"
  "no_delay (set_option (SetNoDelay b) s) = (if so_refuses s (SetNoDelay b) then no_delay s else b)"
  by (simp_all add: set_option_def no_delay_def)

lemma low_latency_no_delay [simp]: "no_delay (low_latency linux s) = no_delay s"
  by (simp add: low_latency_def setTCPLowLatency_def setTCPLowLatency_other_def split: conn_kind.splits)

text \<open>
  The sockets behave as configured: the connection of a client never delays small writes,
  the one of a TCP stream delays them exactly when \<open>tcpNoDelay\<close> is off and the system
  obeys, and a socket of another kind, or of a UDP stream, is not touched.
\<close>

theorem options_as_configured:
  "no_delay (accept_options linux (fresh_sock kind raw refuses))"
  "no_delay (stream_options linux cfg streamType (fresh_sock kind raw refuses))
     \<longleftrightarrow> cfg_TcpNoDelay cfg \<or> streamType \<noteq> streamTypeTCP \<or> kind = OtherConn
        \<or> refuses (SetNoDelay (cfg_TcpNoDelay cfg))"
  "accept_options linux (fresh_sock OtherConn raw refuses) = fresh_sock OtherConn raw refuses"
  "stream_options linux cfg streamTypeUDP s = s"
proof -
  have start: "no_delay (fresh_sock kind raw refuses)"
    by (simp add: no_delay_def fresh_sock_def)
  then show "no_delay (accept_options linux (fresh_sock kind raw refuses))"
    by (simp add: accept_options_def)
  show "no_delay (stream_options linux cfg streamType (fresh_sock kind raw refuses))
     \<longleftrightarrow> cfg_TcpNoDelay cfg \<or> streamType \<noteq> streamTypeTCP \<or> kind = OtherConn
        \<or> refuses (SetNoDelay (cfg_TcpNoDelay cfg))"
    using start by (cases kind) (simp_all add: stream_options_def, simp_all add: fresh_sock_def)
qed (simp_all add: accept_options_def low_latency_def setTCPLowLatency_def setTCPLowLatency_other_def fresh_sock_def stream_options_def
    streamTypeTCP_def streamTypeUDP_def)

text \<open>
  Only a socket whose stream goes on is configured: if any setting was made, the goroutine
  has taken over the data received so far and flushes it next.
\<close>

theorem options_only_when_flushing:
  assumes "dialed_options linux e p streamType resolved acquired outcome c s \<noteq> s"
  shows "\<exists>ds. FlushTask p ds \<in> set (wc_tasks (connect_dialed e p streamType resolved acquired outcome c))"
proof -
  let ?c1 = "release_syn acquired
    (upd_stream p (\<lambda>s. s\<lparr>ws_conn := (case outcome of Inl _ \<Rightarrow> None | Inr k \<Rightarrow> Some k)\<rparr>) c)"
  obtain m c2 where r: "record_dial (e_now e) streamType resolved (ws_portNum (stream_at p c))
      (\<not> isl outcome) ?c1 = (m, c2)" by fastforce
  with assms have "\<not> m" and "\<not> isl outcome"
    by (auto simp: dialed_options_def Let_def split: if_splits sum.splits)
  with r show ?thesis
    by (auto simp: connect_dialed_def Let_def spawn_def split: sum.splits)
qed

end
