(* ===== verification/Spec2Isabelle.thy ===== *)
theory Spec2Isabelle
  imports Main_Program Rep_Store Config_Load Conn_Hazards Batch_Writer Stream_Life Terminal_Relay Buffer_Race Sock_Options
begin

text \<open>
  A verification development of mrrowisp, a Wisp server in Go (\<open>src/main.go\<close>, \<open>src/wisp\<close>).

  \<^bold>\<open>The program.\<close> \<open>main\<close> loads a configuration, turns it into the request handler of
  \<open>CreateWispHandler\<close> and serves it. The handler admits a request if a connection slot is
  free, upgrades it to a WebSocket and starts the goroutine of a \<open>wispConnection\<close>: for a v2
  client the handshake with its INFO packet, then the read loop, which takes frames off the
  socket and hands Wisp packets to handlers. A CONNECT packet registers a stream and starts
  the goroutine of \<open>handleConnect\<close>, which checks the target (host and port filters, DNS cache,
  egress policy, rate limits, reputation), dials it and then copies what the target sends
  back to the client; DATA packets go the other way, through a queue of the stream. Frames
  for the client go through the batch writer of the connection. Terminals (Twisp) are
  streams whose target is a process. The limiters, the reputation store, the attack
  detectors and the DNS cache are shared by all connections.

  \<^bold>\<open>Theories and source.\<close>

  \<^item> \<open>Wisp_Prelude\<close>: byte codecs, list and word lemmas, the collections of hints.
  \<^item> \<open>Go_Strings\<close>, \<open>Go_Net\<close>, \<open>Go_Float\<close>: what the source uses of \<open>strings\<close>, \<open>strconv\<close>, \<open>net\<close> and of
    \<open>float64\<close> arithmetic, with addresses as byte lists.
  \<^item> \<open>Wisp_Config\<close>, \<open>Config_Load\<close> (\<open>config.go\<close>, \<open>constants.go\<close>): the records, the defaults, and
    \<open>LoadConfig\<close> member by member over a JSON value.
  \<^item> \<open>Egress\<close> (\<open>egress.go\<close>), \<open>Client_IP\<close> (\<open>clientip.go\<close>), \<open>Rate_Limits\<close> (\<open>limits.go\<close>), \<open>Reputation\<close>
    (\<open>reputation.go\<close>; \<open>Rep_Store\<close> for its file), \<open>Signature\<close> (\<open>signature.go\<close>), \<open>DNS_Cache\<close> (\<open>dnscache.go\<close>), \<open>Logger\<close>
    (\<open>logger.go\<close>): one theory each.
  \<^item> \<open>Ws_Frames\<close>, \<open>Frame_Reader\<close> (\<open>wsreader.go\<close>, frame building elsewhere): masking, the frames
    written and the buffered reader.
  \<^item> \<open>Conn_Wire\<close>, \<open>Batch_Writer\<close> (\<open>wisp-connection.go\<close>, first part; the ingress writer of
    \<open>wisp-stream.go\<close>): the batch writer, once as one call after the other and once as steps of
    any number of goroutines.
  \<^item> \<open>Wisp_State\<close> (\<open>types.go\<close>), \<open>Stream_Connect\<close> (\<open>wisp-stream.go\<close>), \<open>V2_Info\<close> (\<open>v2.go\<close>), \<open>Twisp\<close>
    (\<open>twisp.go\<close>, \<open>windows.go\<close>), \<open>Conn_Handlers\<close> (\<open>wisp-connection.go\<close>, \<open>wsreader.go\<close>): the state of a
    connection and its operations. A stream is an index into \<open>wc_heap\<close>, so that the aliasing
    of the registry, the lookup cache and the goroutines is explicit; \<open>wc_tasks\<close> lists the
    goroutines, each at the point it has reached.
  \<^item> \<open>Conn_System\<close>: \<open>conn_step\<close>, a frame or one goroutine going on to its next blocking point,
    and \<open>reachable\<close>. \<open>Handler_Setup\<close>, \<open>Server\<close> (\<open>wisp.go\<close>, \<open>main.go\<close>): buffers, dialler and upgrade,
    admission, shared state, start-up. \<open>Main_Program\<close> (\<open>main.go\<close>): the two goroutines of \<open>main\<close>,
    the messages and the shut-down.
  \<^item> \<open>Relay\<close> (\<open>readFromConnection\<close> as a loop, over the steps of \<open>Stream_Connect\<close>), \<open>Stream_Life\<close> (the
    operations a stream passes through, composed), \<open>Terminal_Relay\<close> (\<open>readPty\<close> as a loop), \<open>Close_Race\<close>
    (\<open>close\<close>, \<open>deleteWispStream\<close> and the lookup statement by statement), \<open>Data_Race\<close> and \<open>Buffer_Race\<close>
    (\<open>handleDataPacket\<close> and \<open>queueIngressOwned\<close> statement by statement), \<open>Sock_Options\<close>
    (\<open>sockopt.go\<close>, \<open>other.go\<close>, the options set in \<open>wisp.go\<close> and \<open>wisp-stream.go\<close>).

  \<^bold>\<open>What is shown.\<close>

  \<^item> \<open>Conn_Inv\<close>, \<open>Conn_Steps\<close>, \<open>Conn_System\<close>: registry, cache and counter agree with the open
    streams in every reachable state, each open stream has one goroutine. One lemma per
    operation, summed up over the steps.
  \<^item> \<open>Conn_Safety\<close>, \<open>Conn_Policy\<close>: what a client can cause: dials within the policy, nothing
    before the handshake, nothing without a required password, the cap on streams. Most
    operations are covered by one relation (\<open>stable\<close>), the others by \<open>safe_extend\<close>.
  \<^item> \<open>Conn_Session\<close>: the read loop returns, alone as well as among the other goroutines of its
    connection, and is a run of the transition system; a session ends with everything closed.
  \<^item> \<open>Conn_Data\<close>: order and completeness of the data of a stream, its credit, its closing.
  \<^item> \<open>Relay\<close>: end to end in both directions, from the bytes a target sends to what the client
    parses, and from the client's masked frames to the bytes the target receives; what the
    size of the read buffer does to the loop and to datagrams. \<open>Stream_Life\<close>: both directions
    and the dial in one statement. \<open>Terminal_Relay\<close>: the same for the output of a terminal.
  \<^item> \<open>Close_Race\<close>: concurrent closings amount to one, in everything but the lookup cache, and
    what an unlucky lookup leaves there. \<open>Data_Race\<close>: alone, the statements of the DATA handler
    are the atomic handler; with a closing in the wrong place it writes to a nil connection
    and the process ends. \<open>Buffer_Race\<close>: who returns the payload buffer, in all interleavings.
  \<^item> \<open>Rep_Store\<close>: what is saved can be loaded, member by member of the JSON document.
  \<^item> \<open>Main_Program\<close>: how the process ends, by a panic of any goroutine as well.
    \<open>Sock_Options\<close>: which sockets are configured and how.
  \<^item> \<open>Conn_Slots\<close>: dial slots are conserved by every step.
  \<^item> \<open>Conn_Hazards\<close>: the interleavings in which something is lost or left behind, as theorems.
  \<^item> \<open>Batch_Writer\<close>: one writer, conservation and order in all interleavings, and that the
    sequential model is one of them.
  \<^item> \<open>Server\<close> and this theory: the number of connections, and statements from the
    configuration document to the dial.
  \<^item> The component theories: round trips of the codecs, chunking of the reader, bounds of the
    limiters, equivalence of masking and of the egress policy with their plain readings.

  \<^bold>\<open>Interfaces.\<close> \<open>step_invariant\<close> (\<open>Wisp_Prelude\<close>) carries an invariant over runs, \<open>byte_source\<close>
  (\<open>Frame_Reader\<close>) is what the frame parser needs of a reader; \<open>rate_limiter\<close> and \<open>slot_counter\<close> (\<open>Rate_Limits\<close>), \<open>batch_sink\<close> (\<open>Batch_Writer\<close>) and
  the codecs of \<open>Wisp_Prelude\<close> are locales, interpreted on the model's own operations; the
  dial slots and the connection slots rest on \<open>slots\<close>.

  \<^bold>\<open>Bounds and termination.\<close> There is no fuel. Loops over data are recursive functions with a
  measure; \<open>readLoop_with\<close> and \<open>readFromConnection\<close> are partial functions whose result \<open>None\<close> is
  a loop without end. \<open>Conn_Session\<close> shows that the first always returns, for the finite
  input that a connection delivers before it ends, and \<open>Relay\<close> that the second does exactly
  when the read buffer has room. \<open>readLoop_with\<close> takes what the other goroutines do before each
  frame as an argument; \<open>readLoop_from\<close>, where they do nothing, serves the statements about one
  stream.

  \<^bold>\<open>Granularity.\<close> In \<open>conn_step\<close> a goroutine runs from one blocking point to the next as one
  step: the handler of a frame, \<open>close\<close>, the lookup of a stream and the hand-over of a packet to
  its queue are atomic with respect to each other, which the source does not promise, and a
  write to a target is taken to return. The invariants over reachable states hold at this
  granularity. Where the source interleaves more finely, models of their own take the
  operations apart: the semaphore's loop, the two batch writers, \<open>close\<close> against other callers
  of \<open>close\<close> and the lookup (\<open>Close_Race\<close>), and the handler of a DATA packet against the lookup
  and any number of closings (\<open>Data_Race\<close>, \<open>Buffer_Race\<close>). The first gives \<open>close\<close> back its
  atomicity but for the cache; the others have the behaviours that \<open>conn_step\<close> leaves out: a
  stale cache entry, a write to a nil connection, a buffer returned twice. Other handlers
  against \<open>close\<close> are not taken apart.

  \<^bold>\<open>Parameters.\<close> bcrypt, the JSON grammar, the text of a JSON value and of a time, the resolver, the answers of dials, targets and
  processes, the SOCKS library's acceptance of an address, the WebSocket upgrade, the
  clock, the file system and the order in which Go walks a map are arguments, unconstrained
  unless a theorem says so.

  \<^bold>\<open>Not modelled.\<close> The log messages of the components other than \<open>main\<close>; \<open>net/http\<close>, \<open>os/signal\<close>
  and the file server themselves, of which \<open>Main_Program\<close> uses the documented behaviour; the
  environment variables of a terminal's process; the Unicode parts of \<open>strings.ToLower\<close> and
  \<open>strings.TrimSpace\<close>, so that the names compared in filters are folded and trimmed in ASCII only;
  a null entry in the file of the reputation store, which \<open>Load\<close> would keep as a nil pointer; the timer of \<open>RunMaintenance\<close>, whose body is
  modelled; the Node.js wrapper under \<open>src/src\<close>.
\<close>

section \<open>From the document to the dial\<close>

lemma serving_config: "serving sv0 sv live \<Longrightarrow> sv_config sv = sv_config sv0"
proof (induction rule: serving.induct)
  case (serve_refuse sv live rq up res sv')
  then show ?case using handle_request_cases [OF serve_refuse(2)] by auto
next
  case (serve_accept sv live rq up c sv')
  then show ?case
    using handle_request_cases [OF serve_accept(2)] acquire_connection_slots by auto
qed (simp_all add: end_connection_def)

text \<open>The configuration that \<open>main\<close> serves is closed where document and flags are silent.\<close>

lemma main_config_closed:
  assumes "main_config (LoadConfig parse parse_first files) fl = Inr cfg"
    and "config_members parse parse_first files (fConfig fl) = Some ms"
    and "\<not> mentions ms ''allowPrivateIPs''" and "\<not> mentions ms ''allowLoopbackIPs''"
    and "\<not> mentions ms ''whitelist''" and "fAllowLoopback fl \<noteq> Some True"
  shows "\<not> cfg_AllowPrivateIPs cfg" and "\<not> cfg_AllowLoopbackIPs cfg" and "cfg_Whitelist cfg = emptyFilter"
proof -
  define cfg0 where "cfg0 = (if fConfig fl = [] then DefaultConfig
    else projr (LoadConfig parse parse_first files (fConfig fl)))"
  have "\<not> cfg_AllowPrivateIPs cfg0 \<and> \<not> cfg_AllowLoopbackIPs cfg0 \<and> cfg_Whitelist cfg0 = emptyFilter"
    using assms(1) LoadConfig_closed_defaults [OF _ _ assms(2)] assms(3-5)
    by (cases "LoadConfig parse parse_first files (fConfig fl)")
      (auto simp: cfg0_def main_config_def DefaultConfig_def split: if_splits)
  moreover have "cfg_AllowPrivateIPs cfg = cfg_AllowPrivateIPs cfg0" "cfg_Whitelist cfg = cfg_Whitelist cfg0"
    "cfg_AllowLoopbackIPs cfg = (case fAllowLoopback fl of None \<Rightarrow> cfg_AllowLoopbackIPs cfg0 | Some b \<Rightarrow> b)"
    using assms(1)
    by (auto simp: cfg0_def main_config_def Let_def split: if_splits sum.splits option.splits)
  ultimately show "\<not> cfg_AllowPrivateIPs cfg" and "\<not> cfg_AllowLoopbackIPs cfg" and "cfg_Whitelist cfg = emptyFilter"
    using assms(6) by (auto split: option.splits)
qed

lemma dial_inside_refused:
  assumes "dial_allowed cfg (DirectDial net addr)" and "cfg_hasDNSCache cfg"
    and "\<not> cfg_AllowPrivateIPs cfg" and "\<not> cfg_AllowLoopbackIPs cfg" and "cfg_Whitelist cfg = emptyFilter"
  shows "\<exists>ip. \<exists>port :: u16. addr = JoinHostPort (IP_String ip) (itoa (unat port))
    \<and> ip \<noteq> [] \<and> \<not> IsUnspecified ip \<and> \<not> IsLoopback ip \<and> \<not> internal_ip ip"
proof -
  obtain host and port :: u16 where "addr = JoinHostPort host (itoa (unat port))" "target_allowed cfg host"
  proof -
    have "filtered_address cfg (target_allowed cfg) addr" using assms(1) by (simp add: dial_allowed_def)
    then show thesis using that unfolding filtered_address_def by blast
  qed
  then show ?thesis
    using assms(2-5) by (auto simp: target_allowed_def emptyFilter_def egress_ok_def)
qed

text \<open>
  C2: A server started without the flag --allow-loopback, whose configuration - a document
  given inline or in a file, or none at all - has no member for private addresses, loopback
  addresses or a whitelist, never connects inside: over its whole life, every direct
  connection attempt any client causes goes to a literal address that is neither
  unspecified nor loopback, private or link-local; no name is left to the dialler. (A
  configuration with a SOCKS proxy makes no direct attempts.)
\<close>

theorem server_never_dials_inside:
  assumes "main_server decode fs now (LoadConfig parse parse_first files) fl = Inr sv0"
    and "config_members parse parse_first files (fConfig fl) = Some ms"
    and "\<not> mentions ms ''allowPrivateIPs''" and "\<not> mentions ms ''allowLoopbackIPs''"
    and "\<not> mentions ms ''whitelist''" and "fAllowLoopback fl \<noteq> Some True"
    and "serving sv0 sv live" and "handle_request rq up sv = (Accepted c, sv')"
    and "(conn_step bcrypt)\<^sup>*\<^sup>* c d" and "DirectDial net addr \<in> set (wc_dials d)"
  shows "\<exists>ip. \<exists>port :: u16. addr = JoinHostPort (IP_String ip) (itoa (unat port))
    \<and> ip \<noteq> [] \<and> \<not> IsUnspecified ip \<and> \<not> IsLoopback ip \<and> \<not> internal_ip ip"
proof -
  obtain cfg0 where m: "main_config (LoadConfig parse parse_first files) fl = Inr cfg0"
    and sv0: "sv0 = create_handler decode fs now 0 (CreateWispConfig cfg0)"
    using assms(1) by (auto simp: main_server_def split: sum.splits)
  note closed = main_config_closed [OF m assms(2-6)]
  have cfg: "cfg_hasDNSCache (sv_config sv0)" "cfg_AllowPrivateIPs (sv_config sv0) = cfg_AllowPrivateIPs cfg0"
    "cfg_AllowLoopbackIPs (sv_config sv0) = cfg_AllowLoopbackIPs cfg0"
    "cfg_Whitelist (sv_config sv0) = cfg_Whitelist cfg0"
    by (simp_all add: sv0 create_handler_def InitResolver_def CreateWispConfig_def)
  obtain g v2 ip n nc where r: "reachable bcrypt (newConnection (sv_config sv) g (sv_dns sv) v2 ip n nc) d"
    using accepted_reachable [OF assms(8,9)] by blast
  have "dial_allowed (sv_config sv0) (DirectDial net addr)"
    using safeD(5) [OF reachable_safe [OF r] assms(10)] reachable_setup [OF r] serving_config [OF assms(7)]
    by simp
  with dial_inside_refused show ?thesis
    using cfg closed by simp
qed


text \<open>The document of a server that lets clients name addresses.\<close>

definition direct_flags :: flags where
  "direct_flags = \<lparr>fConfig = ''{\"allowDirectIP\": true}'', fPort = 0, fAllowLoopback = None\<rparr>"

definition direct_parse :: "string \<Rightarrow> json option" where
  "direct_parse _ = Some (JObj [(''allowDirectIP'', JBool True)])"

lemma direct_main:
  "main_server (\<lambda>_ :: unit. None) Map.empty 0 (LoadConfig direct_parse (\<lambda>_. None) Map.empty) direct_flags
     = Inr direct_server"
proof -
  have "LoadConfig direct_parse (\<lambda>_. None) Map.empty (fConfig direct_flags) = Inr direct_cfg"
    by (simp add: LoadConfig_def Let_def direct_flags_def direct_parse_def decode_object_def decode_member_def
        Config_fields_def key_matches_def set_bool_def direct_cfg_def go_eval strings_HasPrefix_def)
  then show ?thesis
    by (simp add: main_server_def main_config_def direct_server_def Let_def) (simp add: direct_flags_def)
qed


theorem server_never_dials_inside_witness:
  "\<exists>ip. \<exists>port :: u16. JoinHostPort ''8.8.8.8'' ''80'' = JoinHostPort (IP_String ip) (itoa (unat port))
    \<and> ip \<noteq> [] \<and> \<not> IsUnspecified ip \<and> \<not> IsLoopback ip \<and> \<not> internal_ip ip"
proof -
  obtain sv' where h: "handle_request example_request (Some (nc_fresh [])) direct_server = (Accepted direct_conn, sv')"
    using direct_accepted by blast
  show ?thesis
    by (rule server_never_dials_inside [where ms = "[(''allowDirectIP'', JBool True)]",
        OF direct_main _ _ _ _ _ serve_start h direct_dials])
      (simp_all add: direct_flags_def direct_parse_def config_members_def mentions_def key_matches_def go_eval
        strings_HasPrefix_def)
qed

end
